(* ===== verification/Prelude.thy ===== *)
theory Prelude
  imports Complex_Main "HOL-Library.Word" "HOL-Library.Multiset" "HOL-Library.List_Lexorder"
    "HOL-Library.Char_ord" "HOL-Library.Product_Lexorder"
begin

unbundle bit_operations_syntax

text \<open>
  Shared vocabulary of the development: the integer types of the C++ code, truncating
  division, decimal rendering of integers (\<open>std::to_string\<close> and \<open>operator<<\<close> on integral
  types), \<open>std::string::find\<close> based splitting, and generic list lemmas.

  Strings are char lists (one char is one byte of a \<open>std::string\<close>).  A C++ \<open>long\<close> that is
  only copied, compared or divided is an \<open>int\<close>; where wrap-around matters the value is a
  \<open>64 word\<close> (see the theories on the ring buffer and the flow controller).
\<close>

type_synonym u8 = "8 word"
type_synonym u16 = "16 word"
type_synonym u32 = "32 word"
type_synonym u64 = "64 word"

named_theorems lib_simps \<open>unfolding rules shared by the component proofs\<close>

section \<open>Integers\<close>

text \<open>C++ \<open>/\<close> on signed integers truncates towards zero.\<close>

definition trunc_div :: "int \<Rightarrow> int \<Rightarrow> int" where
  "trunc_div a b = sgn a * sgn b * (\<bar>a\<bar> div \<bar>b\<bar>)"

definition trunc_mod :: "int \<Rightarrow> int \<Rightarrow> int" where
  "trunc_mod a b = a - b * trunc_div a b"

lemma trunc_div_nonneg: "0 \<le> a \<Longrightarrow> 0 < b \<Longrightarrow> trunc_div a b = a div b"
  by (cases "a = 0") (simp_all add: trunc_div_def)

lemma trunc_div_neg: "a < 0 \<Longrightarrow> 0 < b \<Longrightarrow> trunc_div a b = - ((- a) div b)"
  by (simp add: trunc_div_def)

lemma trunc_div_mult_le:
  assumes "0 < b"
  shows "\<bar>trunc_div a b * b\<bar> \<le> \<bar>a\<bar>"
proof -
  have "\<bar>a\<bar> div b * b \<le> \<bar>a\<bar>"
    using assms by (metis abs_ge_zero div_mult_mod_eq pos_mod_sign le_add_same_cancel1)
  moreover have "\<bar>trunc_div a b * b\<bar> = \<bar>a\<bar> div b * b"
  proof (cases "a = 0")
    case False
    then have "\<bar>sgn a\<bar> = 1" by simp
    moreover have "0 \<le> \<bar>a\<bar> div b" using assms by (simp add: pos_imp_zdiv_nonneg_iff)
    ultimately show ?thesis using assms by (simp add: trunc_div_def abs_mult)
  qed (simp add: trunc_div_def)
  ultimately show ?thesis by simp
qed

definition long_min :: int where "long_min = - (2 ^ 63)"
definition long_max :: int where "long_max = 2 ^ 63 - 1"

definition long_range :: "int \<Rightarrow> bool" where
  "long_range x \<longleftrightarrow> long_min \<le> x \<and> x \<le> long_max"

definition int_range :: "int \<Rightarrow> bool" where
  "int_range x \<longleftrightarrow> - (2 ^ 31) \<le> x \<and> x < 2 ^ 31"

text \<open>\<open>static_cast<int>\<close> of the size of a string keeps its 32 low bits.\<close>

definition size_as_int :: "nat \<Rightarrow> int" where
  "size_as_int n = sint (of_nat n :: u32)"

lemma size_as_int_small: "n < 2 ^ 31 \<Longrightarrow> size_as_int n = int n"
  by (simp add: size_as_int_def sint_uint unsigned_of_nat signed_take_bit_int_eq_self take_bit_nat_eq_self)

lemma size_as_int_wrapped: "2 ^ 32 dvd n \<Longrightarrow> size_as_int n = 0"
  using word_of_nat_eq_0_iff [where 'a = 32, of n] by (simp add: size_as_int_def)

lemma size_as_int_range: "int_range (size_as_int n)"
  using sint_range_size [of "of_nat n :: u32"]
  by (simp add: size_as_int_def int_range_def word_size)

section \<open>Decimal rendering\<close>

definition digit_char :: "nat \<Rightarrow> char" where
  "digit_char d = char_of (48 + d)"

fun digits_of :: "nat \<Rightarrow> string" where
  "digits_of n = (if n < 10 then [digit_char n]
     else digits_of (n div 10) @ [digit_char (n mod 10)])"

declare digits_of.simps [simp del]

text \<open>\<open>std::to_string\<close> of an integral value.\<close>

definition to_string :: "int \<Rightarrow> string" where
  "to_string i = (if i < 0 then ''-'' @ digits_of (nat (- i)) else digits_of (nat i))"

text \<open>Reading a run of decimal digits back, the inverse used by the round-trip proofs.\<close>

definition digit_val :: "char \<Rightarrow> nat" where
  "digit_val c = of_char c - 48"

definition is_digit :: "char \<Rightarrow> bool" where
  "is_digit c \<longleftrightarrow> 48 \<le> (of_char c :: nat) \<and> (of_char c :: nat) \<le> 57"

definition num_of_digits :: "string \<Rightarrow> nat" where
  "num_of_digits s = foldl (\<lambda>n c. 10 * n + digit_val c) 0 s"

lemma of_char_digit_char: "d < 10 \<Longrightarrow> (of_char (digit_char d) :: nat) = 48 + d"
  by (simp add: digit_char_def)

lemma digit_val_digit_char [simp]: "d < 10 \<Longrightarrow> digit_val (digit_char d) = d"
  by (simp add: digit_val_def of_char_digit_char)

lemma is_digit_digit_char [simp]: "d < 10 \<Longrightarrow> is_digit (digit_char d)"
  by (simp add: is_digit_def of_char_digit_char)

lemma digits_of_nonempty [simp]: "digits_of n \<noteq> []"
  by (subst digits_of.simps) simp

lemma digits_of_digits: "list_all is_digit (digits_of n)"
proof (induction n rule: digits_of.induct)
  case (1 n)
  show ?case
  proof (cases "n < 10")
    case True
    then show ?thesis by (subst digits_of.simps) simp
  next
    case False
    with 1 show ?thesis by (subst digits_of.simps) simp
  qed
qed

lemma num_of_digits_of [simp]: "num_of_digits (digits_of n) = n"
proof (induction n rule: digits_of.induct)
  case (1 n)
  show ?case
  proof (cases "n < 10")
    case True
    then show ?thesis by (subst digits_of.simps) (simp add: num_of_digits_def)
  next
    case False
    with 1 have "num_of_digits (digits_of (n div 10)) = n div 10" by simp
    with False show ?thesis by (subst digits_of.simps) (simp add: num_of_digits_def)
  qed
qed

lemma digits_of_inj: "digits_of m = digits_of n \<Longrightarrow> m = n"
  by (metis num_of_digits_of)

text \<open>The same digits computed on integers, which evaluate in binary.\<close>

definition digit_char_int :: "int \<Rightarrow> char" where
  "digit_char_int d = char_of (48 + d)"

function digits_int :: "int \<Rightarrow> string" where
  "digits_int n = (if n < 10 then [digit_char_int n]
     else digits_int (n div 10) @ [digit_char_int (n mod 10)])"
  by pat_completeness auto
termination by (relation "measure nat") auto

declare digits_int.simps [simp del]

lemma digit_char_int_of_nat: "digit_char_int (int d) = digit_char d"
proof -
  have "48 + int d = int (48 + d)" by simp
  then show ?thesis by (simp only: digit_char_int_def digit_char_def char_of_nat)
qed

lemma digits_int_of_nat: "digits_int (int n) = digits_of n"
proof (induction n rule: digits_of.induct)
  case (1 n)
  show ?case
  proof (cases "n < 10")
    case True
    then show ?thesis by (subst digits_int.simps, subst digits_of.simps) (simp add: digit_char_int_of_nat)
  next
    case False
    then have "digits_int (int n div 10) = digits_of (n div 10)" using 1 by (simp add: zdiv_int)
    moreover have "digit_char_int (int n mod 10) = digit_char (n mod 10)"
      using digit_char_int_of_nat [of "n mod 10"] by (simp add: zmod_int)
    ultimately show ?thesis using False by (subst digits_int.simps, subst digits_of.simps) simp
  qed
qed

lemma digits_of_nat_int: "0 \<le> i \<Longrightarrow> digits_of (nat i) = digits_int i"
  using digits_int_of_nat [of "nat i"] by simp

lemma to_string_code [code]:
  "to_string i = (if i < 0 then CHR ''-'' # digits_int (- i) else digits_int i)"
  by (simp add: to_string_def digits_of_nat_int)

section \<open>Lists\<close>

lemma set_takeWhile_neg: "x \<in> set (takeWhile P xs) \<Longrightarrow> P x"
  by (rule set_takeWhileD [THEN conjunct2])

lemma takeWhile_append_stop: "list_all P xs \<Longrightarrow> \<not> P y \<Longrightarrow> takeWhile P (xs @ y # ys) = xs"
  by (induction xs) auto

lemma dropWhile_append_stop: "list_all P xs \<Longrightarrow> \<not> P y \<Longrightarrow> dropWhile P (xs @ y # ys) = y # ys"
  by (induction xs) auto

lemma filter_concat_map: "filter P (concat xss) = concat (map (filter P) xss)"
  by (induction xss) auto

text \<open>\<open>vector::substr\<close>/\<open>find\<close> splitting: the text up to the first separator and the rest.\<close>

definition split_at :: "char \<Rightarrow> string \<Rightarrow> string \<times> string option" where
  "split_at c s = (takeWhile (\<lambda>x. x \<noteq> c) s,
     (case dropWhile (\<lambda>x. x \<noteq> c) s of [] \<Rightarrow> None | _ # r \<Rightarrow> Some r))"

lemma split_at_None: "c \<notin> set s \<Longrightarrow> split_at c s = (s, None)"
  unfolding split_at_def by (induction s) auto

lemma split_at_Some: "c \<notin> set a \<Longrightarrow> split_at c (a @ c # b) = (a, Some b)"
  unfolding split_at_def
  by (induction a) auto

lemma split_at_shorter: "split_at c s = (a, Some r) \<Longrightarrow> length r < length s"
  unfolding split_at_def
  by (induction s arbitrary: a) (auto split: if_splits)

end
