(* ===== verification/Binary64.thy ===== *)
theory Binary64
  imports Prelude
begin

text \<open>
  The C++ type \<open>double\<close> (IEEE 754 binary64), executable on rationals.  A value is NaN, an
  infinity, or a finite rational; every arithmetic operation computes exactly and rounds to
  53 significant bits, ties to even, with subnormals below \<open>2 ^ -1022\<close> and overflow to an
  infinity.  The sign of a zero and the payload of a NaN are not represented: no code of
  the repository that is modelled here looks at them (a zero divisor counts as \<open>+0\<close>).

  The main facts are that rounding is monotone and fixes representable numbers, from which
  the bounds of the components follow by monotonicity and one evaluation at the corner.
\<close>

datatype double = NaN | PInf | NInf | Fin rat

section \<open>Rounding\<close>

function bits :: "int \<Rightarrow> int" where
  "bits n = (if n \<le> 0 then 0 else 1 + bits (n div 2))"
  by pat_completeness auto
termination
  by (relation "measure nat") auto

declare bits.simps [simp del]

text \<open>The binary exponent of a positive rational: the \<open>e\<close> with \<open>2 ^ e \<le> x < 2 ^ (e + 1)\<close>.\<close>

definition expo :: "rat \<Rightarrow> int" where
  "expo x = (let (p, q) = quotient_of x;
                 e = bits p - bits q
             in if 2 powi e \<le> x then e else e - 1)"

text \<open>Round to the nearest integer, ties to even.\<close>

definition round_even :: "rat \<Rightarrow> int" where
  "round_even x = (let f = \<lfloor>x\<rfloor>; d = x - of_int f in
     if d < 1/2 then f else if 1/2 < d then f + 1 else if even f then f else f + 1)"

definition ulp_exp :: "rat \<Rightarrow> int" where
  "ulp_exp x = max (expo x) (-1022) - 52"

definition round_mag :: "rat \<Rightarrow> rat" where
  "round_mag x = (if x = 0 then 0
     else of_int (round_even (x / 2 powi ulp_exp x)) * 2 powi ulp_exp x)"

definition round_rat :: "rat \<Rightarrow> rat" where
  "round_rat x = (if x < 0 then - round_mag (- x) else round_mag x)"

definition max_mag :: rat where
  "max_mag = 2 ^ 1024"

definition round64 :: "rat \<Rightarrow> double" where
  "round64 x = (let r = round_rat x in
     if max_mag \<le> r then PInf else if r \<le> - max_mag then NInf else Fin r)"

text \<open>Evaluation need not build the overflow threshold for values of ordinary size.\<close>

lemma round64_code [code]:
  "round64 x = (let r = round_rat x in
     if \<bar>r\<bar> < 4611686018427387904 then Fin r
     else if max_mag \<le> r then PInf else if r \<le> - max_mag then NInf else Fin r)"
proof -
  have "(4611686018427387904::rat) \<le> max_mag"
    unfolding max_mag_def using power_increasing [of 62 1024 "2::rat"] by simp
  then show ?thesis by (auto simp: round64_def Let_def)
qed

section \<open>Arithmetic and comparison\<close>

fun d_neg :: "double \<Rightarrow> double" where
  "d_neg NaN = NaN" | "d_neg PInf = NInf" | "d_neg NInf = PInf" | "d_neg (Fin a) = Fin (- a)"

fun d_add :: "double \<Rightarrow> double \<Rightarrow> double" where
  "d_add (Fin a) (Fin b) = round64 (a + b)"
| "d_add NaN _ = NaN"
| "d_add _ NaN = NaN"
| "d_add PInf NInf = NaN"
| "d_add NInf PInf = NaN"
| "d_add PInf _ = PInf"
| "d_add _ PInf = PInf"
| "d_add NInf _ = NInf"
| "d_add _ NInf = NInf"

definition d_sub :: "double \<Rightarrow> double \<Rightarrow> double" where
  "d_sub a b = d_add a (d_neg b)"

definition signed_inf :: "bool \<Rightarrow> double" where
  "signed_inf neg = (if neg then NInf else PInf)"

fun d_sgn :: "double \<Rightarrow> rat" where
  "d_sgn NaN = 0" | "d_sgn PInf = 1" | "d_sgn NInf = -1" | "d_sgn (Fin a) = sgn a"

definition d_mul :: "double \<Rightarrow> double \<Rightarrow> double" where
  "d_mul x y = (case (x, y) of
     (Fin a, Fin b) \<Rightarrow> round64 (a * b)
   | (NaN, _) \<Rightarrow> NaN
   | (_, NaN) \<Rightarrow> NaN
   | _ \<Rightarrow> (let s = d_sgn x * d_sgn y in if s = 0 then NaN else signed_inf (s < 0)))"

definition d_div :: "double \<Rightarrow> double \<Rightarrow> double" where
  "d_div x y = (case (x, y) of
     (Fin a, Fin b) \<Rightarrow> (if b = 0 then (if a = 0 then NaN else signed_inf (a < 0))
                         else round64 (a / b))
   | (NaN, _) \<Rightarrow> NaN
   | (_, NaN) \<Rightarrow> NaN
   | (Fin a, _) \<Rightarrow> Fin 0
   | (_, Fin b) \<Rightarrow> signed_inf (d_sgn x * (if b < 0 then -1 else 1) < 0)
   | _ \<Rightarrow> NaN)"

fun d_lt :: "double \<Rightarrow> double \<Rightarrow> bool" where
  "d_lt (Fin a) (Fin b) = (a < b)"
| "d_lt NaN _ = False"
| "d_lt _ NaN = False"
| "d_lt _ NInf = False"
| "d_lt PInf _ = False"
| "d_lt _ _ = True"

fun d_le :: "double \<Rightarrow> double \<Rightarrow> bool" where
  "d_le (Fin a) (Fin b) = (a \<le> b)"
| "d_le NaN _ = False"
| "d_le _ NaN = False"
| "d_le NInf _ = True"
| "d_le _ PInf = True"
| "d_le _ _ = False"

abbreviation (input) d_gt :: "double \<Rightarrow> double \<Rightarrow> bool" where
  "d_gt a b \<equiv> d_lt b a"

abbreviation (input) d_ge :: "double \<Rightarrow> double \<Rightarrow> bool" where
  "d_ge a b \<equiv> d_le b a"

text \<open>
  \<open>std::min\<close> and \<open>std::max\<close>: the second argument is taken only when it compares smaller
  (larger), so a NaN in second place is dropped and a NaN in first place is kept.
\<close>

definition d_min :: "double \<Rightarrow> double \<Rightarrow> double" where
  "d_min a b = (if d_lt b a then b else a)"

definition d_max :: "double \<Rightarrow> double \<Rightarrow> double" where
  "d_max a b = (if d_lt a b then b else a)"

fun d_abs :: "double \<Rightarrow> double" where
  "d_abs NaN = NaN" | "d_abs (Fin a) = Fin \<bar>a\<bar>" | "d_abs _ = PInf"

fun d_floor :: "double \<Rightarrow> double" where
  "d_floor (Fin a) = Fin (of_int \<lfloor>a\<rfloor>)" | "d_floor x = x"

fun is_nan :: "double \<Rightarrow> bool" where
  "is_nan NaN = True" | "is_nan _ = False"

text \<open>\<open>static_cast<int>\<close>: undefined behaviour (None) when the truncated value does not fit.\<close>

fun to_int :: "double \<Rightarrow> int option" where
  "to_int (Fin a) = (let t = (if a < 0 then \<lceil>a\<rceil> else \<lfloor>a\<rfloor>) in
     if int_range t then Some t else None)"
| "to_int _ = None"

text \<open>The value of a decimal literal, and of an integer converted to \<open>double\<close>.\<close>

definition lit :: "rat \<Rightarrow> double" where
  "lit r = round64 r"

definition of_size :: "nat \<Rightarrow> double" where
  "of_size n = round64 (of_nat n)"

definition of_long :: "int \<Rightarrow> double" where
  "of_long n = round64 (of_int n)"

section \<open>The exponent brackets its argument\<close>

lemma bits_step: "0 < n \<Longrightarrow> bits n = 1 + bits (n div 2)"
  by (simp add: bits.simps)

lemma bits_nonneg: "0 \<le> bits n"
proof (induction n rule: bits.induct)
  case (1 n)
  then show ?case by (simp add: bits.simps [of n])
qed

lemma bits_pos: "0 < n \<Longrightarrow> 0 < bits n"
  using bits_nonneg [of "n div 2"] by (simp add: bits_step)

lemma bits_bounds: "0 < n \<Longrightarrow> 2 ^ (nat (bits n) - 1) \<le> n \<and> n < 2 ^ nat (bits n)"
proof (induction n rule: bits.induct)
  case (1 n)
  show ?case
  proof (cases "n div 2 = 0")
    case True
    with 1 have "n = 1" by auto
    then show ?thesis by (simp add: bits.simps)
  next
    case False
    then have h: "0 < n div 2" using 1 by auto
    with 1 have IH: "2 ^ (nat (bits (n div 2)) - 1) \<le> n div 2" "n div 2 < 2 ^ nat (bits (n div 2))"
      by auto
    have b: "nat (bits n) = Suc (nat (bits (n div 2)))"
      using 1 bits_nonneg [of "n div 2"] by (simp add: bits_step)
    have "0 < nat (bits (n div 2))" using bits_pos [OF h] by simp
    then have "(2::int) ^ nat (bits (n div 2)) = 2 * 2 ^ (nat (bits (n div 2)) - 1)"
      by (cases "nat (bits (n div 2))") auto
    moreover have "2 * (n div 2) \<le> n" "n < 2 * (n div 2) + 2" by auto
    moreover have "n div 2 + 1 \<le> 2 ^ nat (bits (n div 2))" using IH(2) by simp
    ultimately have "2 ^ nat (bits (n div 2)) \<le> n" "n < 2 * 2 ^ nat (bits (n div 2))"
      using IH(1) by linarith+
    with b show ?thesis by simp
  qed
qed

lemma powi_diff: "(2::rat) powi (a - b) = 2 powi a / 2 powi b"
  by (simp add: power_int_diff)

lemma powi_pos [simp]: "0 < (2::rat) powi e"
  by (simp add: zero_less_power_int)

lemma powi_mono: "a \<le> b \<Longrightarrow> (2::rat) powi a \<le> 2 powi b"
  by (simp add: power_int_increasing)

lemma powi_less: "(2::rat) powi a < 2 powi b \<Longrightarrow> a < b"
  by (meson leD linorder_not_less powi_mono)

lemma powi_Suc: "(2::rat) powi (e + 1) = 2 * 2 powi e"
  by (simp add: power_int_add)

lemma expo_bounds:
  assumes "0 < x"
  shows "2 powi expo x \<le> x" and "x < 2 powi (expo x + 1)"
proof -
  obtain p q where pq: "quotient_of x = (p, q)" by (cases "quotient_of x")
  have q: "0 < q" using pq by (rule quotient_of_denom_pos)
  have x: "x = of_int p / of_int q" using pq by (rule quotient_of_div)
  have p: "0 < p" using assms q unfolding x by (simp add: zero_less_divide_iff)
  define P where "P = nat (bits p)"
  define Q where "Q = nat (bits q)"
  have P0: "0 < P" and Q0: "0 < Q" using p q by (simp_all add: P_def Q_def bits_pos)
  have PQ: "int P = bits p" "int Q = bits q" by (simp_all add: P_def Q_def bits_nonneg)
  have n: "(2::int) ^ (P - 1) \<le> p" "p < 2 ^ P" "(2::int) ^ (Q - 1) \<le> q" "q < 2 ^ Q"
    using bits_bounds [OF p] bits_bounds [OF q] by (auto simp: P_def Q_def)
  then have r: "(2::rat) ^ (P - 1) \<le> of_int p" "of_int p < (2::rat) ^ P"
    "(2::rat) ^ (Q - 1) \<le> of_int q" "of_int q < (2::rat) ^ Q"
    by (metis of_int_le_iff of_int_less_iff of_int_numeral of_int_power)+
  have qr: "0 < (of_int q :: rat)" using q by simp
  have up: "x < 2 powi (int P - int Q + 1)"
  proof -
    have "x < 2 ^ P / of_int q" unfolding x using r(2) qr by (simp add: divide_strict_right_mono)
    also have "\<dots> \<le> 2 ^ P / 2 ^ (Q - 1)" using r(3) qr by (intro divide_left_mono mult_pos_pos) simp_all
    also have "\<dots> = 2 powi (int P - int Q + 1)"
      using Q0 by (cases Q) (simp_all add: power_int_diff power_int_add field_simps)
    finally show ?thesis .
  qed
  have lo: "2 powi (int P - int Q - 1) \<le> x"
  proof -
    have "2 powi (int P - int Q - 1) = (2::rat) ^ (P - 1) / 2 ^ Q"
      using P0 by (cases P) (simp_all add: power_int_diff field_simps)
    also have "\<dots> \<le> 2 ^ (P - 1) / of_int q"
      using r(4) qr by (intro divide_left_mono) auto
    also have "\<dots> \<le> x" unfolding x using r(1) qr by (simp add: divide_right_mono)
    finally show ?thesis .
  qed
  have e: "expo x = (if 2 powi (int P - int Q) \<le> x then int P - int Q else int P - int Q - 1)"
    by (simp add: expo_def pq PQ Let_def)
  show "2 powi expo x \<le> x" using e lo by simp
  show "x < 2 powi (expo x + 1)" using e up by auto
qed

lemma expo_mono: "0 < x \<Longrightarrow> x \<le> y \<Longrightarrow> expo x \<le> expo y"
proof -
  assume a: "0 < x" "x \<le> y"
  then have "2 powi expo x < (2::rat) powi (expo y + 1)"
    using expo_bounds(1) [of x] expo_bounds(2) [of y] by linarith
  then show ?thesis using powi_less by force
qed

section \<open>Rounding is monotone and fixes representable numbers\<close>

lemma round_even_of_int [simp]: "round_even (of_int n) = n"
  by (simp add: round_even_def)

lemma round_even_cases: "round_even x = \<lfloor>x\<rfloor> \<or> round_even x = \<lfloor>x\<rfloor> + 1"
  by (simp add: round_even_def Let_def)

lemma round_even_mono:
  assumes "x \<le> y"
  shows "round_even x \<le> round_even y"
proof (cases "\<lfloor>x\<rfloor> = \<lfloor>y\<rfloor>")
  case True
  then show ?thesis using assms by (auto simp: round_even_def Let_def)
next
  case False
  then have "\<lfloor>x\<rfloor> + 1 \<le> \<lfloor>y\<rfloor>" using floor_mono [OF assms] by linarith
  then show ?thesis using round_even_cases [of x] round_even_cases [of y] by auto
qed

lemma round_even_ge: "of_int n \<le> x \<Longrightarrow> n \<le> round_even x"
  using round_even_mono [of "of_int n" x] by simp

lemma round_even_le: "x \<le> of_int n \<Longrightarrow> round_even x \<le> n"
  using round_even_mono [of x "of_int n"] by simp

lemma round_mag_nonneg: "0 \<le> x \<Longrightarrow> 0 \<le> round_mag x"
  using round_even_ge [of 0 "x / 2 powi ulp_exp x"] by (simp add: round_mag_def)

lemma round_mag_le_pow:
  assumes "0 < x" "x \<le> 2 powi (ulp_exp x + 53)"
  shows "round_mag x \<le> 2 powi (ulp_exp x + 53)"
proof -
  have "x / 2 powi ulp_exp x \<le> of_int (2 ^ 53)"
    using assms(2) by (simp add: power_int_add field_simps)
  then have "round_even (x / 2 powi ulp_exp x) \<le> 2 ^ 53" by (rule round_even_le)
  then have "(of_int (round_even (x / 2 powi ulp_exp x)) :: rat) \<le> of_int (2 ^ 53)"
    by (simp only: of_int_le_iff)
  then have "of_int (round_even (x / 2 powi ulp_exp x)) * 2 powi ulp_exp x
      \<le> 2 ^ 53 * (2::rat) powi ulp_exp x"
    by (intro mult_right_mono) simp_all
  then show ?thesis using assms(1) by (simp add: round_mag_def power_int_add mult.commute)
qed

lemma round_mag_ge_pow:
  assumes "0 < x" "2 powi (ulp_exp x + 52) \<le> x"
  shows "2 powi (ulp_exp x + 52) \<le> round_mag x"
proof -
  have "of_int (2 ^ 52) \<le> x / 2 powi ulp_exp x"
    using assms(2) by (simp add: power_int_add field_simps)
  then have "2 ^ 52 \<le> round_even (x / 2 powi ulp_exp x)" by (rule round_even_ge)
  then have "(of_int (2 ^ 52) :: rat) \<le> of_int (round_even (x / 2 powi ulp_exp x))"
    by (simp only: of_int_le_iff)
  then have "2 ^ 52 * (2::rat) powi ulp_exp x
      \<le> of_int (round_even (x / 2 powi ulp_exp x)) * 2 powi ulp_exp x"
    by (intro mult_right_mono) simp_all
  then show ?thesis using assms(1) by (simp add: round_mag_def power_int_add mult.commute)
qed

lemma round_mag_mono:
  assumes "0 \<le> x" "x \<le> y"
  shows "round_mag x \<le> round_mag y"
proof (cases "x = 0")
  case True
  then show ?thesis using assms round_mag_nonneg [of y] by (simp add: round_mag_def)
next
  case False
  then have x: "0 < x" and y: "0 < y" using assms by auto
  have eq: "ulp_exp x \<le> ulp_exp y" using expo_mono [OF x assms(2)] by (simp add: ulp_exp_def)
  show ?thesis
  proof (cases "ulp_exp x = ulp_exp y")
    case True
    have "x / 2 powi ulp_exp y \<le> y / 2 powi ulp_exp y"
      using assms(2) by (simp add: divide_right_mono)
    then have "round_even (x / 2 powi ulp_exp y) \<le> round_even (y / 2 powi ulp_exp y)"
      by (rule round_even_mono)
    then have "(of_int (round_even (x / 2 powi ulp_exp y)) :: rat)
        \<le> of_int (round_even (y / 2 powi ulp_exp y))" by simp
    then have "of_int (round_even (x / 2 powi ulp_exp y)) * (2::rat) powi ulp_exp y
        \<le> of_int (round_even (y / 2 powi ulp_exp y)) * 2 powi ulp_exp y"
      by (intro mult_right_mono) simp_all
    then show ?thesis using x y True by (simp add: round_mag_def)
  next
    case False
    then have l: "ulp_exp x + 53 \<le> ulp_exp y + 52" and ey: "ulp_exp y = expo y - 52"
      using eq by (auto simp: ulp_exp_def)
    have "x < 2 powi (expo x + 1)" by (rule expo_bounds(2) [OF x])
    also have "\<dots> \<le> 2 powi (ulp_exp x + 53)" by (rule powi_mono) (simp add: ulp_exp_def)
    finally have "round_mag x \<le> 2 powi (ulp_exp x + 53)"
      using x by (intro round_mag_le_pow) simp_all
    also have "\<dots> \<le> 2 powi (ulp_exp y + 52)" using l by (rule powi_mono)
    also have "\<dots> \<le> round_mag y"
      using y expo_bounds(1) [OF y] ey by (intro round_mag_ge_pow) simp_all
    finally show ?thesis .
  qed
qed

lemma round_rat_mono: "x \<le> y \<Longrightarrow> round_rat x \<le> round_rat y"
proof -
  assume a: "x \<le> y"
  show ?thesis
  proof (cases "y < 0")
    case True
    then show ?thesis using a round_mag_mono [of "- y" "- x"] by (simp add: round_rat_def)
  next
    case False
    show ?thesis
    proof (cases "x < 0")
      case True
      have "0 \<le> round_mag (- x)" using True by (intro round_mag_nonneg) simp
      moreover have "0 \<le> round_mag y" using False by (intro round_mag_nonneg) simp
      ultimately show ?thesis using True False by (simp add: round_rat_def)
    next
      case False
      then show ?thesis using a \<open>\<not> y < 0\<close> by (simp add: round_rat_def round_mag_mono)
    qed
  qed
qed

text \<open>A rounded value is a fixed point: rounding it again changes nothing.\<close>

lemma round_mag_exact:
  assumes "0 < v" "v / 2 powi ulp_exp v = of_int k"
  shows "round_mag v = v"
proof -
  have "v = of_int k * 2 powi ulp_exp v" using assms(2) by (simp add: field_simps)
  then show ?thesis using assms by (simp add: round_mag_def)
qed

lemma round_mag_upper: "0 < x \<Longrightarrow> round_mag x \<le> 2 powi (ulp_exp x + 53)"
proof -
  assume x: "0 < x"
  have "x < 2 powi (expo x + 1)" by (rule expo_bounds(2) [OF x])
  also have "\<dots> \<le> 2 powi (ulp_exp x + 53)" by (rule powi_mono) (simp add: ulp_exp_def)
  finally show ?thesis using x by (intro round_mag_le_pow) simp_all
qed

lemma round_mag_idem:
  assumes "0 \<le> x"
  shows "round_mag (round_mag x) = round_mag x"
proof (cases "round_mag x = 0")
  case True
  then show ?thesis by (simp add: round_mag_def)
next
  case False
  define e where "e = ulp_exp x"
  define m where "m = round_even (x / 2 powi e)"
  define v where "v = round_mag x"
  have x: "0 < x" using False assms by (cases "x = 0") (auto simp: round_mag_def)
  have v: "v = of_int m * 2 powi e" using x by (simp add: v_def round_mag_def m_def e_def)
  have v0: "0 < v" using False round_mag_nonneg [OF assms] by (simp add: v_def)
  have ub: "v \<le> 2 powi (e + 53)" using round_mag_upper [OF x] by (simp add: v_def e_def)
  show ?thesis
  proof (cases "ulp_exp v \<le> e")
    case True
    have p: "(2::rat) ^ nat (e - ulp_exp v) = 2 powi e / 2 powi ulp_exp v"
    proof -
      have "(2::rat) ^ nat (e - ulp_exp v) = 2 powi (e - ulp_exp v)"
        using True by (simp add: power_int_def)
      then show ?thesis by (simp only: powi_diff)
    qed
    have "v / 2 powi ulp_exp v = of_int m * (2 powi e / 2 powi ulp_exp v)"
      by (subst v) simp
    also have "\<dots> = of_int (m * 2 ^ nat (e - ulp_exp v))" by (simp add: p [symmetric])
    finally have "v / 2 powi ulp_exp v = of_int (m * 2 ^ nat (e - ulp_exp v))" .
    with v0 have "round_mag v = v" by (rule round_mag_exact)
    then show ?thesis by (simp add: v_def)
  next
    case False
    then have f: "e + 53 \<le> expo v" "ulp_exp v = expo v - 52"
      by (auto simp: ulp_exp_def e_def)
    have "(2::rat) powi expo v \<le> 2 powi (e + 53)"
      using expo_bounds(1) [OF v0] ub by linarith
    moreover have "(2::rat) powi (e + 53) \<le> 2 powi expo v" using f(1) by (rule powi_mono)
    ultimately have "v = 2 powi expo v" using expo_bounds(1) [OF v0] ub by linarith
    then have "v / 2 powi ulp_exp v = 2 powi expo v / 2 powi (expo v - 52)"
      using f(2) by simp
    then have "v / 2 powi ulp_exp v = of_int (2 ^ 52)"
      by (simp add: powi_diff [symmetric])
    with v0 have "round_mag v = v" by (rule round_mag_exact)
    then show ?thesis by (simp add: v_def)
  qed
qed

lemma round_rat_idem: "round_rat (round_rat x) = round_rat x"
proof (cases "x < 0")
  case True
  have "0 \<le> round_mag (- x)" using True by (intro round_mag_nonneg) simp
  then show ?thesis using True round_mag_idem [of "- x"]
    by (cases "round_mag (- x) = 0") (simp_all add: round_rat_def round_mag_def [of 0])
next
  case False
  then show ?thesis using round_mag_nonneg [of x] round_mag_idem [of x]
    by (simp add: round_rat_def)
qed

text \<open>\<open>representable r\<close>: \<open>r\<close> is a finite binary64 number.\<close>

definition representable :: "rat \<Rightarrow> bool" where
  "representable r \<longleftrightarrow> round_rat r = r \<and> \<bar>r\<bar> < max_mag"

lemma representable_round64: "representable r \<Longrightarrow> round64 r = Fin r"
  by (auto simp: representable_def round64_def Let_def abs_less_iff)

lemma round64_representable: "round64 x = Fin r \<Longrightarrow> representable r"
  by (auto simp: round64_def representable_def Let_def round_rat_idem abs_less_iff
      split: if_splits)

lemma round64_again: "round64 x = Fin r \<Longrightarrow> round64 r = Fin r"
  by (blast intro: representable_round64 round64_representable)

lemma round64_between:
  assumes "representable lo" "representable hi" "lo \<le> x" "x \<le> hi"
  obtains r where "round64 x = Fin r" "lo \<le> r" "r \<le> hi" "r = round_rat x"
proof -
  have "lo \<le> round_rat x" "round_rat x \<le> hi"
    using round_rat_mono [OF assms(3)] round_rat_mono [OF assms(4)] assms(1,2)
    by (auto simp: representable_def)
  moreover have "round64 x = Fin (round_rat x)"
    using calculation assms(1,2) by (auto simp: round64_def representable_def Let_def)
  ultimately show ?thesis using that by blast
qed

text \<open>The usual order on doubles and the set of values between two bounds.\<close>

definition d_in :: "rat \<Rightarrow> rat \<Rightarrow> double \<Rightarrow> bool" where
  "d_in lo hi d \<longleftrightarrow> (\<exists>r. d = Fin r \<and> lo \<le> r \<and> r \<le> hi)"

lemma d_inE: "d_in lo hi d \<Longrightarrow> (\<And>r. d = Fin r \<Longrightarrow> lo \<le> r \<Longrightarrow> r \<le> hi \<Longrightarrow> P) \<Longrightarrow> P"
  by (auto simp: d_in_def)

lemma d_in_eq: "d = Fin r \<Longrightarrow> lo \<le> r \<Longrightarrow> r \<le> hi \<Longrightarrow> d_in lo hi d"
  by (simp add: d_in_def)

lemma d_in_mono: "d_in lo hi d \<Longrightarrow> lo' \<le> lo \<Longrightarrow> hi \<le> hi' \<Longrightarrow> d_in lo' hi' d"
  by (auto simp: d_in_def)

lemma d_in_round64:
  "representable lo \<Longrightarrow> representable hi \<Longrightarrow> lo \<le> x \<Longrightarrow> x \<le> hi \<Longrightarrow> d_in lo hi (round64 x)"
  by (metis d_in_def round64_between)

lemma max_mag_pos [simp]: "0 < max_mag"
  by (simp add: max_mag_def)

lemma representable_0 [simp]: "representable 0"
  by (simp add: representable_def round_rat_def round_mag_def)

lemma round_mag_1 [simp]: "round_mag 1 = 1"
  by code_simp

lemma representable_1 [simp]: "representable 1"
  by (simp add: representable_def round_rat_def max_mag_def)

lemma round64_0 [simp]: "round64 0 = Fin 0"
  by (rule representable_round64) simp

lemma round64_1 [simp]: "round64 1 = Fin 1"
  by (rule representable_round64) simp

lemma lit_0 [simp]: "lit 0 = Fin 0"
  by (simp add: lit_def)

lemma lit_1 [simp]: "lit 1 = Fin 1"
  by (simp add: lit_def)

lemma d_in_add:
  assumes "d_in a1 a2 x" "d_in b1 b2 y"
    and "round64 (a1 + b1) = Fin lo" "round64 (a2 + b2) = Fin hi"
  shows "d_in lo hi (d_add x y)"
proof -
  obtain r s where rs: "x = Fin r" "y = Fin s" "a1 \<le> r" "r \<le> a2" "b1 \<le> s" "s \<le> b2"
    using assms(1,2) by (auto simp: d_in_def)
  have lo: "lo = round_rat (a1 + b1)" "- max_mag < lo" "lo < max_mag"
    and hi: "hi = round_rat (a2 + b2)" "- max_mag < hi" "hi < max_mag"
    using assms(3,4) by (auto simp: round64_def Let_def split: if_splits)
  have "lo \<le> round_rat (r + s)" "round_rat (r + s) \<le> hi"
    using rs lo hi by (auto intro!: round_rat_mono)
  then show ?thesis using rs lo hi by (auto simp: d_in_def round64_def Let_def)
qed

text \<open>A non-negative factor times a value of the unit interval.\<close>

lemma d_in_mul:
  assumes "d_in 0 a x" "d_in 0 b y" "round64 (a * b) = Fin hi"
  shows "d_in 0 hi (d_mul x y)"
proof -
  obtain r s where rs: "x = Fin r" "y = Fin s" "0 \<le> r" "r \<le> a" "0 \<le> s" "s \<le> b"
    using assms(1,2) by (auto simp: d_in_def)
  have hi: "hi = round_rat (a * b)" "- max_mag < hi" "hi < max_mag"
    using assms(3) by (auto simp: round64_def Let_def split: if_splits)
  have "0 \<le> r * s" "r * s \<le> a * b" using rs by (auto intro: mult_mono)
  then have "0 \<le> round_rat (r * s)" "round_rat (r * s) \<le> hi"
    using round_rat_mono [of 0 "r * s"] round_rat_mono [of "r * s" "a * b"] hi(1)
    by (auto simp: round_rat_def [of 0] round_mag_def [of 0])
  moreover have "- max_mag < 0" by simp
  ultimately show ?thesis using rs hi
    by (auto simp: d_in_def d_mul_def round64_def Let_def)
qed

lemma round64_mono: "x \<le> y \<Longrightarrow> d_le (round64 x) (round64 y)"
  using round_rat_mono [of x y] max_mag_pos
  by (auto simp: round64_def Let_def)

lemma d_add_mono:
  assumes "d_le (Fin a) (Fin b)" "d_le (Fin c) (Fin d)"
  shows "d_le (d_add (Fin a) (Fin c)) (d_add (Fin b) (Fin d))"
  using assms by (simp add: round64_mono)

lemma d_mul_mono:
  assumes "0 \<le> w" "d_le (Fin a) (Fin b)"
  shows "d_le (d_mul (Fin w) (Fin a)) (d_mul (Fin w) (Fin b))"
  using assms by (simp add: d_mul_def round64_mono mult_left_mono)

lemma weighted_in:
  assumes "lit w = Fin v" "0 \<le> v" "d_in 0 1 x"
  shows "d_in 0 v (d_mul (lit w) x)"
proof -
  have "round64 (v * 1) = Fin v" using assms(1) by (simp add: lit_def round64_again)
  then show ?thesis using assms by (intro d_in_mul [of v _ 1]) (simp_all add: d_in_def)
qed

lemma round64_00: "round64 (0 + 0) = Fin 0"
  by simp

section \<open>Order facts\<close>

lemma d_lt_irrefl [simp]: "\<not> d_lt a a"
  by (cases a) auto

lemma d_le_refl: "\<not> is_nan a \<Longrightarrow> d_le a a"
  by (cases a) auto

lemma d_lt_le: "d_lt a b \<Longrightarrow> d_le a b"
  by (cases a; cases b) auto

lemma d_not_lt: "\<not> is_nan a \<Longrightarrow> \<not> is_nan b \<Longrightarrow> \<not> d_lt a b \<longleftrightarrow> d_le b a"
  by (cases a; cases b) auto

lemma d_le_trans: "d_le a b \<Longrightarrow> d_le b c \<Longrightarrow> d_le a c"
  by (cases a; cases b; cases c) auto

lemma d_le_total: "\<not> is_nan a \<Longrightarrow> \<not> is_nan b \<Longrightarrow> d_le a b \<or> d_le b a"
  by (cases a; cases b) auto

lemma d_le_not_nan: "d_le a b \<Longrightarrow> \<not> is_nan a \<and> \<not> is_nan b"
  by (cases a; cases b) auto

end
