(* ===== verification/Json_Interface.thy ===== *)
theory Json_Interface
  imports Binary64
begin

text \<open>
  The C++ code handles JSON through \<open>nlohmann::json\<close>, a third-party package that is not in
  the repository.  It is a parameter of the model: a record of the operations the sources
  call, over an arbitrary type \<open>'j\<close> of JSON values.  An operation that throws returns None.

  \<open>json_laws\<close> collects the documented behaviour the proofs rely on; properties that need it
  take it as a hypothesis.  \<open>demo_json\<close> is a concrete instance, used by the witnesses only.
\<close>

record 'j json_lib =
  j_is_object :: "'j \<Rightarrow> bool"
  j_is_array :: "'j \<Rightarrow> bool"
  j_is_string :: "'j \<Rightarrow> bool"
  j_is_number :: "'j \<Rightarrow> bool"
  j_is_null :: "'j \<Rightarrow> bool"
  j_contains :: "'j \<Rightarrow> string \<Rightarrow> bool"
  j_at :: "'j \<Rightarrow> string \<Rightarrow> 'j option"
  j_get_string :: "'j \<Rightarrow> string option"
  j_get_double :: "'j \<Rightarrow> double option"
  j_get_long :: "'j \<Rightarrow> int option"
  j_get_int :: "'j \<Rightarrow> int option"
  j_elems :: "'j \<Rightarrow> 'j list"
  j_null :: 'j
  j_bool :: "bool \<Rightarrow> 'j"
  j_int :: "int \<Rightarrow> 'j"
  j_dbl :: "double \<Rightarrow> 'j"
  j_str :: "string \<Rightarrow> 'j"
  j_arr :: "'j list \<Rightarrow> 'j"
  j_obj :: "(string \<times> 'j) list \<Rightarrow> 'j"
  j_set :: "'j \<Rightarrow> string \<Rightarrow> 'j \<Rightarrow> 'j"
  j_parse :: "string \<Rightarrow> 'j option"
  j_dump :: "'j \<Rightarrow> string"
  j_dump2 :: "'j \<Rightarrow> string option"

text \<open>
  Documented behaviour of the package: \<open>at\<close> returns the member or throws, \<open>contains\<close> says
  whether it would return, an initializer list of distinct keys builds the object with these
  members, assigning through \<open>operator[]\<close> updates one member, and a value read back at the
  type it was stored with is unchanged.
\<close>

definition json_laws :: "'j json_lib \<Rightarrow> bool" where
  "json_laws J \<longleftrightarrow>
     (\<forall>kvs. j_is_object J (j_obj J kvs)) \<and>
     (\<forall>kvs k. distinct (map fst kvs) \<longrightarrow> j_at J (j_obj J kvs) k = map_of kvs k) \<and>
     (\<forall>j k. j_contains J j k = (j_at J j k \<noteq> None)) \<and>
     (\<forall>j k v. j_is_object J j \<longrightarrow> j_is_object J (j_set J j k v)) \<and>
     (\<forall>j k v k'. j_is_object J j \<longrightarrow>
        j_at J (j_set J j k v) k' = (if k' = k then Some v else j_at J j k')) \<and>
     (\<forall>s. j_is_string J (j_str J s) \<and> j_get_string J (j_str J s) = Some s) \<and>
     (\<forall>d. j_is_number J (j_dbl J d) \<and> j_get_double J (j_dbl J d) = Some d) \<and>
     (\<forall>n. long_range n \<longrightarrow> j_get_long J (j_int J n) = Some n) \<and>
     (\<forall>n. int_range n \<longrightarrow> j_get_int J (j_int J n) = Some n)"

lemma json_obj_object: "json_laws J \<Longrightarrow> j_is_object J (j_obj J kvs)"
  by (simp add: json_laws_def)

lemma json_at_obj:
  "json_laws J \<Longrightarrow> distinct (map fst kvs) \<Longrightarrow> j_at J (j_obj J kvs) k = map_of kvs k"
  by (simp add: json_laws_def)

lemma json_contains: "json_laws J \<Longrightarrow> j_contains J j k = (j_at J j k \<noteq> None)"
  by (simp add: json_laws_def)

lemma json_set_object: "json_laws J \<Longrightarrow> j_is_object J j \<Longrightarrow> j_is_object J (j_set J j k v)"
  by (simp add: json_laws_def)

lemma json_at_set:
  "json_laws J \<Longrightarrow> j_is_object J j \<Longrightarrow>
   j_at J (j_set J j k v) k' = (if k' = k then Some v else j_at J j k')"
  by (simp add: json_laws_def)

lemma json_string:
  "json_laws J \<Longrightarrow> j_is_string J (j_str J s)"
  "json_laws J \<Longrightarrow> j_get_string J (j_str J s) = Some s"
  by (simp_all add: json_laws_def)

lemma json_double:
  "json_laws J \<Longrightarrow> j_is_number J (j_dbl J d)"
  "json_laws J \<Longrightarrow> j_get_double J (j_dbl J d) = Some d"
  by (simp_all add: json_laws_def)

lemma json_long: "json_laws J \<Longrightarrow> long_range n \<Longrightarrow> j_get_long J (j_int J n) = Some n"
  by (simp add: json_laws_def)

lemma json_int: "json_laws J \<Longrightarrow> int_range n \<Longrightarrow> j_get_int J (j_int J n) = Some n"
  by (simp add: json_laws_def)

lemmas json_simps = json_obj_object json_at_obj json_contains json_set_object json_at_set
  json_string json_double json_long json_int

section \<open>Reading a member, as the sources spell it\<close>

text \<open>\<open>j.at(k).get<T>()\<close>: throws when the key is missing or the conversion fails.\<close>

definition at_get :: "'j json_lib \<Rightarrow> ('j json_lib \<Rightarrow> 'j \<Rightarrow> 'a option) \<Rightarrow> 'j \<Rightarrow> string \<Rightarrow> 'a option" where
  "at_get J get j k = Option.bind (j_at J j k) (get J)"

text \<open>\<open>if (j.contains(k) && j[k].is_number()) x = j[k].get<double>();\<close>\<close>

definition opt_number :: "'j json_lib \<Rightarrow> 'j \<Rightarrow> string \<Rightarrow> double \<Rightarrow> double option" where
  "opt_number J j k x = (case (if j_contains J j k then j_at J j k else None) of
     None \<Rightarrow> Some x
   | Some v \<Rightarrow> (if j_is_number J v then j_get_double J v else Some x))"

definition opt_string :: "'j json_lib \<Rightarrow> 'j \<Rightarrow> string \<Rightarrow> string \<Rightarrow> string option" where
  "opt_string J j k x = (case (if j_contains J j k then j_at J j k else None) of
     None \<Rightarrow> Some x
   | Some v \<Rightarrow> (if j_is_string J v then j_get_string J v else Some x))"

text \<open>\<open>j.value(k, d)\<close>: the default when the key is missing; throws when \<open>j\<close> is not an object or
  the member has another type.\<close>

definition value_or :: "'j json_lib \<Rightarrow> ('j json_lib \<Rightarrow> 'j \<Rightarrow> 'a option) \<Rightarrow> 'j \<Rightarrow> string \<Rightarrow> 'a \<Rightarrow> 'a option" where
  "value_or J get j k d = (if j_is_object J j
     then (case j_at J j k of None \<Rightarrow> Some d | Some v \<Rightarrow> get J v) else None)"

text \<open>\<open>j.dump()\<close> throws for the values \<open>j.dump(2)\<close> throws for, those with a text that is not
  UTF-8; otherwise it is one line.\<close>

definition dump_line :: "'j json_lib \<Rightarrow> 'j \<Rightarrow> string option" where
  "dump_line J j = (if j_dump2 J j = None then None else Some (j_dump J j))"

text \<open>\<open>if (!std::isnan(x)) j[k] = x;\<close> and \<open>if (!s.empty()) j[k] = s;\<close>\<close>

definition put_number :: "'j json_lib \<Rightarrow> string \<Rightarrow> double \<Rightarrow> 'j \<Rightarrow> 'j" where
  "put_number J k x j = (if is_nan x then j else j_set J j k (j_dbl J x))"

definition put_string :: "'j json_lib \<Rightarrow> string \<Rightarrow> string \<Rightarrow> 'j \<Rightarrow> 'j" where
  "put_string J k s j = (if s = [] then j else j_set J j k (j_str J s))"

lemma put_number_object: "json_laws J \<Longrightarrow> j_is_object J j \<Longrightarrow> j_is_object J (put_number J k x j)"
  by (simp add: put_number_def json_set_object)

lemma put_string_object: "json_laws J \<Longrightarrow> j_is_object J j \<Longrightarrow> j_is_object J (put_string J k s j)"
  by (simp add: put_string_def json_set_object)

lemma at_put_number:
  "json_laws J \<Longrightarrow> j_is_object J j \<Longrightarrow>
   j_at J (put_number J k x j) k' = (if k' = k \<and> \<not> is_nan x then Some (j_dbl J x) else j_at J j k')"
  by (auto simp: put_number_def json_at_set)

lemma at_put_string:
  "json_laws J \<Longrightarrow> j_is_object J j \<Longrightarrow>
   j_at J (put_string J k s j) k' = (if k' = k \<and> s \<noteq> [] then Some (j_str J s) else j_at J j k')"
  by (auto simp: put_string_def json_at_set)

lemmas json_put_simps = put_number_object put_string_object at_put_number at_put_string

section \<open>A concrete instance for the witnesses\<close>

datatype demo =
  DNull | DBool bool | DInt int | DDbl double | DStr string | DArr "demo list"
| DObj "(string \<times> demo) list"

fun demo_is_object :: "demo \<Rightarrow> bool" where
  "demo_is_object (DObj _) = True" | "demo_is_object _ = False"

fun demo_at :: "demo \<Rightarrow> string \<Rightarrow> demo option" where
  "demo_at (DObj kvs) k = map_of kvs k" | "demo_at _ _ = None"

fun demo_set :: "demo \<Rightarrow> string \<Rightarrow> demo \<Rightarrow> demo" where
  "demo_set (DObj kvs) k v = DObj ((k, v) # kvs)" | "demo_set j _ _ = j"

text \<open>Enough of an indented dump to tell objects apart; a byte above 127 makes it throw.\<close>

fun demo_dump :: "demo \<Rightarrow> string option" where
  "demo_dump (DStr s) = (if list_all (\<lambda>c. (of_char c :: nat) < 128) s then Some s else None)"
| "demo_dump (DObj []) = Some ''{}''"
| "demo_dump (DObj ((k, v) # kvs)) =
     Option.bind (demo_dump v) (\<lambda>t. Option.bind (demo_dump (DObj kvs)) (\<lambda>u. Some (k @ t @ u)))"
| "demo_dump _ = Some ''0''"

definition demo_json :: "demo json_lib" where
  "demo_json = \<lparr>
     j_is_object = demo_is_object,
     j_is_array = (\<lambda>j. case j of DArr _ \<Rightarrow> True | _ \<Rightarrow> False),
     j_is_string = (\<lambda>j. case j of DStr _ \<Rightarrow> True | _ \<Rightarrow> False),
     j_is_number = (\<lambda>j. case j of DInt _ \<Rightarrow> True | DDbl _ \<Rightarrow> True | _ \<Rightarrow> False),
     j_is_null = (\<lambda>j. j = DNull),
     j_contains = (\<lambda>j k. demo_at j k \<noteq> None),
     j_at = demo_at,
     j_get_string = (\<lambda>j. case j of DStr s \<Rightarrow> Some s | _ \<Rightarrow> None),
     j_get_double = (\<lambda>j. case j of DDbl d \<Rightarrow> Some d | DInt n \<Rightarrow> Some (of_long n) | _ \<Rightarrow> None),
     j_get_long = (\<lambda>j. case j of DInt n \<Rightarrow> Some n | _ \<Rightarrow> None),
     j_get_int = (\<lambda>j. case j of DInt n \<Rightarrow> Some n | _ \<Rightarrow> None),
     j_elems = (\<lambda>j. case j of DArr xs \<Rightarrow> xs | DObj kvs \<Rightarrow> map snd kvs | _ \<Rightarrow> []),
     j_null = DNull, j_bool = DBool, j_int = DInt, j_dbl = DDbl, j_str = DStr,
     j_arr = DArr, j_obj = DObj, j_set = demo_set,
     j_parse = (\<lambda>s. if s = ''{}'' then Some (DObj []) else if s = ''[]'' then Some (DArr []) else None),
     j_dump = (\<lambda>j. ''{}''),
     j_dump2 = demo_dump\<rparr>"

lemma demo_set_object: "demo_is_object j \<Longrightarrow> demo_is_object (demo_set j k v)"
  by (cases j) auto

lemma demo_at_set:
  "demo_is_object j \<Longrightarrow> demo_at (demo_set j k v) k' = (if k' = k then Some v else demo_at j k')"
  by (cases j) auto

text \<open>The laws do not speak of parsing: an instance may read texts in its own way.\<close>

lemma json_laws_parse [simp]: "json_laws (J\<lparr>j_parse := p\<rparr>) = json_laws J"
  by (simp add: json_laws_def)

lemma demo_json_laws [simp]: "json_laws demo_json"
  by (simp add: json_laws_def demo_json_def demo_set_object demo_at_set)

end
