(* ===== verification/Packet.thy ===== *)
theory Packet
  imports Json_Interface "HOL-Library.Monad_Syntax"
begin

text \<open>
  \<open>common/models/WeatherPacket.hpp\<close>: the sensor message, its JSON reader and writer.
  The reader throws (None) when a required member is missing or has the wrong type; an
  optional member of the wrong type is skipped and keeps its default.
\<close>

record weather_packet =
  continent :: string
  country :: string
  region :: string
  city :: string
  temperature :: double
  humidity :: double
  wind_speed :: double
  timestamp :: int
  latitude :: double
  longitude :: double
  visibility_km :: double
  precipitation_mm :: double
  pressure_hpa :: double
  cloud_cover_percent :: double
  station_id :: string
  ingest_layer :: string
  sample_point :: string

text \<open>The eight initialised members, the default member initialisers for the rest.\<close>

definition packet_init ::
  "string \<Rightarrow> string \<Rightarrow> string \<Rightarrow> string \<Rightarrow> double \<Rightarrow> double \<Rightarrow> double \<Rightarrow> int \<Rightarrow> weather_packet" where
  "packet_init co cu re ci te hu wi ts = \<lparr>
     continent = co, country = cu, region = re, city = ci,
     temperature = te, humidity = hu, wind_speed = wi, timestamp = ts,
     latitude = NaN, longitude = NaN, visibility_km = NaN, precipitation_mm = NaN,
     pressure_hpa = NaN, cloud_cover_percent = NaN,
     station_id = [], ingest_layer = [], sample_point = []\<rparr>"

definition weather_packet_from_json :: "'j json_lib \<Rightarrow> 'j \<Rightarrow> weather_packet option" where
  "weather_packet_from_json J j = do {
     co \<leftarrow> at_get J j_get_string j ''continent'';
     cu \<leftarrow> at_get J j_get_string j ''country'';
     re \<leftarrow> at_get J j_get_string j ''region'';
     ci \<leftarrow> at_get J j_get_string j ''city'';
     te \<leftarrow> at_get J j_get_double j ''temperature'';
     hu \<leftarrow> at_get J j_get_double j ''humidity'';
     wi \<leftarrow> at_get J j_get_double j ''wind_speed'';
     ts \<leftarrow> at_get J j_get_long j ''timestamp'';
     let p = packet_init co cu re ci te hu wi ts;
     la \<leftarrow> opt_number J j ''latitude'' (latitude p);
     lo \<leftarrow> opt_number J j ''longitude'' (longitude p);
     vi \<leftarrow> opt_number J j ''visibility_km'' (visibility_km p);
     pc \<leftarrow> opt_number J j ''precipitation_mm'' (precipitation_mm p);
     pr \<leftarrow> opt_number J j ''pressure_hpa'' (pressure_hpa p);
     cl \<leftarrow> opt_number J j ''cloud_cover_percent'' (cloud_cover_percent p);
     st \<leftarrow> opt_string J j ''station_id'' (station_id p);
     il \<leftarrow> opt_string J j ''ingest_layer'' (ingest_layer p);
     sp \<leftarrow> opt_string J j ''sample_point'' (sample_point p);
     Some (p\<lparr>latitude := la, longitude := lo, visibility_km := vi, precipitation_mm := pc,
       pressure_hpa := pr, cloud_cover_percent := cl, station_id := st, ingest_layer := il,
       sample_point := sp\<rparr>)
   }"

definition packet_to_json :: "'j json_lib \<Rightarrow> weather_packet \<Rightarrow> 'j" where
  "packet_to_json J p =
     put_string J ''sample_point'' (sample_point p) (
     put_string J ''ingest_layer'' (ingest_layer p) (
     put_string J ''station_id'' (station_id p) (
     put_number J ''cloud_cover_percent'' (cloud_cover_percent p) (
     put_number J ''pressure_hpa'' (pressure_hpa p) (
     put_number J ''precipitation_mm'' (precipitation_mm p) (
     put_number J ''visibility_km'' (visibility_km p) (
     put_number J ''longitude'' (longitude p) (
     put_number J ''latitude'' (latitude p) (
     j_obj J [(''continent'', j_str J (continent p)),
              (''country'', j_str J (country p)),
              (''region'', j_str J (region p)),
              (''city'', j_str J (city p)),
              (''temperature'', j_dbl J (temperature p)),
              (''humidity'', j_dbl J (humidity p)),
              (''wind_speed'', j_dbl J (wind_speed p)),
              (''timestamp'', j_int J (timestamp p))])))))))))"

lemma packet_to_json_object: "json_laws J \<Longrightarrow> j_is_object J (packet_to_json J p)"
  by (simp add: packet_to_json_def json_put_simps json_simps)

lemma opt_number_put:
  assumes "json_laws J" and "j_at J j k = (if is_nan x then None else Some (j_dbl J x))"
  shows "opt_number J j k NaN = Some x"
  using assms by (cases x) (auto simp: opt_number_def json_simps)

lemma opt_string_put:
  assumes "json_laws J" and "j_at J j k = (if s = [] then None else Some (j_str J s))"
  shows "opt_string J j k [] = Some s"
  using assms by (auto simp: opt_string_def json_simps)

text \<open>Every member of the written object reads back as what was written.\<close>

lemma packet_members:
  assumes "json_laws J"
  shows "at_get J j_get_string (packet_to_json J p) ''continent'' = Some (continent p)"
    and "at_get J j_get_string (packet_to_json J p) ''country'' = Some (country p)"
    and "at_get J j_get_string (packet_to_json J p) ''region'' = Some (region p)"
    and "at_get J j_get_string (packet_to_json J p) ''city'' = Some (city p)"
    and "at_get J j_get_double (packet_to_json J p) ''temperature'' = Some (temperature p)"
    and "at_get J j_get_double (packet_to_json J p) ''humidity'' = Some (humidity p)"
    and "at_get J j_get_double (packet_to_json J p) ''wind_speed'' = Some (wind_speed p)"
    and "long_range (timestamp p) \<Longrightarrow>
      at_get J j_get_long (packet_to_json J p) ''timestamp'' = Some (timestamp p)"
  using assms by (simp_all add: at_get_def packet_to_json_def json_put_simps json_simps)

lemma packet_optional_members:
  assumes "json_laws J"
  shows "opt_number J (packet_to_json J p) ''latitude'' NaN = Some (latitude p)"
    and "opt_number J (packet_to_json J p) ''longitude'' NaN = Some (longitude p)"
    and "opt_number J (packet_to_json J p) ''visibility_km'' NaN = Some (visibility_km p)"
    and "opt_number J (packet_to_json J p) ''precipitation_mm'' NaN = Some (precipitation_mm p)"
    and "opt_number J (packet_to_json J p) ''pressure_hpa'' NaN = Some (pressure_hpa p)"
    and "opt_number J (packet_to_json J p) ''cloud_cover_percent'' NaN = Some (cloud_cover_percent p)"
    and "opt_string J (packet_to_json J p) ''station_id'' [] = Some (station_id p)"
    and "opt_string J (packet_to_json J p) ''ingest_layer'' [] = Some (ingest_layer p)"
    and "opt_string J (packet_to_json J p) ''sample_point'' [] = Some (sample_point p)"
  using assms
  by (auto intro!: opt_number_put opt_string_put
      simp: packet_to_json_def json_put_simps json_simps)

lemma packet_read_back:
  assumes "json_laws J" and "long_range (timestamp p)"
  shows "weather_packet_from_json J (packet_to_json J p) = Some p"
  using assms
  by (simp add: weather_packet_from_json_def packet_members packet_init_def Let_def
      packet_optional_members)

text \<open>
  C1: a packet written with \<open>to_json\<close> and read with \<open>weather_packet_from_json\<close> comes back
  unchanged, every optional field included (an absent measurement stays NaN, an absent label
  stays empty), for every packet whose timestamp is a 64-bit \<open>long\<close>.
\<close>

theorem packet_roundtrip:
  assumes "json_laws J" and "long_range (timestamp p)"
  shows "weather_packet_from_json J (packet_to_json J p) = Some p"
  using assms by (rule packet_read_back)

theorem packet_roundtrip_witness:
  "weather_packet_from_json demo_json (packet_to_json demo_json
     ((packet_init ''Asia'' ''India'' ''south_india'' ''Kochi'' (Fin 30) (Fin 70) (Fin 5) 60001)
       \<lparr>latitude := Fin 10, station_id := ''st1''\<rparr>))
   = Some ((packet_init ''Asia'' ''India'' ''south_india'' ''Kochi'' (Fin 30) (Fin 70) (Fin 5) 60001)
       \<lparr>latitude := Fin 10, station_id := ''st1''\<rparr>)"
  by (rule packet_roundtrip)
     (simp_all add: packet_init_def long_range_def long_min_def long_max_def)

text \<open>The reader fails exactly as the C++ one throws: a missing required member is an error.\<close>

lemma packet_missing_member:
  assumes "k \<in> {''continent'', ''country'', ''region'', ''city'', ''temperature'', ''humidity'',
    ''wind_speed'', ''timestamp''}" and "j_at J j k = None"
  shows "weather_packet_from_json J j = None"
  using assms by (auto simp: weather_packet_from_json_def at_get_def bind_eq_None_conv)

end
