(* ===== verification/Envelope.thy ===== *)
theory Envelope
  imports Packet
begin

text \<open>
  \<open>common/protocol/MessageEnvelope.hpp\<close> and \<open>MessageTypes.hpp\<close>: the message wrapper, its
  identifiers and its JSON form.  The static sequence counter of \<open>generate_message_id\<close> is
  passed explicitly (an unsigned 64-bit counter that wraps); the clock readings are arguments.
\<close>

definition mt_weather_packet :: string where "mt_weather_packet = ''weather.packet''"
definition mt_canonical_envelope :: string where
  "mt_canonical_envelope = ''canonical.message.envelope''"
definition mt_map_tile_hazard :: string where "mt_map_tile_hazard = ''map.tile.hazard''"
definition mt_map_route_risk :: string where "mt_map_route_risk = ''map.route.risk''"

record 'j envelope =
  schema_version :: int
  message_id :: string
  source :: string
  route :: string
  message_type :: string
  created_at :: int
  payload :: 'j

text \<open>Returns the identifier and the counter after \<open>fetch_add(1)\<close>.\<close>

definition generate_message_id :: "string \<Rightarrow> int \<Rightarrow> u64 \<Rightarrow> string \<times> u64" where
  "generate_message_id src now seq =
     (src @ ''-'' @ to_string now @ ''-'' @ to_string (uint seq), seq + 1)"

definition make_weather_packet_envelope ::
  "'j json_lib \<Rightarrow> weather_packet \<Rightarrow> string \<Rightarrow> string \<Rightarrow> int \<Rightarrow> int \<Rightarrow> u64 \<Rightarrow> 'j envelope \<times> u64" where
  "make_weather_packet_envelope J p src rt now1 now2 seq =
     (let (mid, seq') = generate_message_id src now1 seq in
      (\<lparr>schema_version = 1, message_id = mid, source = src, route = rt,
        message_type = mt_weather_packet, created_at = now2, payload = packet_to_json J p\<rparr>, seq'))"

definition envelope_to_json :: "'j json_lib \<Rightarrow> 'j envelope \<Rightarrow> 'j" where
  "envelope_to_json J e = j_obj J
     [(''schema_version'', j_int J (schema_version e)),
      (''message_id'', j_str J (message_id e)),
      (''source'', j_str J (source e)),
      (''route'', j_str J (route e)),
      (''message_type'', j_str J (message_type e)),
      (''created_at'', j_int J (created_at e)),
      (''payload'', payload e)]"

definition envelope_from_json :: "'j json_lib \<Rightarrow> 'j \<Rightarrow> 'j envelope option" where
  "envelope_from_json J j = do {
     sv \<leftarrow> at_get J j_get_int j ''schema_version'';
     mi \<leftarrow> at_get J j_get_string j ''message_id'';
     so \<leftarrow> at_get J j_get_string j ''source'';
     ro \<leftarrow> at_get J j_get_string j ''route'';
     mt \<leftarrow> at_get J j_get_string j ''message_type'';
     ca \<leftarrow> at_get J j_get_long j ''created_at'';
     pl \<leftarrow> j_at J j ''payload'';
     Some \<lparr>schema_version = sv, message_id = mi, source = so, route = ro, message_type = mt,
       created_at = ca, payload = pl\<rparr>
   }"

definition is_weather_packet_envelope :: "'j json_lib \<Rightarrow> 'j envelope \<Rightarrow> bool" where
  "is_weather_packet_envelope J e \<longleftrightarrow>
     schema_version e = 1 \<and> message_type e = mt_weather_packet \<and> j_is_object J (payload e)"

text \<open>Any exception of the packet reader becomes \<open>std::nullopt\<close>.\<close>

definition weather_packet_from_envelope :: "'j json_lib \<Rightarrow> 'j envelope \<Rightarrow> weather_packet option" where
  "weather_packet_from_envelope J e =
     (if \<not> is_weather_packet_envelope J e then None else weather_packet_from_json J (payload e))"

lemma envelope_read_back:
  assumes "json_laws J" and "int_range (schema_version e)" and "long_range (created_at e)"
  shows "envelope_from_json J (envelope_to_json J e) = Some e"
  using assms
  by (simp add: envelope_from_json_def envelope_to_json_def at_get_def json_simps)

text \<open>
  C2: an envelope written with \<open>envelope_to_json\<close> and read with \<open>envelope_from_json\<close> comes
  back unchanged, whatever its payload, when its version is an \<open>int\<close> and its creation time
  a \<open>long\<close>.
\<close>

theorem envelope_roundtrip:
  assumes "json_laws J" and "int_range (schema_version e)" and "long_range (created_at e)"
  shows "envelope_from_json J (envelope_to_json J e) = Some e"
  using assms by (rule envelope_read_back)

definition demo_envelope :: "demo envelope" where
  "demo_envelope = fst (make_weather_packet_envelope demo_json
     (packet_init ''Asia'' ''India'' ''south_india'' ''Kochi'' (Fin 30) (Fin 70) (Fin 5) 60001)
     ''sim'' ''r1'' 5 6 0)"

theorem envelope_roundtrip_witness:
  "envelope_from_json demo_json (envelope_to_json demo_json demo_envelope) = Some demo_envelope"
  by (rule envelope_roundtrip)
     (simp_all add: demo_envelope_def make_weather_packet_envelope_def Let_def
       generate_message_id_def int_range_def long_range_def long_min_def long_max_def)

text \<open>
  C3: the whole producer-to-consumer path.  The envelope made for a packet survives
  serialisation of the envelope, is recognised as a weather envelope and yields the packet.
\<close>

theorem produced_envelope_delivers_packet:
  assumes "json_laws J" and "long_range (timestamp p)" and "long_range now2"
    and "make_weather_packet_envelope J p src rt now1 now2 seq = (e, seq')"
  shows "Option.bind (envelope_from_json J (envelope_to_json J e)) (weather_packet_from_envelope J)
    = Some p"
proof -
  have e: "schema_version e = 1" "message_type e = mt_weather_packet" "created_at e = now2"
    "payload e = packet_to_json J p"
    using assms(4) by (auto simp: make_weather_packet_envelope_def generate_message_id_def Let_def)
  have "envelope_from_json J (envelope_to_json J e) = Some e"
    using assms(1,3) e by (intro envelope_read_back) (simp_all add: int_range_def)
  moreover have "weather_packet_from_json J (packet_to_json J p) = Some p"
    using assms(1,2) by (rule packet_read_back)
  ultimately show ?thesis
    using assms(1) e
    by (simp add: weather_packet_from_envelope_def is_weather_packet_envelope_def
        packet_to_json_object)
qed

theorem produced_envelope_delivers_packet_witness:
  "Option.bind (envelope_from_json demo_json (envelope_to_json demo_json demo_envelope))
     (weather_packet_from_envelope demo_json)
   = Some (packet_init ''Asia'' ''India'' ''south_india'' ''Kochi'' (Fin 30) (Fin 70) (Fin 5) 60001)"
  by (rule produced_envelope_delivers_packet
        [where src = "''sim''" and rt = "''r1''" and ?now1.0 = 5 and ?now2.0 = 6 and seq = 0
           and seq' = 1])
     (simp_all add: demo_envelope_def make_weather_packet_envelope_def Let_def packet_init_def
       generate_message_id_def long_range_def long_min_def long_max_def)

section \<open>Identifiers\<close>

lemma dash_not_digit: "\<not> is_digit CHR ''-''"
  by (simp add: is_digit_def)

text \<open>The digits after the last dash determine the counter value.\<close>

lemma to_string_uint: "to_string (uint w) = digits_of (unat w)"
  by (simp add: to_string_def)

lemma suffix_digits_unique:
  assumes "a @ CHR ''-'' # digits_of m = b @ CHR ''-'' # digits_of n"
  shows "m = n"
proof -
  have *: "takeWhile is_digit (rev (x @ CHR ''-'' # digits_of k)) = rev (digits_of k)" for x k
  proof -
    have "list_all is_digit (rev (digits_of k))"
      using digits_of_digits [of k] by (simp add: list_all_iff)
    then show ?thesis by (simp add: takeWhile_append_stop dash_not_digit)
  qed
  have "rev (digits_of m) = rev (digits_of n)"
    using * [of a m] * [of b n] assms by simp
  then show ?thesis by (auto dest: digits_of_inj)
qed

lemma generated_id_counter:
  assumes "fst (generate_message_id s1 t1 seq1) = fst (generate_message_id s2 t2 seq2)"
  shows "seq1 = seq2"
proof -
  have "(s1 @ ''-'' @ to_string t1) @ CHR ''-'' # digits_of (unat seq1)
      = (s2 @ ''-'' @ to_string t2) @ CHR ''-'' # digits_of (unat seq2)"
    using assms by (simp add: generate_message_id_def to_string_uint)
  then have "unat seq1 = unat seq2" by (rule suffix_digits_unique)
  then show ?thesis by (simp add: word_unat_eq_iff)
qed

text \<open>
  Identifiers generated by one process are pairwise different.  Two calls that read
  different values of the shared counter return different identifiers, whatever the sources
  and the clock readings are; so the first \<open>2 ^ 64\<close> calls of a process never collide.
\<close>

lemma message_ids_distinct:
  assumes "seq1 \<noteq> seq2"
  shows "fst (generate_message_id s1 t1 seq1) \<noteq> fst (generate_message_id s2 t2 seq2)"
  using assms generated_id_counter by blast

lemma message_ids_distinct_witness:
  "fst (generate_message_id ''a-1'' 7 2) \<noteq> fst (generate_message_id ''a'' 17 3)"
  by (rule message_ids_distinct) simp

end
