(* ===== verification/Std_Map.thy ===== *)
theory Std_Map
  imports Prelude
begin

text \<open>
  \<open>std::map\<close>: an association list sorted by key, without duplicate keys.  Iteration runs in
  key order.  Keys are strings (compared bytewise) or tuples of integers and strings (compared
  lexicographically), as the C++ \<open>operator<\<close> of \<open>std::string\<close> and \<open>std::tuple\<close> does.

  The locale states the laws clients use and proves the two client loops of the code once:
  grouping the elements of a list by key, and folding an accumulator per key.
\<close>

type_synonym ('k, 'v) smap = "('k \<times> 'v) list"

section \<open>The operations\<close>

definition smap_inv :: "('k::linorder, 'v) smap \<Rightarrow> bool" where
  "smap_inv m \<longleftrightarrow> sorted_wrt (<) (map fst m)"

definition smap_lookup :: "('k, 'v) smap \<Rightarrow> 'k \<Rightarrow> 'v option" where
  "smap_lookup m k = map_of m k"

fun smap_update :: "'k::linorder \<Rightarrow> 'v \<Rightarrow> ('k, 'v) smap \<Rightarrow> ('k, 'v) smap" where
  "smap_update k v [] = [(k, v)]"
| "smap_update k v ((k', v') # m) =
     (if k < k' then (k, v) # (k', v') # m
      else if k = k' then (k, v) # m
      else (k', v') # smap_update k v m)"

text \<open>\<open>m[k] = f(m[k])\<close>: \<open>operator[]\<close> default-constructs a missing value.\<close>

definition smap_modify :: "'v \<Rightarrow> 'k::linorder \<Rightarrow> ('v \<Rightarrow> 'v) \<Rightarrow> ('k, 'v) smap \<Rightarrow> ('k, 'v) smap" where
  "smap_modify dflt k f m =
     smap_update k (f (case smap_lookup m k of None \<Rightarrow> dflt | Some v \<Rightarrow> v)) m"

section \<open>The interface\<close>

locale ordered_map =
  fixes lookup :: "'m \<Rightarrow> 'k::linorder \<Rightarrow> 'v option"
    and update :: "'k \<Rightarrow> 'v \<Rightarrow> 'm \<Rightarrow> 'm"
    and empty :: 'm
    and entries :: "'m \<Rightarrow> ('k \<times> 'v) list"
    and wf :: "'m \<Rightarrow> bool"
  assumes lookup_empty: "lookup empty k = None"
    and wf_empty: "wf empty"
    and lookup_update: "wf m \<Longrightarrow> lookup (update k v m) k' = (if k' = k then Some v else lookup m k')"
    and wf_update: "wf m \<Longrightarrow> wf (update k v m)"
    and lookup_entries: "wf m \<Longrightarrow> lookup m k = map_of (entries m) k"
    and sorted_entries: "wf m \<Longrightarrow> sorted_wrt (<) (map fst (entries m))"
begin

definition modify :: "'v \<Rightarrow> 'k \<Rightarrow> ('v \<Rightarrow> 'v) \<Rightarrow> 'm \<Rightarrow> 'm" where
  "modify dflt k f m = update k (f (case lookup m k of None \<Rightarrow> dflt | Some v \<Rightarrow> v)) m"

text \<open>The loop \<open>for (x : xs) m[key(x)] = step(x, m[key(x)])\<close>.\<close>

primrec accumulate :: "('a \<Rightarrow> 'k) \<Rightarrow> ('a \<Rightarrow> 'v \<Rightarrow> 'v) \<Rightarrow> 'v \<Rightarrow> 'a list \<Rightarrow> 'm \<Rightarrow> 'm" where
  "accumulate key step dflt [] m = m"
| "accumulate key step dflt (x # xs) m =
     accumulate key step dflt xs (modify dflt (key x) (step x) m)"

lemma wf_modify: "wf m \<Longrightarrow> wf (modify dflt k f m)"
  by (simp add: modify_def wf_update)

lemma lookup_modify:
  "wf m \<Longrightarrow> lookup (modify dflt k f m) k'
    = (if k' = k then Some (f (case lookup m k of None \<Rightarrow> dflt | Some v \<Rightarrow> v)) else lookup m k')"
  by (simp add: modify_def lookup_update)

lemma wf_accumulate: "wf m \<Longrightarrow> wf (accumulate key step dflt xs m)"
  by (induction xs arbitrary: m) (simp_all add: wf_modify)

lemma accumulate_lookup:
  assumes "wf m"
  shows "lookup (accumulate key step dflt xs m) k
    = (if filter (\<lambda>x. key x = k) xs = [] then lookup m k
       else Some (fold step (filter (\<lambda>x. key x = k) xs)
              (case lookup m k of None \<Rightarrow> dflt | Some v \<Rightarrow> v)))"
  using assms
proof (induction xs arbitrary: m)
  case (Cons x xs)
  show ?case using Cons.IH [OF wf_modify [OF Cons.prems]] Cons.prems
    by (auto simp: lookup_modify)
qed simp

text \<open>The entries after the loop: one per key that occurs, in key order, each folded over its group.\<close>

lemma distinct_entries: "wf m \<Longrightarrow> distinct (map fst (entries m))"
  using sorted_entries [of m] by (simp add: strict_sorted_iff)

lemma accumulate_entries:
  "map fst (entries (accumulate key step dflt xs empty)) = sorted_list_of_set (key ` set xs)"
  "(k, v) \<in> set (entries (accumulate key step dflt xs empty)) \<Longrightarrow>
     v = fold step (filter (\<lambda>x. key x = k) xs) dflt \<and> (\<exists>x\<in>set xs. key x = k)"
proof -
  let ?m = "accumulate key step dflt xs empty"
  have wf: "wf ?m" by (rule wf_accumulate [OF wf_empty])
  have l: "map_of (entries ?m) k = (if filter (\<lambda>x. key x = k) xs = [] then None
      else Some (fold step (filter (\<lambda>x. key x = k) xs) dflt))" for k
    using accumulate_lookup [OF wf_empty, of key step dflt xs k]
    by (simp add: lookup_entries [OF wf, symmetric] lookup_empty)
  have "fst ` set (entries ?m) = key ` set xs"
  proof (rule set_eqI)
    fix k
    have "k \<in> fst ` set (entries ?m) \<longleftrightarrow> map_of (entries ?m) k \<noteq> None"
      by (simp add: map_of_eq_None_iff)
    then show "k \<in> fst ` set (entries ?m) \<longleftrightarrow> k \<in> key ` set xs"
      by (auto simp: l filter_empty_conv)
  qed
  then show "map fst (entries ?m) = sorted_list_of_set (key ` set xs)"
    using sorted_entries [OF wf] by (metis list.set_map sorted_list_of_set.idem_if_sorted_distinct strict_sorted_iff)
  assume "(k, v) \<in> set (entries ?m)"
  then have "map_of (entries ?m) k = Some v" using distinct_entries [OF wf] by simp
  then show "v = fold step (filter (\<lambda>x. key x = k) xs) dflt \<and> (\<exists>x\<in>set xs. key x = k)"
    by (auto simp: l filter_empty_conv split: if_splits)
qed

end

section \<open>The sorted list provides the interface\<close>

lemma smap_update_keys: "fst ` set (smap_update k v m) = insert k (fst ` set m)"
  by (induction k v m rule: smap_update.induct) auto

lemma smap_update_sorted: "smap_inv m \<Longrightarrow> smap_inv (smap_update k v m)"
proof (induction k v m rule: smap_update.induct)
  case (2 k v k' v' m)
  then show ?case using smap_update_keys [of k v m]
    by (auto simp: smap_inv_def)
qed (simp add: smap_inv_def)

lemma smap_lookup_update:
  "smap_inv m \<Longrightarrow> smap_lookup (smap_update k v m) k' = (if k' = k then Some v else smap_lookup m k')"
  by (induction k v m rule: smap_update.induct) (auto simp: smap_inv_def smap_lookup_def)

interpretation smap: ordered_map smap_lookup smap_update "[]" "\<lambda>m. m" smap_inv
  by unfold_locales
    (simp_all add: smap_lookup_def smap_inv_def smap_update_sorted [unfolded smap_inv_def]
      smap_lookup_update [unfolded smap_lookup_def smap_inv_def])

lemma smap_modify_is: "smap.modify = smap_modify"
  by (intro ext) (simp add: smap.modify_def smap_modify_def)

text \<open>The same loop over the model's map.\<close>

primrec smap_accumulate ::
  "('a \<Rightarrow> 'k::linorder) \<Rightarrow> ('a \<Rightarrow> 'v \<Rightarrow> 'v) \<Rightarrow> 'v \<Rightarrow> 'a list \<Rightarrow> ('k, 'v) smap \<Rightarrow> ('k, 'v) smap" where
  "smap_accumulate key step dflt [] m = m"
| "smap_accumulate key step dflt (x # xs) m =
     smap_accumulate key step dflt xs (smap_modify dflt (key x) (step x) m)"

lemma smap_accumulate_is: "smap.accumulate key step dflt xs m = smap_accumulate key step dflt xs m"
  by (induction xs arbitrary: m) (simp_all add: smap_modify_is)

lemmas smap_accumulate_keys = smap.accumulate_entries(1) [unfolded smap_accumulate_is]
lemmas smap_accumulate_group = smap.accumulate_entries(2) [unfolded smap_accumulate_is]

text \<open>Folding \<open>push_back\<close> rebuilds the group in input order.\<close>

lemma fold_push_back: "fold (\<lambda>x acc. acc @ [x]) xs ys = ys @ xs"
  by (induction xs arbitrary: ys) simp_all

lemma fold_count: "fold (\<lambda>x n. n + 1) xs n = n + length xs" for n :: nat
  by (induction xs arbitrary: n) simp_all

text \<open>Total of the values, for the loops that sum over the map.\<close>

lemma smap_update_insort:
  "smap_inv m \<Longrightarrow> smap_lookup m k = None \<Longrightarrow> mset (smap_update k v m) = add_mset (k, v) (mset m)"
  by (induction k v m rule: smap_update.induct) (auto simp: smap_inv_def smap_lookup_def)

end
