(* ===== verification/Number_Format.thy ===== *)
theory Number_Format
  imports Binary64
begin

text \<open>
  Decimal output of doubles as the standard library does it: the default stream format of
  \<open>operator<<\<close> (printf \<open>%g\<close> with six significant digits), \<open>std::to_string\<close> (\<open>%f\<close>, six
  decimals) and \<open>std::fixed << std::setprecision(p)\<close>.  The value is rounded exactly, ties to
  even.  The binary64 model has one zero and one NaN, so the sign of a zero or of a NaN is not
  printed.
\<close>

definition zero_pad :: "nat \<Rightarrow> string \<Rightarrow> string" where
  "zero_pad w s = replicate (w - length s) CHR ''0'' @ s"

definition pow10 :: "int \<Rightarrow> rat" where
  "pow10 e = (if 0 \<le> e then 10 ^ nat e else 1 / 10 ^ nat (- e))"

text \<open>The decimal exponent: \<open>10 ^ e \<le> q < 10 ^ (e + 1)\<close>.\<close>

definition dec_expo :: "rat \<Rightarrow> int" where
  "dec_expo q = (let (a, b) = quotient_of q;
       k = int (length (digits_int a)) - int (length (digits_int b))
     in if pow10 k \<le> q then k else k - 1)"

text \<open>\<open>n / 10 ^ p\<close> in positional notation.\<close>

definition positional :: "nat \<Rightarrow> int \<Rightarrow> string" where
  "positional p n = digits_int (n div 10 ^ p)
     @ (if p = 0 then [] else CHR ''.'' # zero_pad p (digits_int (n mod 10 ^ p)))"

definition strip_zeros :: "string \<Rightarrow> string" where
  "strip_zeros s = (if CHR ''.'' \<in> set s then
       (let t = dropWhile (\<lambda>c. c = CHR ''0'') (rev s)
        in rev (if t \<noteq> [] \<and> hd t = CHR ''.'' then tl t else t))
     else s)"

definition sign_text :: "rat \<Rightarrow> string" where
  "sign_text q = (if q < 0 then ''-'' else [])"

definition fmt_fixed :: "nat \<Rightarrow> double \<Rightarrow> string" where
  "fmt_fixed p x = (case x of
      NaN \<Rightarrow> ''nan'' | PInf \<Rightarrow> ''inf'' | NInf \<Rightarrow> ''-inf''
    | Fin q \<Rightarrow> sign_text q @ positional p (round_even (\<bar>q\<bar> * 10 ^ p)))"

definition general_digits :: "nat \<Rightarrow> rat \<Rightarrow> int \<times> int" where
  "general_digits P q = (let e = dec_expo q; m = round_even (q * pow10 (int P - 1 - e))
     in if m = 10 ^ P then (10 ^ (P - 1), e + 1) else (m, e))"

definition fmt_general :: "nat \<Rightarrow> rat \<Rightarrow> string" where
  "fmt_general P q =
     (if q = 0 then ''0'' else
      (let (m, e) = general_digits P \<bar>q\<bar> in
       sign_text q @
       (if -4 \<le> e \<and> e < int P then strip_zeros (positional (nat (int P - 1 - e)) m)
        else strip_zeros (positional (P - 1) m) @ ''e'' @ (if e < 0 then ''-'' else ''+'')
             @ zero_pad 2 (digits_int \<bar>e\<bar>))))"

definition ostream_double :: "double \<Rightarrow> string" where
  "ostream_double x = (case x of
      NaN \<Rightarrow> ''nan'' | PInf \<Rightarrow> ''inf'' | NInf \<Rightarrow> ''-inf'' | Fin q \<Rightarrow> fmt_general 6 q)"

definition to_string_double :: "double \<Rightarrow> string" where
  "to_string_double = fmt_fixed 6"

section \<open>Printed numbers are plain tokens\<close>

text \<open>The only characters a printed number can hold.\<close>

definition number_char :: "char \<Rightarrow> bool" where
  "number_char c \<longleftrightarrow> is_digit c \<or> c \<in> set ''+-.einfa''"

lemma number_char_digit: "is_digit c \<Longrightarrow> number_char c"
  by (simp add: number_char_def)

lemma number_digits_of: "list_all number_char (digits_of n)"
  using digits_of_digits [of n] by (auto simp: list_all_iff number_char_digit)

lemma number_digits_int: "0 \<le> i \<Longrightarrow> list_all number_char (digits_int i)"
  using number_digits_of [of "nat i"] by (simp add: digits_of_nat_int)

lemma number_zero_pad: "list_all number_char s \<Longrightarrow> list_all number_char (zero_pad w s)"
  by (auto simp: zero_pad_def list_all_iff number_char_def is_digit_def)

lemma number_to_string: "list_all number_char (to_string i)"
  by (simp add: to_string_def number_digits_of number_char_def)

lemma number_positional: "0 \<le> n \<Longrightarrow> list_all number_char (positional p n)"
  by (simp add: positional_def number_digits_int number_zero_pad number_char_def
      pos_imp_zdiv_nonneg_iff)

lemma number_strip: "list_all number_char s \<Longrightarrow> list_all number_char (strip_zeros s)"
proof -
  assume s: "list_all number_char s"
  let ?t = "dropWhile (\<lambda>c. c = CHR ''0'') (rev s)"
  have "set ?t \<subseteq> set s" by (metis set_dropWhileD set_rev subsetI)
  moreover have "set (tl xs) \<subseteq> set xs" for xs :: string by (cases xs) auto
  then have "set (tl ?t) \<subseteq> set ?t" .
  ultimately show ?thesis using s by (auto simp: strip_zeros_def Let_def list_all_iff)
qed

lemma round_even_nonneg: "0 \<le> x \<Longrightarrow> 0 \<le> round_even x"
  by (simp add: round_even_def Let_def)

lemma pow10_pos: "0 < pow10 e"
  by (simp add: pow10_def)

lemma general_digits_nonneg: "0 \<le> q \<Longrightarrow> 0 \<le> fst (general_digits P q)"
  using pow10_pos by (simp add: general_digits_def Let_def round_even_nonneg less_imp_le)

lemma number_sign: "list_all number_char (sign_text q)"
  by (simp add: sign_text_def number_char_def)

lemma number_general: "list_all number_char (fmt_general P q)"
  using general_digits_nonneg [of "\<bar>q\<bar>" P]
  by (simp add: fmt_general_def split_beta number_sign number_strip number_positional
      number_zero_pad number_digits_int, simp add: number_char_def is_digit_def)

lemma number_ostream: "list_all number_char (ostream_double x)"
  by (cases x) (simp_all add: ostream_double_def number_general, simp_all add: number_char_def)

lemma number_to_string_double: "list_all number_char (to_string_double x)"
  by (cases x) (simp_all add: to_string_double_def fmt_fixed_def number_sign number_positional
      round_even_nonneg,
    simp_all add: number_char_def)

lemmas number_texts = number_ostream number_to_string_double number_to_string number_digits_of

end
