(* ===== verification/Sql_Text.thy ===== *)
theory Sql_Text
  imports Number_Format
begin

text \<open>
  Putting text into SQL statements and shell commands: \<open>escapeSqlLiteral\<close> of
  \<open>TimescaleBatchWriter.hpp\<close>, \<open>sqlEscape\<close> of \<open>services/map_query_api/main.cpp\<close> and
  \<open>shellEscape\<close> of \<open>TimescaleReadClient.hpp\<close>, with lexers for the text they produce.

  The SQL lexer follows the standard rule (a literal ends at a quote that is not doubled; a
  backslash is an ordinary character, which is what PostgreSQL does with
  \<open>standard_conforming_strings\<close> on, its default).  The shell lexer follows POSIX quoting.
\<close>

section \<open>The interface: quoting that a lexer undoes\<close>

datatype segment = Text string | Quoted string

locale quoting =
  fixes quote :: "string \<Rightarrow> string"
    and lex :: "string \<Rightarrow> 't list"
    and lit :: "string \<Rightarrow> 't list"
    and plain :: "char \<Rightarrow> 't"
    and bare :: "char \<Rightarrow> bool"
  assumes lex_nil: "lex [] = []"
    and lex_bare: "bare c \<Longrightarrow> lex (c # s) = plain c # lex s"
    and lex_quote: "r = [] \<or> bare (hd r) \<Longrightarrow> lex (quote s @ r) = lit s @ lex r"
begin

lemma lex_text: "list_all bare t \<Longrightarrow> lex (t @ r) = map plain t @ lex r"
  by (induction t) (simp_all add: lex_bare)

fun render :: "segment list \<Rightarrow> string" where
  "render [] = []"
| "render (Text t # ss) = t @ render ss"
| "render (Quoted s # ss) = quote s @ render ss"

fun well_separated :: "segment list \<Rightarrow> bool" where
  "well_separated [] \<longleftrightarrow> True"
| "well_separated (Text t # ss) \<longleftrightarrow> t \<noteq> [] \<and> list_all bare t \<and> well_separated ss"
| "well_separated [Quoted s] \<longleftrightarrow> True"
| "well_separated (Quoted s # Text t # ss) \<longleftrightarrow> well_separated (Text t # ss)"
| "well_separated (Quoted s # Quoted s' # ss) \<longleftrightarrow> False"

fun segment_tokens :: "segment \<Rightarrow> 't list" where
  "segment_tokens (Text t) = map plain t"
| "segment_tokens (Quoted s) = lit s"

text \<open>Whatever the quoted strings hold, the lexer sees exactly the segments.\<close>

lemma lex_render: "well_separated ss \<Longrightarrow> lex (render ss) = concat (map segment_tokens ss)"
proof (induction ss rule: well_separated.induct)
  case (4 s t ss)
  then have t: "t \<noteq> []" "list_all bare t" by simp_all
  then have "bare (hd (render (Text t # ss)))" by (cases t) simp_all
  with 4 show ?case by (simp add: lex_quote)
next
  case (3 s)
  then show ?case using lex_quote [of "[]" s] by (simp add: lex_nil)
qed (simp_all add: lex_nil lex_text)

end

section \<open>SQL literals\<close>

fun escape_sql_literal :: "string \<Rightarrow> string" where
  "escape_sql_literal [] = []"
| "escape_sql_literal (ch # value) =
     (if ch = CHR 0x27 then [CHR 0x27, CHR 0x27] else [ch]) @ escape_sql_literal value"

text \<open>The second copy of the function, in the query service.\<close>

fun sql_escape :: "string \<Rightarrow> string" where
  "sql_escape [] = []"
| "sql_escape (ch # value) =
     (if ch = CHR 0x27 then [CHR 0x27, CHR 0x27] else [ch]) @ sql_escape value"

lemma sql_escape_same: "sql_escape s = escape_sql_literal s"
  by (induction s) simp_all

text \<open>The literal as the statements write it, between single quotes.\<close>

definition sql_quote :: "string \<Rightarrow> string" where
  "sql_quote s = [CHR 0x27] @ escape_sql_literal s @ [CHR 0x27]"

text \<open>After an opening quote: the value of the literal and the rest; None if it does not end.\<close>

fun sql_scan :: "string \<Rightarrow> (string \<times> string) option" where
  "sql_scan [] = None"
| "sql_scan [c] = (if c = CHR 0x27 then Some ([], []) else None)"
| "sql_scan (c # d # s) =
     (if c = CHR 0x27 then
        (if d = CHR 0x27 then map_option (\<lambda>(v, r). (CHR 0x27 # v, r)) (sql_scan s)
         else Some ([], d # s))
      else map_option (\<lambda>(v, r). (c # v, r)) (sql_scan (d # s)))"

lemma sql_scan_shorter: "sql_scan s = Some (v, r) \<Longrightarrow> length r < length s"
  by (induction s arbitrary: v r rule: sql_scan.induct) (fastforce split: if_splits)+

datatype sql_token = Lit string | Sym char | Unterminated

function sql_lex :: "string \<Rightarrow> sql_token list" where
  "sql_lex [] = []"
| "sql_lex (c # s) =
     (if c = CHR 0x27 then
        (case sql_scan s of None \<Rightarrow> [Unterminated] | Some (v, r) \<Rightarrow> Lit v # sql_lex r)
      else Sym c # sql_lex s)"
  by pat_completeness auto
termination
proof (relation "measure length")
  fix c :: char and s v r p
  assume "sql_scan s = Some p" "(v, r) = p"
  then have "sql_scan s = Some (v, r)" by simp
  from sql_scan_shorter [OF this] show "(r, c # s) \<in> measure length" by simp
qed auto

definition sql_bare :: "char \<Rightarrow> bool" where
  "sql_bare c \<longleftrightarrow> c \<noteq> CHR 0x27"

lemma sql_scan_quote:
  "r = [] \<or> hd r \<noteq> CHR 0x27 \<Longrightarrow> sql_scan (escape_sql_literal s @ CHR 0x27 # r) = Some (s, r)"
proof (induction s)
  case Nil
  then show ?case by (cases r) auto
next
  case (Cons c s)
  show ?case
  proof (cases "escape_sql_literal s @ CHR 0x27 # r")
    case Nil
    then show ?thesis by simp
  next
    case (Cons d t)
    with Cons.IH [OF Cons.prems] show ?thesis by simp
  qed
qed

interpretation sql: quoting sql_quote sql_lex "\<lambda>s. [Lit s]" Sym sql_bare
proof
  show "sql_lex (sql_quote s @ r) = [Lit s] @ sql_lex r" if "r = [] \<or> sql_bare (hd r)" for s r
    using that sql_scan_quote [of r s] by (simp add: sql_quote_def sql_bare_def)
qed (simp_all add: sql_bare_def)

text \<open>The values of the literals of a statement, and its top-level semicolons.\<close>

definition sql_literals :: "string \<Rightarrow> string list" where
  "sql_literals s = concat (map (\<lambda>t. case t of Lit v \<Rightarrow> [v] | _ \<Rightarrow> []) (sql_lex s))"

definition sql_shape :: "string \<Rightarrow> sql_token list" where
  "sql_shape s = map (\<lambda>t. case t of Lit v \<Rightarrow> Lit [] | _ \<Rightarrow> t) (sql_lex s)"

lemma number_char_bare: "number_char c \<Longrightarrow> c \<noteq> CHR 0x27"
  by (auto simp: number_char_def is_digit_def)

lemma number_text_bare: "list_all number_char t \<Longrightarrow> list_all sql_bare t"
  by (auto simp: list_all_iff sql_bare_def number_char_bare)

text \<open>Rules that compute the two projections of a statement piece by piece.\<close>

lemma sql_literals_nil [simp]: "sql_literals [] = []"
  by (simp add: sql_literals_def)

lemma sql_literals_char: "c \<noteq> CHR 0x27 \<Longrightarrow> sql_literals (c # s) = sql_literals s"
  by (simp add: sql_literals_def)

lemma sql_literals_text: "list_all sql_bare t \<Longrightarrow> sql_literals (t @ s) = sql_literals s"
  by (simp add: sql_literals_def sql.lex_text comp_def)

lemma sql_literals_quote: "c \<noteq> CHR 0x27 \<Longrightarrow> sql_literals (sql_quote v @ c # s) = v # sql_literals (c # s)"
  by (simp add: sql_literals_def sql.lex_quote sql_bare_def)

lemma sql_shape_nil [simp]: "sql_shape [] = []"
  by (simp add: sql_shape_def)

lemma sql_shape_char: "c \<noteq> CHR 0x27 \<Longrightarrow> sql_shape (c # s) = Sym c # sql_shape s"
  by (simp add: sql_shape_def)

lemma sql_shape_text: "list_all sql_bare t \<Longrightarrow> sql_shape (t @ s) = map Sym t @ sql_shape s"
  by (simp add: sql_shape_def sql.lex_text comp_def)

lemma sql_shape_quote: "c \<noteq> CHR 0x27 \<Longrightarrow> sql_shape (sql_quote v @ c # s) = Lit [] # sql_shape (c # s)"
  by (simp add: sql_shape_def sql.lex_quote sql_bare_def)

lemmas sql_piece_rules = sql_literals_char sql_literals_text sql_literals_quote
  sql_shape_char sql_shape_text sql_shape_quote number_text_bare number_texts

section \<open>Statements, piece by piece\<close>

text \<open>The semicolons outside literals: the statements the text is split into.\<close>

definition sql_statements :: "string \<Rightarrow> nat" where
  "sql_statements s = length (filter (\<lambda>t. t = Sym CHR '';'') (sql_shape s))"

lemma sql_statements_nil [simp]: "sql_statements [] = 0"
  by (simp add: sql_statements_def)

lemma sql_statements_text:
  "list_all sql_bare t \<Longrightarrow> sql_statements (t @ s) = count_list t CHR '';'' + sql_statements s"
proof -
  have "length (filter (\<lambda>u. u = Sym CHR '';'') (map Sym t)) = count_list t CHR '';''"
    by (induction t) auto
  then show "list_all sql_bare t \<Longrightarrow> ?thesis" by (simp add: sql_statements_def sql_shape_text)
qed

text \<open>A literal is always followed by fixed text.\<close>

lemma sql_quote_pieces:
  assumes "t \<noteq> []" "hd t \<noteq> CHR 0x27"
  shows "sql_literals (sql_quote v @ t @ s) = v # sql_literals (t @ s)"
    and "sql_statements (sql_quote v @ t @ s) = sql_statements (t @ s)"
  using assms by (cases t; simp add: sql_literals_quote sql_statements_def sql_shape_quote)+

lemma number_pieces:
  assumes "list_all number_char t"
  shows "sql_literals (t @ s) = sql_literals s" and "sql_statements (t @ s) = sql_statements s"
proof -
  show "sql_literals (t @ s) = sql_literals s" using assms by (intro sql_literals_text number_text_bare)
  have "CHR '';'' \<notin> set t" using assms by (auto simp: list_all_iff number_char_def is_digit_def)
  then have "count_list t CHR '';'' = 0" by (induction t) auto
  then show "sql_statements (t @ s) = sql_statements s"
    using assms by (simp add: sql_statements_text number_text_bare)
qed

text \<open>
  Rules for one statement.  Fixed text is taken a chunk at a time: the simplifier only
  checks its characters, so \<open>simp only\<close> stays linear in the length of the statement.
\<close>

lemma count_list_skip: "x \<noteq> y \<Longrightarrow> count_list (x # xs) y = count_list xs y"
  by simp

lemma count_list_hit: "count_list (y # xs) y = count_list xs y + 1"
  by simp

lemmas sql_text_checks = list.pred_inject sql_bare_def char.inject list.simps list.sel
  count_list.simps(1) count_list_skip count_list_hit simp_thms if_True if_False

section \<open>Shell words\<close>

fun shell_escape_body :: "string \<Rightarrow> string" where
  "shell_escape_body [] = []"
| "shell_escape_body (ch # value) =
     (if ch = CHR 0x27 then [CHR 0x27, CHR 0x5C, CHR 0x27, CHR 0x27] else [ch])
     @ shell_escape_body value"

definition shell_escape :: "string \<Rightarrow> string" where
  "shell_escape value = [CHR 0x27] @ shell_escape_body value @ [CHR 0x27]"

text \<open>
  POSIX single quotes and backslash: a quoted character stands for itself (\<open>Plain\<close> ones may
  be operators or separators).  The boolean says whether the scan is inside single quotes.
\<close>

datatype shell_token = Quoted_char char | Plain char | Open_quote

fun shell_lex :: "bool \<Rightarrow> string \<Rightarrow> shell_token list" where
  "shell_lex True [] = [Open_quote]"
| "shell_lex False [] = []"
| "shell_lex True (c # s) = (if c = CHR 0x27 then shell_lex False s else Quoted_char c # shell_lex True s)"
| "shell_lex False (c # s) =
     (if c = CHR 0x27 then shell_lex True s
      else if c = CHR 0x5C then (case s of [] \<Rightarrow> [Plain c] | d # r \<Rightarrow> Quoted_char d # shell_lex False r)
      else Plain c # shell_lex False s)"

definition shell_bare :: "char \<Rightarrow> bool" where
  "shell_bare c \<longleftrightarrow> c \<noteq> CHR 0x27 \<and> c \<noteq> CHR 0x5C"

lemma shell_lex_body:
  "shell_lex True (shell_escape_body s @ CHR 0x27 # r) = map Quoted_char s @ shell_lex False r"
  by (induction s) auto

interpretation shell: quoting shell_escape "shell_lex False" "map Quoted_char" Plain shell_bare
  by unfold_locales (simp_all add: shell_escape_def shell_lex_body shell_bare_def)

end
