(* ===== verification/Batch_Rows.thy ===== *)
theory Batch_Rows
  imports Envelope Std_Map Sql_Text
begin

text \<open>
  The rows of \<open>common/timescale/TimescaleBatchWriter.hpp\<close>: the writer's own copies of the
  hazard functions, the grouping loop of \<open>flushBatch\<close> and the statement text of
  \<open>buildBatchSql\<close>.

  The source of \<open>flushBatch\<close> lacks the lines that fill the first seven members of a raw row
  (\<open>rawRows.push_back({\<close> up to the event time): they are a parameter, \<open>raw_head\<close>.
\<close>

section \<open>Row types\<close>

record raw_head =
  raw_message_id :: string
  raw_source :: string
  raw_continent :: string
  raw_country :: string
  raw_region :: string
  raw_city :: string
  raw_event_time :: int

record raw_row = raw_head +
  raw_created_at :: int
  raw_latitude :: double
  raw_longitude :: double
  raw_temperature :: double
  raw_humidity :: double
  raw_wind_speed :: double
  raw_visibility_km :: double
  raw_precipitation_mm :: double
  raw_pressure_hpa :: double
  raw_cloud_cover_percent :: double
  raw_station_id :: string
  raw_ingest_layer :: string
  raw_sample_point :: string
  raw_payload_json :: string

record aggregate_row =
  ag_bucket_start :: int
  ag_continent :: string
  ag_country :: string
  ag_region :: string
  ag_city :: string
  ag_observation_count :: nat
  ag_min_temperature :: double
  ag_max_temperature :: double
  ag_avg_temperature :: double
  ag_avg_humidity :: double
  ag_avg_wind_speed :: double

record tile_aggregate_row =
  ta_bucket_start :: int
  ta_tile_id :: string
  ta_continent :: string
  ta_country :: string
  ta_region :: string
  ta_sample_count :: nat
  ta_latitude :: "double option"
  ta_longitude :: "double option"
  ta_avg_temperature :: double
  ta_avg_humidity :: double
  ta_avg_cloud_cover :: "double option"
  ta_avg_wind_speed :: double
  ta_avg_pressure_hpa :: "double option"
  ta_min_visibility_km :: "double option"
  ta_max_precipitation_mm :: "double option"
  ta_hazard_score :: double

record route_risk_row =
  ro_bucket_start :: int
  ro_route_id :: string
  ro_segment_id :: string
  ro_region :: string
  ro_hazard_score :: double
  ro_delay_factor :: double
  ro_primary_hazard :: string

section \<open>The writer's hazard functions\<close>

definition bw_minute_bucket :: "int \<Rightarrow> int" where
  "bw_minute_bucket timestampMs = trunc_div timestampMs 60000 * 60000"

definition bw_to_epoch_ms :: "int \<Rightarrow> int" where
  "bw_to_epoch_ms rawTimestamp = rawTimestamp"

definition bw_has_measurement :: "double \<Rightarrow> bool" where
  "bw_has_measurement x \<longleftrightarrow> \<not> is_nan x"

definition bw_clamp01 :: "double \<Rightarrow> double" where
  "bw_clamp01 x = d_max (Fin 0) (d_min (Fin 1) x)"

definition bw_tile_id_from_packet :: "weather_packet \<Rightarrow> string option" where
  "bw_tile_id_from_packet p =
     (if \<not> bw_has_measurement (latitude p) \<or> \<not> bw_has_measurement (longitude p)
      then Some (region p @ '':'' @ city p)
      else do {
        latBucket \<leftarrow> to_int (d_floor (d_mul (d_add (latitude p) (lit 90)) (lit 32)));
        lonBucket \<leftarrow> to_int (d_floor (d_mul (d_add (longitude p) (lit 180)) (lit 32)));
        Some (''q25:'' @ to_string latBucket @ '':'' @ to_string lonBucket)
      })"

definition sql_nullable_double :: "double \<Rightarrow> string" where
  "sql_nullable_double x = (if \<not> bw_has_measurement x then ''NULL'' else ostream_double x)"

definition bw_wind_norm :: "weather_packet \<Rightarrow> double" where
  "bw_wind_norm p = bw_clamp01 (d_div (wind_speed p) (lit 80))"

definition bw_precip_norm :: "weather_packet \<Rightarrow> double" where
  "bw_precip_norm p = (if \<not> bw_has_measurement (precipitation_mm p) then Fin 0
     else bw_clamp01 (d_div (precipitation_mm p) (lit 25)))"

definition bw_visibility_norm :: "weather_packet \<Rightarrow> double" where
  "bw_visibility_norm p = (if \<not> bw_has_measurement (visibility_km p) then Fin 0
     else bw_clamp01 (d_div (d_sub (lit 10) (visibility_km p)) (lit 10)))"

definition bw_cloud_norm :: "weather_packet \<Rightarrow> double" where
  "bw_cloud_norm p = (if \<not> bw_has_measurement (cloud_cover_percent p) then Fin 0
     else bw_clamp01 (d_div (cloud_cover_percent p) (lit 100)))"

definition bw_heat_norm :: "weather_packet \<Rightarrow> double" where
  "bw_heat_norm p =
     (if d_ge (temperature p) (lit 15) \<and> d_le (temperature p) (lit 30) then Fin 0
      else let distance = (if d_lt (temperature p) (lit 15) then d_sub (lit 15) (temperature p)
                           else d_sub (temperature p) (lit 30))
           in bw_clamp01 (d_div distance (lit 20)))"

definition bw_hazard_score :: "weather_packet \<Rightarrow> double" where
  "bw_hazard_score p =
     (let score01 = d_add (d_add (d_add (d_add (d_mul (lit 0.33) (bw_wind_norm p))
                                               (d_mul (lit 0.28) (bw_precip_norm p)))
                                        (d_mul (lit 0.19) (bw_visibility_norm p)))
                                 (d_mul (lit 0.15) (bw_heat_norm p)))
                          (d_mul (lit 0.05) (bw_cloud_norm p))
      in d_mul score01 (lit 100))"

definition bw_primary_hazard :: "weather_packet \<Rightarrow> string" where
  "bw_primary_hazard p =
     (let wind = bw_wind_norm p; precip = bw_precip_norm p; vis = bw_visibility_norm p;
          heat = bw_heat_norm p; cloud = bw_cloud_norm p
      in if d_ge wind precip \<and> d_ge wind vis \<and> d_ge wind heat \<and> d_ge wind cloud then ''wind''
         else if d_ge precip wind \<and> d_ge precip vis \<and> d_ge precip heat \<and> d_ge precip cloud
         then ''precipitation''
         else if d_ge vis wind \<and> d_ge vis precip \<and> d_ge vis heat \<and> d_ge vis cloud
         then ''visibility''
         else if d_ge cloud wind \<and> d_ge cloud precip \<and> d_ge cloud vis \<and> d_ge cloud heat
         then ''cloud''
         else ''temperature'')"

section \<open>The grouping loop of \<open>flushBatch\<close>\<close>

type_synonym city_key = "int \<times> string \<times> string \<times> string \<times> string"
type_synonym route_key = "int \<times> string \<times> string \<times> string"

record tile_acc =
  tl_sample_count :: nat
  tl_sum_latitude :: double
  tl_sum_longitude :: double
  tl_geo_count :: nat
  tl_sum_temperature :: double
  tl_sum_humidity :: double
  tl_sum_wind :: double
  tl_sum_pressure :: double
  tl_pressure_count :: nat
  tl_sum_cloud_cover :: double
  tl_cloud_count :: nat
  tl_min_visibility_km :: "double option"
  tl_max_precipitation_mm :: "double option"
  tl_sum_hazard :: double

definition tile_acc_init :: tile_acc where
  "tile_acc_init = \<lparr>tl_sample_count = 0, tl_sum_latitude = Fin 0, tl_sum_longitude = Fin 0,
     tl_geo_count = 0, tl_sum_temperature = Fin 0, tl_sum_humidity = Fin 0, tl_sum_wind = Fin 0,
     tl_sum_pressure = Fin 0, tl_pressure_count = 0, tl_sum_cloud_cover = Fin 0,
     tl_cloud_count = 0, tl_min_visibility_km = None, tl_max_precipitation_mm = None,
     tl_sum_hazard = Fin 0\<rparr>"

record route_acc =
  ra_sample_count :: nat
  ra_sum_hazard :: double
  ra_sum_delay_factor :: double
  ra_max_hazard :: double
  ra_primary_hazard :: string

definition route_acc_init :: route_acc where
  "route_acc_init = \<lparr>ra_sample_count = 0, ra_sum_hazard = Fin 0, ra_sum_delay_factor = Fin 0,
     ra_max_hazard = Fin (-1), ra_primary_hazard = ''wind''\<rparr>"

definition tile_step :: "weather_packet \<Rightarrow> tile_acc \<Rightarrow> tile_acc" where
  "tile_step p a =
     (let a = a\<lparr>tl_sample_count := tl_sample_count a + 1,
                tl_sum_temperature := d_add (tl_sum_temperature a) (temperature p),
                tl_sum_humidity := d_add (tl_sum_humidity a) (humidity p),
                tl_sum_wind := d_add (tl_sum_wind a) (wind_speed p)\<rparr>;
          a = (if bw_has_measurement (pressure_hpa p)
               then a\<lparr>tl_sum_pressure := d_add (tl_sum_pressure a) (pressure_hpa p),
                      tl_pressure_count := tl_pressure_count a + 1\<rparr> else a);
          a = (if bw_has_measurement (cloud_cover_percent p)
               then a\<lparr>tl_sum_cloud_cover := d_add (tl_sum_cloud_cover a) (cloud_cover_percent p),
                      tl_cloud_count := tl_cloud_count a + 1\<rparr> else a);
          a = a\<lparr>tl_sum_hazard := d_add (tl_sum_hazard a) (bw_hazard_score p)\<rparr>;
          a = (if bw_has_measurement (visibility_km p)
               then a\<lparr>tl_min_visibility_km := Some (case tl_min_visibility_km a of
                        None \<Rightarrow> visibility_km p | Some m \<Rightarrow> d_min m (visibility_km p))\<rparr> else a);
          a = (if bw_has_measurement (precipitation_mm p)
               then a\<lparr>tl_max_precipitation_mm := Some (case tl_max_precipitation_mm a of
                        None \<Rightarrow> precipitation_mm p | Some m \<Rightarrow> d_max m (precipitation_mm p))\<rparr> else a)
      in if bw_has_measurement (latitude p) \<and> bw_has_measurement (longitude p)
         then a\<lparr>tl_sum_latitude := d_add (tl_sum_latitude a) (latitude p),
                tl_sum_longitude := d_add (tl_sum_longitude a) (longitude p),
                tl_geo_count := tl_geo_count a + 1\<rparr> else a)"

definition bw_delay_factor :: "weather_packet \<Rightarrow> double" where
  "bw_delay_factor p =
     (let currentHazard = bw_hazard_score p;
          crosswindNorm100 = d_mul (bw_wind_norm p) (lit 100)
      in d_add (d_add (lit 1) (d_mul (lit 0.004) currentHazard)) (d_mul (lit 0.002) crosswindNorm100))"

definition route_step :: "weather_packet \<Rightarrow> route_acc \<Rightarrow> route_acc" where
  "route_step p a =
     (let currentHazard = bw_hazard_score p;
          a = a\<lparr>ra_sample_count := ra_sample_count a + 1,
                ra_sum_hazard := d_add (ra_sum_hazard a) currentHazard,
                ra_sum_delay_factor := d_add (ra_sum_delay_factor a) (bw_delay_factor p)\<rparr>
      in if d_gt currentHazard (ra_max_hazard a)
         then a\<lparr>ra_max_hazard := currentHazard, ra_primary_hazard := bw_primary_hazard p\<rparr> else a)"

record flush_state =
  fl_raw :: "raw_row list"
  fl_aggregate :: "(city_key, weather_packet list) smap"
  fl_tile :: "(city_key, tile_acc) smap"
  fl_route :: "(route_key, route_acc) smap"

definition flush_init :: flush_state where
  "flush_init = \<lparr>fl_raw = [], fl_aggregate = [], fl_tile = [], fl_route = []\<rparr>"

text \<open>The envelopes handed to the writer come from \<open>json::parse\<close>, which accepts UTF-8 only, so \<open>dump\<close>
  does not throw for them.\<close>

definition raw_row_of :: "'j json_lib \<Rightarrow> ('j envelope \<Rightarrow> weather_packet \<Rightarrow> raw_head) \<Rightarrow>
    'j envelope \<Rightarrow> weather_packet \<Rightarrow> raw_row" where
  "raw_row_of J head e p = raw_head.extend (head e p)
     (raw_row.fields (created_at e) (latitude p) (longitude p) (temperature p) (humidity p)
        (wind_speed p) (visibility_km p) (precipitation_mm p) (pressure_hpa p)
        (cloud_cover_percent p) (station_id p) (ingest_layer p) (sample_point p)
        (j_dump J (envelope_to_json J e)))"

definition aggregate_key :: "weather_packet \<Rightarrow> city_key" where
  "aggregate_key p = (bw_minute_bucket (timestamp p), continent p, country p, region p, city p)"

definition tile_key :: "string \<Rightarrow> weather_packet \<Rightarrow> city_key" where
  "tile_key tileId p = (bw_minute_bucket (timestamp p), tileId, continent p, country p, region p)"

definition bw_route_key :: "'j envelope \<Rightarrow> string \<Rightarrow> weather_packet \<Rightarrow> route_key" where
  "bw_route_key e tileId p =
     (bw_minute_bucket (timestamp p),
      (if route e = [] then ''route.'' @ region p else route e),
      (if station_id p = [] then tileId else station_id p), region p)"

text \<open>One iteration of the loop over the batch; None: the tile key is undefined.\<close>

definition flush_step :: "'j json_lib \<Rightarrow> ('j envelope \<Rightarrow> weather_packet \<Rightarrow> raw_head) \<Rightarrow>
    'j envelope \<Rightarrow> flush_state \<Rightarrow> flush_state option" where
  "flush_step J head e st =
     (case weather_packet_from_envelope J e of
        None \<Rightarrow> Some st
      | Some p \<Rightarrow> do {
          tileId \<leftarrow> bw_tile_id_from_packet p;
          Some \<lparr>fl_raw = fl_raw st @ [raw_row_of J head e p],
            fl_aggregate = smap_modify [] (aggregate_key p) (\<lambda>ps. ps @ [p]) (fl_aggregate st),
            fl_tile = smap_modify tile_acc_init (tile_key tileId p) (tile_step p) (fl_tile st),
            fl_route = smap_modify route_acc_init (bw_route_key e tileId p) (route_step p) (fl_route st)\<rparr>
        })"

primrec flush_loop :: "'j json_lib \<Rightarrow> ('j envelope \<Rightarrow> weather_packet \<Rightarrow> raw_head) \<Rightarrow>
    'j envelope list \<Rightarrow> flush_state \<Rightarrow> flush_state option" where
  "flush_loop J head [] st = Some st"
| "flush_loop J head (e # es) st = Option.bind (flush_step J head e st) (flush_loop J head es)"

section \<open>Rows from the groups\<close>

record temp_acc =
  tm_min :: double
  tm_max :: double
  tm_sum :: double
  tm_sum_humidity :: double
  tm_sum_wind :: double

definition temp_step :: "weather_packet \<Rightarrow> temp_acc \<Rightarrow> temp_acc" where
  "temp_step p a = a\<lparr>tm_min := d_min (tm_min a) (temperature p),
     tm_max := d_max (tm_max a) (temperature p),
     tm_sum := d_add (tm_sum a) (temperature p),
     tm_sum_humidity := d_add (tm_sum_humidity a) (humidity p),
     tm_sum_wind := d_add (tm_sum_wind a) (wind_speed p)\<rparr>"

definition aggregate_row_of :: "city_key \<times> weather_packet list \<Rightarrow> aggregate_row list" where
  "aggregate_row_of entry =
     (case entry of ((bucket, co, cu, re, ci), packets) \<Rightarrow>
      (case packets of [] \<Rightarrow> []
       | front # _ \<Rightarrow>
         (let a = fold temp_step packets
                \<lparr>tm_min = temperature front, tm_max = temperature front, tm_sum = Fin 0,
                 tm_sum_humidity = Fin 0, tm_sum_wind = Fin 0\<rparr>;
              n = of_size (length packets)
          in [\<lparr>ag_bucket_start = bucket, ag_continent = co, ag_country = cu, ag_region = re,
               ag_city = ci, ag_observation_count = length packets, ag_min_temperature = tm_min a,
               ag_max_temperature = tm_max a, ag_avg_temperature = d_div (tm_sum a) n,
               ag_avg_humidity = d_div (tm_sum_humidity a) n,
               ag_avg_wind_speed = d_div (tm_sum_wind a) n\<rparr>])))"

definition opt_avg :: "double \<Rightarrow> nat \<Rightarrow> double option" where
  "opt_avg acc n = (if 0 < n then Some (d_div acc (of_size n)) else None)"

definition tile_row_of :: "city_key \<times> tile_acc \<Rightarrow> tile_aggregate_row list" where
  "tile_row_of entry =
     (case entry of ((bucket, tile, co, cu, re), a) \<Rightarrow>
      if tl_sample_count a = 0 then []
      else (let n = of_size (tl_sample_count a) in
        [\<lparr>ta_bucket_start = bucket, ta_tile_id = tile, ta_continent = co, ta_country = cu,
          ta_region = re, ta_sample_count = tl_sample_count a,
          ta_latitude = opt_avg (tl_sum_latitude a) (tl_geo_count a),
          ta_longitude = opt_avg (tl_sum_longitude a) (tl_geo_count a),
          ta_avg_temperature = d_div (tl_sum_temperature a) n,
          ta_avg_humidity = d_div (tl_sum_humidity a) n,
          ta_avg_cloud_cover = opt_avg (tl_sum_cloud_cover a) (tl_cloud_count a),
          ta_avg_wind_speed = d_div (tl_sum_wind a) n,
          ta_avg_pressure_hpa = opt_avg (tl_sum_pressure a) (tl_pressure_count a),
          ta_min_visibility_km = tl_min_visibility_km a,
          ta_max_precipitation_mm = tl_max_precipitation_mm a,
          ta_hazard_score = d_div (tl_sum_hazard a) n\<rparr>]))"

definition route_row_of :: "route_key \<times> route_acc \<Rightarrow> route_risk_row list" where
  "route_row_of entry =
     (case entry of ((bucket, rid, seg, re), a) \<Rightarrow>
      if ra_sample_count a = 0 then []
      else (let n = of_size (ra_sample_count a) in
        [\<lparr>ro_bucket_start = bucket, ro_route_id = rid, ro_segment_id = seg, ro_region = re,
          ro_hazard_score = d_div (ra_sum_hazard a) n,
          ro_delay_factor = d_div (ra_sum_delay_factor a) n,
          ro_primary_hazard = ra_primary_hazard a\<rparr>]))"

definition flush_rows :: "flush_state \<Rightarrow>
    raw_row list \<times> aggregate_row list \<times> tile_aggregate_row list \<times> route_risk_row list" where
  "flush_rows st = (fl_raw st, concat (map aggregate_row_of (fl_aggregate st)),
     concat (map tile_row_of (fl_tile st)), concat (map route_row_of (fl_route st)))"

section \<open>\<open>buildBatchSql\<close>\<close>

definition endl :: string where "endl = [CHR 0x0A]"

definition opt_text :: "(double \<Rightarrow> string) \<Rightarrow> double option \<Rightarrow> string" where
  "opt_text render x = (case x of Some v \<Rightarrow> render v | None \<Rightarrow> ''NULL'')"

definition raw_insert_sql :: "raw_row \<Rightarrow> string" where
  "raw_insert_sql r =
     ''INSERT INTO weather_observations_raw '' @
     ''(message_id, source, continent, country, region, city, event_time, created_at, latitude, longitude, temperature, humidity, wind_speed, visibility_km, precipitation_mm, pressure_hpa, cloud_cover_percent, station_id, ingest_layer, sample_point, payload_json) VALUES ('' @
     sql_quote (raw_message_id r) @ '', '' @
     sql_quote (raw_source r) @ '', '' @
     sql_quote (raw_continent r) @ '', '' @
     sql_quote (raw_country r) @ '', '' @
     sql_quote (raw_region r) @ '', '' @
     sql_quote (raw_city r) @ '', to_timestamp('' @ to_string (raw_event_time r)
       @ '' / 1000.0), to_timestamp('' @ to_string (raw_created_at r) @ '' / 1000.0), '' @
     sql_nullable_double (raw_latitude r) @ '', '' @
     sql_nullable_double (raw_longitude r) @ '', '' @
     ostream_double (raw_temperature r) @ '', '' @ ostream_double (raw_humidity r) @ '', ''
       @ ostream_double (raw_wind_speed r) @ '', '' @
     sql_nullable_double (raw_visibility_km r) @ '', '' @
     sql_nullable_double (raw_precipitation_mm r) @ '', '' @
     sql_nullable_double (raw_pressure_hpa r) @ '', '' @
     sql_nullable_double (raw_cloud_cover_percent r) @ '', '' @
     sql_quote (raw_station_id r) @ '', '' @
     sql_quote (raw_ingest_layer r) @ '', '' @
     sql_quote (raw_sample_point r) @ '', '' @
     sql_quote (raw_payload_json r) @ '') ON CONFLICT (message_id) DO NOTHING;'' @ endl"

definition aggregate_insert_sql :: "aggregate_row \<Rightarrow> string" where
  "aggregate_insert_sql r =
     ''INSERT INTO weather_city_minute_aggregates '' @
     ''(bucket_start, continent, country, region, city, observation_count, min_temperature, max_temperature, avg_temperature, avg_humidity, avg_wind_speed) VALUES ('' @
     ''to_timestamp('' @ to_string (ag_bucket_start r) @ '' / 1000.0), '' @
     sql_quote (ag_continent r) @ '', '' @
     sql_quote (ag_country r) @ '', '' @
     sql_quote (ag_region r) @ '', '' @
     sql_quote (ag_city r) @ '', '' @
     digits_of (ag_observation_count r) @ '', '' @
     ostream_double (ag_min_temperature r) @ '', '' @
     ostream_double (ag_max_temperature r) @ '', '' @
     ostream_double (ag_avg_temperature r) @ '', '' @
     ostream_double (ag_avg_humidity r) @ '', '' @
     ostream_double (ag_avg_wind_speed r) @ '') ON CONFLICT (bucket_start, continent, country, region, city) DO UPDATE SET '' @
     ''observation_count = EXCLUDED.observation_count, '' @
     ''min_temperature = LEAST(weather_city_minute_aggregates.min_temperature, EXCLUDED.min_temperature), '' @
     ''max_temperature = GREATEST(weather_city_minute_aggregates.max_temperature, EXCLUDED.max_temperature), '' @
     ''avg_temperature = EXCLUDED.avg_temperature, '' @
     ''avg_humidity = EXCLUDED.avg_humidity, '' @
     ''avg_wind_speed = EXCLUDED.avg_wind_speed;'' @ endl"

definition tile_insert_sql :: "tile_aggregate_row \<Rightarrow> string" where
  "tile_insert_sql r =
     ''INSERT INTO weather_tile_minute_aggregates '' @
     ''(bucket_start, tile_id, continent, country, region, latitude, longitude, sample_count, avg_temperature, avg_humidity, avg_cloud_cover, avg_wind_speed, avg_pressure_hpa, min_visibility_km, max_precipitation_mm, hazard_score) VALUES ('' @
     ''to_timestamp('' @ to_string (ta_bucket_start r) @ '' / 1000.0), '' @
     sql_quote (ta_tile_id r) @ '', '' @
     sql_quote (ta_continent r) @ '', '' @
     sql_quote (ta_country r) @ '', '' @
     sql_quote (ta_region r) @ '', '' @
     opt_text to_string_double (ta_latitude r) @ '', '' @
     opt_text to_string_double (ta_longitude r) @ '', '' @
     digits_of (ta_sample_count r) @ '', '' @
     ostream_double (ta_avg_temperature r) @ '', '' @
     ostream_double (ta_avg_humidity r) @ '', '' @
     opt_text ostream_double (ta_avg_cloud_cover r) @
     '', '' @ ostream_double (ta_avg_wind_speed r) @ '', '' @
     opt_text ostream_double (ta_avg_pressure_hpa r) @ '', '' @
     opt_text ostream_double (ta_min_visibility_km r) @ '', '' @
     opt_text ostream_double (ta_max_precipitation_mm r) @
     '', '' @ ostream_double (ta_hazard_score r) @
     '') ON CONFLICT (bucket_start, tile_id, region) DO UPDATE SET '' @
     ''sample_count = EXCLUDED.sample_count, '' @
     ''avg_temperature = EXCLUDED.avg_temperature, '' @
     ''latitude = EXCLUDED.latitude, '' @
     ''longitude = EXCLUDED.longitude, '' @
     ''avg_humidity = EXCLUDED.avg_humidity, '' @
     ''avg_cloud_cover = EXCLUDED.avg_cloud_cover, '' @
     ''avg_wind_speed = EXCLUDED.avg_wind_speed, '' @
     ''avg_pressure_hpa = EXCLUDED.avg_pressure_hpa, '' @
     ''min_visibility_km = LEAST(weather_tile_minute_aggregates.min_visibility_km, EXCLUDED.min_visibility_km), '' @
     ''max_precipitation_mm = GREATEST(weather_tile_minute_aggregates.max_precipitation_mm, EXCLUDED.max_precipitation_mm), '' @
     ''hazard_score = EXCLUDED.hazard_score;'' @ endl"

definition route_insert_sql :: "route_risk_row \<Rightarrow> string" where
  "route_insert_sql r =
     ''INSERT INTO route_segment_risk_minute '' @
     ''(bucket_start, route_id, segment_id, region, hazard_score, delay_factor, primary_hazard) VALUES ('' @
     ''to_timestamp('' @ to_string (ro_bucket_start r) @ '' / 1000.0), '' @
     sql_quote (ro_route_id r) @ '', '' @
     sql_quote (ro_segment_id r) @ '', '' @
     sql_quote (ro_region r) @ '', '' @
     ostream_double (ro_hazard_score r) @ '', '' @
     ostream_double (ro_delay_factor r) @ '', '' @
     sql_quote (ro_primary_hazard r) @
     '') ON CONFLICT (bucket_start, route_id, segment_id) DO UPDATE SET '' @
     ''hazard_score = EXCLUDED.hazard_score, '' @
     ''delay_factor = EXCLUDED.delay_factor, '' @
     ''primary_hazard = EXCLUDED.primary_hazard;'' @ endl"

definition build_batch_sql :: "int \<Rightarrow> raw_row list \<Rightarrow> aggregate_row list \<Rightarrow>
    tile_aggregate_row list \<Rightarrow> route_risk_row list \<Rightarrow> string" where
  "build_batch_sql now raw agg tile rte =
     ''-- batch '' @ to_string now @ endl @
     ''BEGIN;'' @ endl @
     concat (map raw_insert_sql raw) @
     concat (map aggregate_insert_sql agg) @
     concat (map tile_insert_sql tile) @
     concat (map route_insert_sql rte) @
     ''COMMIT;'' @ endl"

section \<open>A batch for the witnesses\<close>

text \<open>One packet, without coordinates.\<close>

definition demo_packet :: weather_packet where
  "demo_packet = packet_init ''Asia'' ''India'' ''south_india'' ''Kochi'' (Fin 30) (Fin 70) (Fin 5) 60001"

definition demo_batch :: "demo envelope list" where
  "demo_batch = [demo_envelope]"

definition demo_head :: "demo envelope \<Rightarrow> weather_packet \<Rightarrow> raw_head" where
  "demo_head e p = \<lparr>raw_message_id = message_id e, raw_source = source e, raw_continent = continent p,
     raw_country = country p, raw_region = region p, raw_city = city p, raw_event_time = timestamp p\<rparr>"

lemma demo_read: "weather_packet_from_envelope demo_json demo_envelope = Some demo_packet"
  unfolding demo_packet_def by code_simp

lemma demo_flush:
  obtains st where "flush_loop demo_json demo_head demo_batch flush_init = Some st"
proof -
  have "bw_tile_id_from_packet demo_packet = Some (region demo_packet @ '':'' @ city demo_packet)"
    by (simp add: bw_tile_id_from_packet_def bw_has_measurement_def demo_packet_def packet_init_def)
  with that show thesis by (simp add: demo_batch_def flush_step_def demo_read)
qed

end
