(* ===== verification/Batch_Sql.thy ===== *)
theory Batch_Sql
  imports Batch_Rows
begin

text \<open>
  The text of \<open>buildBatchSql\<close> as the database reads it: which literals it holds and which
  tokens stand outside them.
\<close>

text \<open>The values a row quotes, in statement order.\<close>

definition raw_literals :: "raw_row \<Rightarrow> string list" where
  "raw_literals r = [raw_message_id r, raw_source r, raw_continent r, raw_country r, raw_region r,
     raw_city r, raw_station_id r, raw_ingest_layer r, raw_sample_point r, raw_payload_json r]"

definition aggregate_literals :: "aggregate_row \<Rightarrow> string list" where
  "aggregate_literals r = [ag_continent r, ag_country r, ag_region r, ag_city r]"

definition tile_literals :: "tile_aggregate_row \<Rightarrow> string list" where
  "tile_literals r = [ta_tile_id r, ta_continent r, ta_country r, ta_region r]"

definition route_literals :: "route_risk_row \<Rightarrow> string list" where
  "route_literals r = [ro_route_id r, ro_segment_id r, ro_region r, ro_primary_hazard r]"

lemma null_pieces:
  "sql_literals (''NULL'' @ s) = sql_literals s" "sql_statements (''NULL'' @ s) = sql_statements s"
  using sql_literals_text [of "''NULL''" s] sql_statements_text [of "''NULL''" s]
  by (simp_all add: sql_bare_def)

lemma opt_text_pieces:
  "(\<And>v. list_all number_char (render v)) \<Longrightarrow> sql_literals (opt_text render x @ s) = sql_literals s"
  "(\<And>v. list_all number_char (render v)) \<Longrightarrow> sql_statements (opt_text render x @ s) = sql_statements s"
  by (cases x; simp only: opt_text_def option.case number_pieces null_pieces)+

lemma nullable_pieces:
  "sql_literals (sql_nullable_double x @ s) = sql_literals s"
  "sql_statements (sql_nullable_double x @ s) = sql_statements s"
  by (cases "bw_has_measurement x"; simp only: sql_nullable_double_def number_pieces null_pieces
      number_texts if_True if_False not_True_eq_False not_False_eq_True)+

lemmas sql_pieces = sql_literals_text sql_statements_text sql_quote_pieces
  number_pieces [OF number_texts(1)] number_pieces [OF number_texts(3)] number_pieces [OF number_texts(4)]
  opt_text_pieces [OF number_texts(1)] opt_text_pieces [OF number_texts(2)] nullable_pieces

lemma raw_insert_pieces:
  "sql_literals (raw_insert_sql r @ s) = raw_literals r @ sql_literals s"
  "sql_statements (raw_insert_sql r @ s) = Suc (sql_statements s)"
  unfolding raw_insert_sql_def append.assoc endl_def
  by (simp_all only: sql_pieces sql_text_checks) (simp_all add: raw_literals_def)

lemma aggregate_insert_pieces:
  "sql_literals (aggregate_insert_sql r @ s) = aggregate_literals r @ sql_literals s"
  "sql_statements (aggregate_insert_sql r @ s) = Suc (sql_statements s)"
  unfolding aggregate_insert_sql_def append.assoc endl_def
  by (simp_all only: sql_pieces sql_text_checks) (simp_all add: aggregate_literals_def)

lemma tile_insert_pieces:
  "sql_literals (tile_insert_sql r @ s) = tile_literals r @ sql_literals s"
  "sql_statements (tile_insert_sql r @ s) = Suc (sql_statements s)"
  unfolding tile_insert_sql_def append.assoc endl_def
  by (simp_all only: sql_pieces sql_text_checks) (simp_all add: tile_literals_def)

lemma route_insert_pieces:
  "sql_literals (route_insert_sql r @ s) = route_literals r @ sql_literals s"
  "sql_statements (route_insert_sql r @ s) = Suc (sql_statements s)"
  unfolding route_insert_sql_def append.assoc endl_def
  by (simp_all only: sql_pieces sql_text_checks) (simp_all add: route_literals_def)

lemma concat_pieces:
  assumes "\<And>r s. sql_literals (f r @ s) = g r @ sql_literals s"
    and "\<And>r s. sql_statements (f r @ s) = Suc (sql_statements s)"
  shows "sql_literals (concat (map f rs) @ s) = concat (map g rs) @ sql_literals s"
    and "sql_statements (concat (map f rs) @ s) = length rs + sql_statements s"
  using assms by (induction rs) simp_all

text \<open>
  C10: no value of any row can escape its literal.  Lexing the text of the whole batch finds
  as literals exactly the string columns of the rows, unchanged and in order, whatever
  characters (quotes, semicolons, backslashes) they hold, and outside the literals exactly
  one statement terminator per row besides those of BEGIN and COMMIT.
\<close>

theorem batch_sql_injection_safe:
  "sql_literals (build_batch_sql now raw agg tile rte)
     = concat (map raw_literals raw) @ concat (map aggregate_literals agg)
       @ concat (map tile_literals tile) @ concat (map route_literals rte)
   \<and> sql_statements (build_batch_sql now raw agg tile rte)
     = 2 + length raw + length agg + length tile + length rte"
  unfolding build_batch_sql_def append.assoc endl_def append_Nil2
  by (simp only: sql_pieces concat_pieces [OF raw_insert_pieces]
      concat_pieces [OF aggregate_insert_pieces] concat_pieces [OF tile_insert_pieces]
      concat_pieces [OF route_insert_pieces] sql_text_checks)
    (simp add: sql_literals_char sql_statements_def sql_shape_char)

end
