(* ===== verification/Map_Analytics.thy ===== *)
theory Map_Analytics
  imports Envelope
begin

text \<open>
  \<open>common/analytics/MapAnalytics.hpp\<close>: the hazard model of the map (normalised intensities,
  score, delay factor, primary hazard), the tile key and the two event records.  All
  arithmetic is binary64.  A tile key converts a floored double to \<open>int\<close>, which is undefined
  behaviour out of range: None.
\<close>

record tile_hazard_event =
  th_source_message_id :: string
  th_region :: string
  th_country :: string
  th_continent :: string
  th_city :: string
  th_tile_id :: string
  th_primary_hazard :: string
  th_bucket_start :: int
  th_hazard_score :: double
  th_latitude :: double
  th_longitude :: double

record route_risk_event =
  rr_source_message_id :: string
  rr_route_id :: string
  rr_segment_id :: string
  rr_region :: string
  rr_primary_hazard :: string
  rr_bucket_start :: int
  rr_hazard_score :: double
  rr_delay_factor :: double

definition map_has_measurement :: "double \<Rightarrow> bool" where
  "map_has_measurement x \<longleftrightarrow> \<not> is_nan x"

definition map_clamp01 :: "double \<Rightarrow> double" where
  "map_clamp01 x = d_max (Fin 0) (d_min (Fin 1) x)"

definition map_lat_bucket :: "weather_packet \<Rightarrow> int option" where
  "map_lat_bucket p = to_int (d_floor (d_mul (d_add (latitude p) (lit 90)) (lit 32)))"

definition map_lon_bucket :: "weather_packet \<Rightarrow> int option" where
  "map_lon_bucket p = to_int (d_floor (d_mul (d_add (longitude p) (lit 180)) (lit 32)))"

definition map_tile_id_from_packet :: "weather_packet \<Rightarrow> string option" where
  "map_tile_id_from_packet p =
     (if \<not> map_has_measurement (latitude p) \<or> \<not> map_has_measurement (longitude p)
      then Some (region p @ '':'' @ city p)
      else do {
        latBucket \<leftarrow> map_lat_bucket p;
        lonBucket \<leftarrow> map_lon_bucket p;
        Some (''q25:'' @ to_string latBucket @ '':'' @ to_string lonBucket)
      })"

definition map_wind_norm :: "weather_packet \<Rightarrow> double" where
  "map_wind_norm p = map_clamp01 (d_div (wind_speed p) (lit 80))"

definition map_precip_norm :: "weather_packet \<Rightarrow> double" where
  "map_precip_norm p = (if \<not> map_has_measurement (precipitation_mm p) then Fin 0
     else map_clamp01 (d_div (precipitation_mm p) (lit 25)))"

definition map_visibility_norm :: "weather_packet \<Rightarrow> double" where
  "map_visibility_norm p = (if \<not> map_has_measurement (visibility_km p) then Fin 0
     else map_clamp01 (d_div (d_sub (lit 10) (visibility_km p)) (lit 10)))"

definition map_heat_norm :: "weather_packet \<Rightarrow> double" where
  "map_heat_norm p =
     (if d_ge (temperature p) (lit 15) \<and> d_le (temperature p) (lit 30) then Fin 0
      else let distance = (if d_lt (temperature p) (lit 15) then d_sub (lit 15) (temperature p)
                           else d_sub (temperature p) (lit 30))
           in map_clamp01 (d_div distance (lit 20)))"

definition map_tile_hazard_score :: "weather_packet \<Rightarrow> double" where
  "map_tile_hazard_score p =
     (let score01 = d_add (d_add (d_add (d_mul (lit 0.35) (map_wind_norm p))
                                        (d_mul (lit 0.30) (map_precip_norm p)))
                                 (d_mul (lit 0.20) (map_visibility_norm p)))
                          (d_mul (lit 0.15) (map_heat_norm p))
      in d_mul score01 (lit 100))"

definition map_route_delay_factor :: "weather_packet \<Rightarrow> double" where
  "map_route_delay_factor p =
     (let hazard = map_tile_hazard_score p;
          crosswindNorm100 = d_mul (map_wind_norm p) (lit 100)
      in d_add (d_add (lit 1) (d_mul (lit 0.004) hazard)) (d_mul (lit 0.002) crosswindNorm100))"

definition map_primary_hazard :: "weather_packet \<Rightarrow> string" where
  "map_primary_hazard p =
     (let wind = map_wind_norm p; precip = map_precip_norm p;
          vis = map_visibility_norm p; heat = map_heat_norm p
      in if d_ge wind precip \<and> d_ge wind vis \<and> d_ge wind heat then ''wind''
         else if d_ge precip wind \<and> d_ge precip vis \<and> d_ge precip heat then ''precipitation''
         else if d_ge vis wind \<and> d_ge vis precip \<and> d_ge vis heat then ''visibility''
         else ''temperature'')"

definition map_minute_bucket :: "int \<Rightarrow> int" where
  "map_minute_bucket timestampMs = trunc_div timestampMs 60000 * 60000"

definition make_map_tile_hazard_event ::
  "'j envelope \<Rightarrow> weather_packet \<Rightarrow> tile_hazard_event option" where
  "make_map_tile_hazard_event e p = do {
     tile \<leftarrow> map_tile_id_from_packet p;
     Some \<lparr>th_source_message_id = message_id e, th_region = region p, th_country = country p,
       th_continent = continent p, th_city = city p, th_tile_id = tile,
       th_primary_hazard = map_primary_hazard p, th_bucket_start = map_minute_bucket (timestamp p),
       th_hazard_score = map_tile_hazard_score p, th_latitude = latitude p,
       th_longitude = longitude p\<rparr>
   }"

definition make_map_route_risk_event ::
  "'j envelope \<Rightarrow> weather_packet \<Rightarrow> route_risk_event option" where
  "make_map_route_risk_event e p = do {
     let routeId = (if route e = [] then ''route.'' @ region p else route e);
     segmentId \<leftarrow> (if station_id p = [] then map_tile_id_from_packet p else Some (station_id p));
     Some \<lparr>rr_source_message_id = message_id e, rr_route_id = routeId, rr_segment_id = segmentId,
       rr_region = region p, rr_primary_hazard = map_primary_hazard p,
       rr_bucket_start = map_minute_bucket (timestamp p),
       rr_hazard_score = map_tile_hazard_score p, rr_delay_factor = map_route_delay_factor p\<rparr>
   }"

definition tile_hazard_to_json :: "'j json_lib \<Rightarrow> tile_hazard_event \<Rightarrow> 'j" where
  "tile_hazard_to_json J ev =
     put_number J ''longitude'' (th_longitude ev) (
     put_number J ''latitude'' (th_latitude ev) (
     j_obj J [(''source_message_id'', j_str J (th_source_message_id ev)),
              (''continent'', j_str J (th_continent ev)),
              (''country'', j_str J (th_country ev)),
              (''region'', j_str J (th_region ev)),
              (''city'', j_str J (th_city ev)),
              (''tile_id'', j_str J (th_tile_id ev)),
              (''primary_hazard'', j_str J (th_primary_hazard ev)),
              (''bucket_start'', j_int J (th_bucket_start ev)),
              (''hazard_score'', j_dbl J (th_hazard_score ev))]))"

definition route_risk_to_json :: "'j json_lib \<Rightarrow> route_risk_event \<Rightarrow> 'j" where
  "route_risk_to_json J ev =
     j_obj J [(''source_message_id'', j_str J (rr_source_message_id ev)),
              (''route_id'', j_str J (rr_route_id ev)),
              (''segment_id'', j_str J (rr_segment_id ev)),
              (''region'', j_str J (rr_region ev)),
              (''primary_hazard'', j_str J (rr_primary_hazard ev)),
              (''bucket_start'', j_int J (rr_bucket_start ev)),
              (''hazard_score'', j_dbl J (rr_hazard_score ev)),
              (''delay_factor'', j_dbl J (rr_delay_factor ev))]"

section \<open>Clamping and the norms\<close>

text \<open>Clamping maps every double, NaN and infinities included, into the unit interval.\<close>

lemma clamp01_in: "d_in 0 1 (d_max (Fin 0) (d_min (Fin 1) x))"
  by (cases x) (auto simp: d_in_def d_max_def d_min_def)

lemma clamp01_mono: "d_le a b \<Longrightarrow>
  d_le (d_max (Fin 0) (d_min (Fin 1) a)) (d_max (Fin 0) (d_min (Fin 1) b))"
  by (cases a; cases b) (auto simp: d_max_def d_min_def)

lemma map_norms_in:
  "d_in 0 1 (map_wind_norm p)" "d_in 0 1 (map_precip_norm p)"
  "d_in 0 1 (map_visibility_norm p)" "d_in 0 1 (map_heat_norm p)"
  by (simp_all add: map_wind_norm_def map_precip_norm_def map_visibility_norm_def
      map_heat_norm_def map_clamp01_def clamp01_in Let_def)
     (simp_all add: d_in_def)

text \<open>The weights as doubles, and the corner values of the weighted sums.\<close>

lemma lit_weights:
  "lit 0.35 = Fin (3152519739159347 / 9007199254740992)" "lit 0.30 = Fin (5404319552844595 / 18014398509481984)"
  "lit 0.20 = Fin (3602879701896397 / 18014398509481984)" "lit 0.15 = Fin (5404319552844595 / 36028797018963968)"
  "lit 0.004 = Fin (1152921504606847 / 288230376151711744)" "lit 0.002 = Fin (1152921504606847 / 576460752303423488)"
  "lit 100 = Fin 100"
  by (simp_all only: lit_def) code_simp+

lemma hazard_corners:
  "round64 (3152519739159347 / 9007199254740992 + 5404319552844595 / 18014398509481984) = Fin (1463669878895411 / 2251799813685248)"
  "round64 (1463669878895411 / 2251799813685248 + 3602879701896397 / 18014398509481984) = Fin (3828059683264921 / 4503599627370496)"
  "round64 (3828059683264921 / 4503599627370496 + 5404319552844595 / 36028797018963968) = Fin (9007199254740991 / 9007199254740992)"
  "round64 (9007199254740991 / 9007199254740992 * 100) = Fin (7036874417766399 / 70368744177664)"
  "round64 (1152921504606847 / 288230376151711744 * (7036874417766399 / 70368744177664)) = Fin (7205759403792793 / 18014398509481984)"
  "round64 (1 + 7205759403792793 / 18014398509481984) = Fin (3152519739159347 / 2251799813685248)"
  "round64 (1152921504606847 / 576460752303423488 * 100) = Fin (3602879701896397 / 18014398509481984)"
  "round64 (3152519739159347 / 2251799813685248 + 3602879701896397 / 18014398509481984) = Fin (7205759403792793 / 4503599627370496)"
  by code_simp+

section \<open>Score and delay factor\<close>

lemma map_norm_weights:
  "d_in 0 (3152519739159347 / 9007199254740992) (d_mul (lit 0.35) (map_wind_norm p))"
  "d_in 0 (5404319552844595 / 18014398509481984) (d_mul (lit 0.30) (map_precip_norm p))"
  "d_in 0 (3602879701896397 / 18014398509481984) (d_mul (lit 0.20) (map_visibility_norm p))"
  "d_in 0 (5404319552844595 / 36028797018963968) (d_mul (lit 0.15) (map_heat_norm p))"
  by (rule weighted_in [OF lit_weights(1)], simp, rule map_norms_in,
      rule weighted_in [OF lit_weights(2)], simp, rule map_norms_in,
      rule weighted_in [OF lit_weights(3)], simp, rule map_norms_in,
      rule weighted_in [OF lit_weights(4)], simp, rule map_norms_in)

lemma map_score_in: "d_in 0 (7036874417766399 / 70368744177664) (map_tile_hazard_score p)"
proof -
  note A = d_in_add [OF map_norm_weights(1) map_norm_weights(2) round64_00 hazard_corners(1)]
  note B = d_in_add [OF A map_norm_weights(3) round64_00 hazard_corners(2)]
  note C = d_in_add [OF B map_norm_weights(4) round64_00 hazard_corners(3)]
  have "d_in 0 100 (lit 100)" by (simp add: lit_weights d_in_def)
  note D = d_in_mul [OF C this hazard_corners(4)]
  show ?thesis unfolding map_tile_hazard_score_def Let_def by (rule D)
qed

lemma delay_weights_in:
  "d_in 0 (1152921504606847 / 288230376151711744) (lit 0.004)"
  "d_in 0 (1152921504606847 / 576460752303423488) (lit 0.002)"
  by (rule d_in_eq [OF lit_weights(5)], simp, simp)
     (rule d_in_eq [OF lit_weights(6)], simp, simp)

lemma map_delay_in:
  "d_in 1 (7205759403792793 / 4503599627370496) (map_route_delay_factor p)"
proof -
  have c: "d_in 0 100 (lit 100)" and one: "d_in 1 1 (lit 1)"
    by (simp_all add: lit_weights d_in_def)
  have r1: "round64 (1 + 0) = Fin 1" by simp
  have cw: "d_in 0 100 (d_mul (map_wind_norm p) (lit 100))"
    using map_norms_in(1) [of p] c by (rule d_in_mul) code_simp
  note A = d_in_mul [OF delay_weights_in(1) map_score_in [of p] hazard_corners(5)]
  note B = d_in_add [OF one A r1 hazard_corners(6)]
  note C = d_in_mul [OF delay_weights_in(2) cw hazard_corners(7)]
  note D = d_in_add [OF B C r1 hazard_corners(8)]
  show ?thesis unfolding map_route_delay_factor_def Let_def
    by (rule D)
qed

text \<open>
  C4: whatever the packet holds (NaN and infinities included), the binary64 evaluation of
  the hazard score is a finite number between 0 and 100 and the delay factor is a finite
  number between 1 and 1.6; no rounding error takes either outside its range.
\<close>

theorem map_scores_bounded:
  "d_in 0 100 (map_tile_hazard_score p) \<and> d_in 1 1.6 (map_route_delay_factor p)"
  using map_score_in [of p] map_delay_in [of p] by (auto intro: d_in_mono)

section \<open>The primary hazard\<close>

text \<open>The norm a hazard name stands for.\<close>

definition map_norm_of :: "weather_packet \<Rightarrow> string \<Rightarrow> double" where
  "map_norm_of p h = (if h = ''wind'' then map_wind_norm p
     else if h = ''precipitation'' then map_precip_norm p
     else if h = ''visibility'' then map_visibility_norm p else map_heat_norm p)"

lemma d_in_not_nan: "d_in lo hi x \<Longrightarrow> \<not> is_nan x"
  by (auto simp: d_in_def)

text \<open>
  The name returned by \<open>map_primary_hazard\<close> is the name of a maximal norm; in particular
  the final \<open>return "temperature"\<close> is only reached when the heat norm dominates.
\<close>

lemma map_primary_hazard_dominates:
  "\<forall>x \<in> {map_wind_norm p, map_precip_norm p, map_visibility_norm p, map_heat_norm p}.
     d_le x (map_norm_of p (map_primary_hazard p))"
proof -
  obtain w c v h where n: "map_wind_norm p = Fin w" "map_precip_norm p = Fin c"
    "map_visibility_norm p = Fin v" "map_heat_norm p = Fin h"
    using map_norms_in [of p] by (auto simp: d_in_def)
  show ?thesis by (auto simp: map_norm_of_def map_primary_hazard_def n Let_def)
qed

lemma map_primary_hazard_dominates_witness:
  "map_norm_of (packet_init [] [] [] [] (Fin 20) (Fin 0) (Fin 40) 0)
     (map_primary_hazard (packet_init [] [] [] [] (Fin 20) (Fin 0) (Fin 40) 0)) = Fin (1/2)
   \<and> d_le (Fin 0) (map_norm_of (packet_init [] [] [] [] (Fin 20) (Fin 0) (Fin 40) 0)
     (map_primary_hazard (packet_init [] [] [] [] (Fin 20) (Fin 0) (Fin 40) 0)))"
  (is "?a = _ \<and> _")
proof
  show "?a = Fin (1/2)" by code_simp
  have "map_heat_norm (packet_init [] [] [] [] (Fin 20) (Fin 0) (Fin 40) 0) = Fin 0" by code_simp
  then show "d_le (Fin 0) ?a"
    using map_primary_hazard_dominates [of "packet_init [] [] [] [] (Fin 20) (Fin 0) (Fin 40) 0"]
    by simp
qed

section \<open>The score follows the wind\<close>

lemma div_lit_mono: "0 < b \<Longrightarrow> lit c = Fin b \<Longrightarrow> d_le x y \<Longrightarrow> d_le (d_div x (lit c)) (d_div y (lit c))"
  by (cases x; cases y)
     (auto simp: d_div_def signed_inf_def round64_mono divide_right_mono, auto simp: round64_def Let_def)

lemma lit_80: "lit 80 = Fin 80"
  by code_simp

lemma map_wind_norm_mono: "d_le (wind_speed p) s \<Longrightarrow>
  d_le (map_wind_norm p) (map_wind_norm (p\<lparr>wind_speed := s\<rparr>))"
  unfolding map_wind_norm_def map_clamp01_def
  by (rule clamp01_mono, rule div_lit_mono [OF _ lit_80]) simp_all

lemma d_le_add_right: "d_le x y \<Longrightarrow> d_in l h z \<Longrightarrow> d_in a b x \<Longrightarrow> d_in a b y \<Longrightarrow>
  d_le (d_add x z) (d_add y z)"
  by (auto simp: d_in_def round64_mono)

lemma d_le_mul_right: "d_le x y \<Longrightarrow> d_in a b x \<Longrightarrow> d_in a b y \<Longrightarrow> 0 \<le> c \<Longrightarrow>
  d_le (d_mul x (Fin c)) (d_mul y (Fin c))"
  by (auto simp: d_in_def d_mul_def round64_mono mult_right_mono)

text \<open>
  The hazard score never falls when only the wind speed rises, in binary64 arithmetic.
\<close>

lemma map_hazard_monotone_in_wind:
  assumes "d_le (wind_speed p) s"
  shows "d_le (map_tile_hazard_score p) (map_tile_hazard_score (p\<lparr>wind_speed := s\<rparr>))"
proof -
  let ?q = "p\<lparr>wind_speed := s\<rparr>"
  have same: "map_precip_norm ?q = map_precip_norm p" "map_visibility_norm ?q = map_visibility_norm p"
    "map_heat_norm ?q = map_heat_norm p"
    by (simp_all add: map_precip_norm_def map_visibility_norm_def map_heat_norm_def)
  obtain w w' where w: "map_wind_norm p = Fin w" "map_wind_norm ?q = Fin w'"
    using map_norms_in(1) [of p] map_norms_in(1) [of ?q] by (auto simp: d_in_def)
  have "d_le (Fin w) (Fin w')" using map_wind_norm_mono [OF assms] w by simp
  then have 1: "d_le (d_mul (lit 0.35) (map_wind_norm p)) (d_mul (lit 0.35) (map_wind_norm ?q))"
    unfolding w lit_weights by (intro d_mul_mono) simp_all
  note W = map_norm_weights(1)
  note P = map_norm_weights(2) [of p] and V = map_norm_weights(3) [of p]
    and H = map_norm_weights(4) [of p]
  note A = d_in_add [OF W P round64_00 hazard_corners(1)]
  note A' = d_in_add [OF W [of ?q] P round64_00 hazard_corners(1)]
  note B = d_in_add [OF A V round64_00 hazard_corners(2)]
  note B' = d_in_add [OF A' V round64_00 hazard_corners(2)]
  note C = d_in_add [OF B H round64_00 hazard_corners(3)]
  note C' = d_in_add [OF B' H round64_00 hazard_corners(3)]
  note 2 = d_le_add_right [OF 1 P W W]
  note 3 = d_le_add_right [OF 2 V A A']
  note 4 = d_le_add_right [OF 3 H B B']
  show ?thesis
    unfolding map_tile_hazard_score_def Let_def same lit_weights(7)
    by (rule d_le_mul_right [OF 4 C C']) simp
qed

lemma map_hazard_monotone_in_wind_witness:
  "d_le (map_tile_hazard_score (packet_init [] [] [] [] (Fin 20) (Fin 0) (Fin 40) 0))
        (map_tile_hazard_score ((packet_init [] [] [] [] (Fin 20) (Fin 0) (Fin 40) 0)
           \<lparr>wind_speed := Fin 60\<rparr>))"
  by (rule map_hazard_monotone_in_wind) (simp add: packet_init_def)


section \<open>Minute buckets\<close>

text \<open>
  The minute bucket of a non-negative timestamp is the largest multiple of 60000 not
  above it; below zero truncation rounds up, so the bucket is the smallest multiple not below
  it.  In either case it is a fixed point and stays a \<open>long\<close>.
\<close>

lemma map_minute_bucket_spec:
  "60000 dvd map_minute_bucket t
   \<and> (0 \<le> t \<longrightarrow> map_minute_bucket t \<le> t \<and> t < map_minute_bucket t + 60000)
   \<and> (t < 0 \<longrightarrow> t \<le> map_minute_bucket t \<and> map_minute_bucket t < t + 60000)
   \<and> map_minute_bucket (map_minute_bucket t) = map_minute_bucket t
   \<and> (long_range t \<longrightarrow> long_range (map_minute_bucket t))"
proof (cases "0 \<le> t")
  case True
  then have b: "map_minute_bucket t = t div 60000 * 60000"
    by (simp add: map_minute_bucket_def trunc_div_nonneg)
  have "0 \<le> t div 60000 * 60000" using True by (simp add: pos_imp_zdiv_nonneg_iff)
  then have "map_minute_bucket (t div 60000 * 60000) = t div 60000 * 60000"
    by (simp add: map_minute_bucket_def trunc_div_nonneg)
  with b True \<open>0 \<le> t div 60000 * 60000\<close> show ?thesis
    by (auto simp: long_range_def long_min_def long_max_def)
next
  case False
  then have b: "map_minute_bucket t = - ((- t) div 60000 * 60000)"
    by (simp add: map_minute_bucket_def trunc_div_neg)
  have n: "0 \<le> (- t) div 60000 * 60000" using False by (simp add: pos_imp_zdiv_nonneg_iff)
  have f: "map_minute_bucket (- ((- t) div 60000 * 60000)) = - ((- t) div 60000 * 60000)"
  proof (cases "(- t) div 60000 = 0")
    case True
    then show ?thesis by (simp add: map_minute_bucket_def trunc_div_def)
  next
    case False
    with n have "- ((- t) div 60000 * 60000) < 0" by linarith
    then show ?thesis by (simp add: map_minute_bucket_def trunc_div_neg)
  qed
  have "t \<le> - ((- t) div 60000 * 60000)" "- ((- t) div 60000 * 60000) < t + 60000" by linarith+
  with b f n False show ?thesis by (auto simp: long_range_def long_min_def long_max_def)
qed

lemma map_minute_bucket_spec_witness:
  "map_minute_bucket 61234 = 60000 \<and> map_minute_bucket (- 59999) = 0
   \<and> map_minute_bucket 61234 \<le> 61234 \<and> long_range (map_minute_bucket 61234)"
proof -
  have "long_range 61234" by (simp add: long_range_def long_min_def long_max_def)
  then show ?thesis
    using map_minute_bucket_spec [of 61234]
    by (simp add: map_minute_bucket_def trunc_div_def)
qed

section \<open>Tile keys\<close>

definition located :: "weather_packet \<Rightarrow> bool" where
  "located p \<longleftrightarrow> d_in (- 90) 90 (latitude p) \<and> d_in (- 180) 180 (longitude p)"

lemma tile_corners:
  "lit 90 = Fin 90" "lit 180 = Fin 180" "lit 32 = Fin 32"
  "round64 (- 90 + 90) = Fin 0" "round64 (90 + 90) = Fin 180"
  "round64 (- 180 + 180) = Fin 0" "round64 (180 + 180) = Fin 360"
  "round64 (180 * 32) = Fin 5760" "round64 (360 * 32) = Fin 11520"
  by code_simp+

lemma bucket_in:
  assumes "d_in 0 (of_int n) x" "0 \<le> n" "n < 2 ^ 31"
  obtains k where "to_int (d_floor x) = Some k" "0 \<le> k" "k \<le> n"
proof -
  obtain r where r: "x = Fin r" "0 \<le> r" "r \<le> of_int n" using assms(1) by (auto simp: d_in_def)
  have "0 \<le> \<lfloor>r\<rfloor>" "\<lfloor>r\<rfloor> \<le> n" using r by (simp_all add: floor_le_iff le_floor_iff)
  then show ?thesis using that r assms(3) by (auto simp: Let_def int_range_def)
qed

lemma map_buckets_in:
  assumes "located p"
  obtains a b where "map_lat_bucket p = Some a" "0 \<le> a" "a \<le> 5760"
    "map_lon_bucket p = Some b" "0 \<le> b" "b \<le> 11520"
proof -
  have c: "d_in 90 90 (lit 90)" "d_in 180 180 (lit 180)" "d_in 0 32 (lit 32)"
    by (simp_all add: tile_corners d_in_def)
  have la: "d_in (- 90) 90 (latitude p)" and lo: "d_in (- 180) 180 (longitude p)"
    using assms by (auto simp: located_def)
  note A = d_in_mul [OF d_in_add [OF la c(1) tile_corners(4,5)] c(3) tile_corners(8)]
  note B = d_in_mul [OF d_in_add [OF lo c(2) tile_corners(6,7)] c(3) tile_corners(9)]
  obtain a where "map_lat_bucket p = Some a" "0 \<le> a" "a \<le> 5760"
    using bucket_in [of 5760 "d_mul (d_add (latitude p) (lit 90)) (lit 32)"] A
    by (auto simp: map_lat_bucket_def)
  moreover obtain b where "map_lon_bucket p = Some b" "0 \<le> b" "b \<le> 11520"
    using bucket_in [of 11520 "d_mul (d_add (longitude p) (lit 180)) (lit 32)"] B
    by (auto simp: map_lon_bucket_def)
  ultimately show ?thesis using that by blast
qed

lemma to_string_nonneg: "0 \<le> n \<Longrightarrow> to_string n = digits_of (nat n)"
  by (simp add: to_string_def)

lemma colon_not_digit: "\<not> is_digit CHR '':''"
  by (simp add: is_digit_def)

lemma tile_key_inj:
  assumes "0 \<le> a" "0 \<le> b" "0 \<le> a'" "0 \<le> b'"
    and "to_string a @ CHR '':'' # to_string b = to_string a' @ CHR '':'' # to_string b'"
  shows "a = a' \<and> b = b'"
proof -
  have d: "digits_of (nat a) @ CHR '':'' # digits_of (nat b)
      = digits_of (nat a') @ CHR '':'' # digits_of (nat b')"
    using assms by (simp add: to_string_nonneg)
  have "digits_of (nat a) = digits_of (nat a')"
    using arg_cong [OF d, of "takeWhile is_digit"]
    by (simp add: takeWhile_append_stop digits_of_digits colon_not_digit)
  moreover from this have "digits_of (nat b) = digits_of (nat b')" using d by simp
  ultimately show ?thesis using assms by (auto dest!: digits_of_inj)
qed

text \<open>
  C5: for coordinates in the validated range the conversions to \<open>int\<close> are defined, the two
  buckets lie in \<open>0..5760\<close> and \<open>0..11520\<close>, and two located packets share a tile key exactly
  when they share both buckets.
\<close>

theorem map_tile_ids:
  assumes "located p" "located q"
  shows "(\<exists>a b. map_lat_bucket p = Some a \<and> 0 \<le> a \<and> a \<le> 5760
      \<and> map_lon_bucket p = Some b \<and> 0 \<le> b \<and> b \<le> 11520
      \<and> map_tile_id_from_packet p = Some (''q25:'' @ to_string a @ '':'' @ to_string b))
    \<and> (map_tile_id_from_packet p = map_tile_id_from_packet q
      \<longleftrightarrow> map_lat_bucket p = map_lat_bucket q \<and> map_lon_bucket p = map_lon_bucket q)"
proof -
  obtain a b where ab: "map_lat_bucket p = Some a" "0 \<le> a" "a \<le> 5760"
    "map_lon_bucket p = Some b" "0 \<le> b" "b \<le> 11520" using map_buckets_in [OF assms(1)] .
  obtain a' b' where ab': "map_lat_bucket q = Some a'" "0 \<le> a'" "a' \<le> 5760"
    "map_lon_bucket q = Some b'" "0 \<le> b'" "b' \<le> 11520" using map_buckets_in [OF assms(2)] .
  have m: "map_has_measurement (latitude p)" "map_has_measurement (longitude p)"
    "map_has_measurement (latitude q)" "map_has_measurement (longitude q)"
    using assms by (auto simp: located_def map_has_measurement_def d_in_def)
  show ?thesis
    using ab ab' m tile_key_inj [of a b a' b'] by (auto simp: map_tile_id_from_packet_def)
qed

theorem map_tile_ids_witness:
  "map_tile_id_from_packet ((packet_init [] [] [] [] (Fin 20) (Fin 0) (Fin 40) 0)
      \<lparr>latitude := Fin 13, longitude := Fin 80\<rparr>)
   = map_tile_id_from_packet ((packet_init [] [] [] [] (Fin 20) (Fin 0) (Fin 40) 0)
      \<lparr>latitude := Fin (13 + 1/64), longitude := Fin 80\<rparr>)"
proof -
  let ?p = "(packet_init [] [] [] [] (Fin 20) (Fin 0) (Fin 40) 0)
      \<lparr>latitude := Fin 13, longitude := Fin 80\<rparr>"
  let ?q = "(packet_init [] [] [] [] (Fin 20) (Fin 0) (Fin 40) 0)
      \<lparr>latitude := Fin (13 + 1/64), longitude := Fin 80\<rparr>"
  have l: "located ?p" "located ?q" by (auto simp: located_def packet_init_def intro!: d_in_eq)
  have "map_lat_bucket ?p = Some 3296" "map_lat_bucket ?q = Some 3296" by code_simp+
  moreover have "map_lon_bucket ?p = map_lon_bucket ?q"
    by (simp add: map_lon_bucket_def packet_init_def)
  ultimately show ?thesis using map_tile_ids [OF l] by simp
qed

end
