(* ===== verification/Batch_Groups.thy ===== *)
theory Batch_Groups
  imports Batch_Rows Map_Analytics
begin

text \<open>
  What \<open>flushBatch\<close> computes: the rows stand for exactly the groups of the batch, every
  valid packet is counted once, and the writer's hazard functions agree with those of
  \<open>MapAnalytics.hpp\<close> where the code means them to.
\<close>

section \<open>The writer's copies of the map functions\<close>

lemma bw_copies:
  "bw_minute_bucket t = map_minute_bucket t" "bw_has_measurement x = map_has_measurement x"
  "bw_clamp01 x = map_clamp01 x" "bw_tile_id_from_packet p = map_tile_id_from_packet p"
  "bw_wind_norm p = map_wind_norm p" "bw_precip_norm p = map_precip_norm p"
  "bw_visibility_norm p = map_visibility_norm p" "bw_heat_norm p = map_heat_norm p"
  by (simp_all add: bw_minute_bucket_def map_minute_bucket_def bw_has_measurement_def
      map_has_measurement_def bw_clamp01_def map_clamp01_def bw_tile_id_from_packet_def
      map_tile_id_from_packet_def map_lat_bucket_def map_lon_bucket_def bw_wind_norm_def
      map_wind_norm_def bw_precip_norm_def map_precip_norm_def bw_visibility_norm_def
      map_visibility_norm_def bw_heat_norm_def map_heat_norm_def)

lemma bw_cloud_in: "d_in 0 1 (bw_cloud_norm p)"
  by (simp add: bw_cloud_norm_def bw_clamp01_def clamp01_in) (simp add: d_in_def)

lemma bw_norms_in:
  "d_in 0 1 (bw_wind_norm p)" "d_in 0 1 (bw_precip_norm p)" "d_in 0 1 (bw_visibility_norm p)"
  "d_in 0 1 (bw_heat_norm p)" "d_in 0 1 (bw_cloud_norm p)"
  by (simp_all add: bw_copies map_norms_in bw_cloud_in)

text \<open>The intensity a hazard name of the writer stands for.\<close>

definition bw_norm_of :: "weather_packet \<Rightarrow> string \<Rightarrow> double" where
  "bw_norm_of p h = (if h = ''wind'' then bw_wind_norm p else if h = ''precipitation'' then bw_precip_norm p
     else if h = ''visibility'' then bw_visibility_norm p else if h = ''cloud'' then bw_cloud_norm p
     else bw_heat_norm p)"

lemma bw_weights:
  "lit 0.33 = Fin (5944751508129055 / 18014398509481984)" "lit 0.28 = Fin (1261007895663739 / 4503599627370496)"
  "lit 0.19 = Fin (3422735716801577 / 18014398509481984)" "lit 0.05 = Fin (3602879701896397 / 72057594037927936)"
  by (simp_all only: lit_def) code_simp+

lemma bw_corners:
  "round64 (5944751508129055 / 18014398509481984 + 1261007895663739 / 4503599627370496) = Fin (2747195772696003 / 4503599627370496)"
  "round64 (2747195772696003 / 4503599627370496 + 3422735716801577 / 18014398509481984) = Fin (3602879701896397 / 4503599627370496)"
  "round64 (3602879701896397 / 4503599627370496 + 5404319552844595 / 36028797018963968) = Fin (8556839292003943 / 9007199254740992)"
  "round64 (8556839292003943 / 9007199254740992 + 3602879701896397 / 72057594037927936) = Fin 1"
  "round64 (1 * 100) = Fin 100"
  by code_simp+

lemma bw_weighted:
  "d_in 0 (5944751508129055 / 18014398509481984) (d_mul (lit 0.33) (bw_wind_norm p))"
  "d_in 0 (1261007895663739 / 4503599627370496) (d_mul (lit 0.28) (bw_precip_norm p))"
  "d_in 0 (3422735716801577 / 18014398509481984) (d_mul (lit 0.19) (bw_visibility_norm p))"
  "d_in 0 (5404319552844595 / 36028797018963968) (d_mul (lit 0.15) (bw_heat_norm p))"
  "d_in 0 (3602879701896397 / 72057594037927936) (d_mul (lit 0.05) (bw_cloud_norm p))"
  by (rule weighted_in [OF bw_weights(1)], simp, rule bw_norms_in,
      rule weighted_in [OF bw_weights(2)], simp, rule bw_norms_in,
      rule weighted_in [OF bw_weights(3)], simp, rule bw_norms_in,
      rule weighted_in [OF lit_weights(4)], simp, rule bw_norms_in,
      rule weighted_in [OF bw_weights(4)], simp, rule bw_norms_in)

lemma bw_score_in: "d_in 0 100 (bw_hazard_score p)"
proof -
  note A = d_in_add [OF bw_weighted(1) bw_weighted(2) round64_00 bw_corners(1)]
  note B = d_in_add [OF A bw_weighted(3) round64_00 bw_corners(2)]
  note C = d_in_add [OF B bw_weighted(4) round64_00 bw_corners(3)]
  note D = d_in_add [OF C bw_weighted(5) round64_00 bw_corners(4)]
  have "d_in 0 100 (lit 100)" by (simp add: lit_weights d_in_def)
  note E = d_in_mul [OF D this bw_corners(5)]
  show ?thesis unfolding bw_hazard_score_def Let_def by (rule E)
qed

lemma five_max:
  fixes w q v h c :: "'a::linorder"
  shows "(q \<le> w \<and> v \<le> w \<and> h \<le> w \<and> c \<le> w) \<or> (w \<le> q \<and> v \<le> q \<and> h \<le> q \<and> c \<le> q)
    \<or> (w \<le> v \<and> q \<le> v \<and> h \<le> v \<and> c \<le> v) \<or> (w \<le> c \<and> q \<le> c \<and> v \<le> c \<and> h \<le> c)
    \<or> (w \<le> h \<and> q \<le> h \<and> v \<le> h \<and> c \<le> h)"
proof -
  let ?S = "{w, q, v, h, c}"
  have "\<forall>x\<in>?S. x \<le> Max ?S" by (intro ballI Max_ge) simp_all
  moreover have "Max ?S \<in> ?S" by (rule Max_in) simp_all
  ultimately show ?thesis by (elim insertE emptyE) (simp_all only: ball_simps simp_thms)
qed

lemma bw_primary_max:
  assumes "bw_wind_norm p = Fin w" "bw_precip_norm p = Fin q" "bw_visibility_norm p = Fin v"
    "bw_heat_norm p = Fin h" "bw_cloud_norm p = Fin c"
  shows "\<exists>m. bw_norm_of p (bw_primary_hazard p) = Fin m \<and> w \<le> m \<and> q \<le> m \<and> v \<le> m \<and> c \<le> m \<and> h \<le> m"
proof -
  let ?W = "q \<le> w \<and> v \<le> w \<and> h \<le> w \<and> c \<le> w" and ?Q = "w \<le> q \<and> v \<le> q \<and> h \<le> q \<and> c \<le> q"
    and ?V = "w \<le> v \<and> q \<le> v \<and> h \<le> v \<and> c \<le> v" and ?C = "w \<le> c \<and> q \<le> c \<and> v \<le> c \<and> h \<le> c"
  have eq: "bw_primary_hazard p = (if ?W then ''wind'' else if ?Q then ''precipitation''
      else if ?V then ''visibility'' else if ?C then ''cloud'' else ''temperature'')"
    by (simp only: bw_primary_hazard_def Let_def assms d_le.simps)
  consider ?W | "\<not> ?W" ?Q | "\<not> ?W" "\<not> ?Q" ?V | "\<not> ?W" "\<not> ?Q" "\<not> ?V" ?C
    | "\<not> ?W" "\<not> ?Q" "\<not> ?V" "\<not> ?C" "w \<le> h \<and> q \<le> h \<and> v \<le> h \<and> c \<le> h"
    using five_max [of q w v h c] by blast
  then show ?thesis
  proof cases
    case 1
    then have "bw_primary_hazard p = ''wind''" by (simp only: eq if_True simp_thms)
    with 1 assms show ?thesis by (simp add: bw_norm_of_def)
  next
    case 2
    then have "bw_primary_hazard p = ''precipitation''" by (simp only: eq if_P if_not_P if_True if_False)
    with 2 assms show ?thesis by (simp add: bw_norm_of_def)
  next
    case 3
    then have "bw_primary_hazard p = ''visibility''" by (simp only: eq if_P if_not_P if_True if_False)
    with 3 assms show ?thesis by (simp add: bw_norm_of_def)
  next
    case 4
    then have "bw_primary_hazard p = ''cloud''" by (simp only: eq if_P if_not_P if_True if_False)
    with 4 assms show ?thesis by (simp add: bw_norm_of_def)
  next
    case 5
    then have "bw_primary_hazard p = ''temperature''" by (simp only: eq if_False)
    with 5 assms show ?thesis by (simp add: bw_norm_of_def)
  qed
qed

text \<open>
  C11: the hazard model of the writer.  The stored score is a finite number between 0 and 100
  for every packet, although the five decimal weights are rounded; the primary hazard names
  an intensity that none of the five exceeds; and the tile key and minute bucket are those
  of the map analytics, so both halves of the system key a packet alike.
\<close>

theorem writer_hazard_model:
  "d_in 0 100 (bw_hazard_score p)
   \<and> d_le (bw_wind_norm p) (bw_norm_of p (bw_primary_hazard p))
   \<and> d_le (bw_precip_norm p) (bw_norm_of p (bw_primary_hazard p))
   \<and> d_le (bw_visibility_norm p) (bw_norm_of p (bw_primary_hazard p))
   \<and> d_le (bw_cloud_norm p) (bw_norm_of p (bw_primary_hazard p))
   \<and> d_le (bw_heat_norm p) (bw_norm_of p (bw_primary_hazard p))
   \<and> bw_tile_id_from_packet p = map_tile_id_from_packet p
   \<and> bw_minute_bucket (timestamp p) = map_minute_bucket (timestamp p)"
proof -
  obtain w q v h c where n: "bw_wind_norm p = Fin w" "bw_precip_norm p = Fin q"
    "bw_visibility_norm p = Fin v" "bw_heat_norm p = Fin h" "bw_cloud_norm p = Fin c"
    using bw_norms_in [of p] by (auto simp: d_in_def)
  from bw_primary_max [OF this] obtain m where "bw_norm_of p (bw_primary_hazard p) = Fin m"
    "w \<le> m \<and> q \<le> m \<and> v \<le> m \<and> c \<le> m \<and> h \<le> m" by blast
  with n bw_score_in [of p] show ?thesis by (simp add: bw_copies(1,4))
qed

section \<open>The grouping loop\<close>

definition valid_packets :: "'j json_lib \<Rightarrow> 'j envelope list \<Rightarrow> ('j envelope \<times> weather_packet) list" where
  "valid_packets J es = List.map_filter
     (\<lambda>e. map_option (Pair e) (weather_packet_from_envelope J e)) es"

definition tile_of :: "weather_packet \<Rightarrow> string" where
  "tile_of p = the (bw_tile_id_from_packet p)"

lemma valid_packets_simps [simp]:
  "valid_packets J [] = []"
  "valid_packets J (e # es) = (case weather_packet_from_envelope J e of
     None \<Rightarrow> valid_packets J es | Some p \<Rightarrow> (e, p) # valid_packets J es)"
  by (simp_all add: valid_packets_def map_filter_simps split: option.splits)

text \<open>The loop fails exactly on an undefined tile key, and otherwise runs the four accumulations.\<close>

lemma flush_loop_accumulates:
  "flush_loop J head es st =
     (if \<forall>(e, p)\<in>set (valid_packets J es). bw_tile_id_from_packet p \<noteq> None then
       Some \<lparr>fl_raw = fl_raw st @ map (\<lambda>(e, p). raw_row_of J head e p) (valid_packets J es),
         fl_aggregate = smap_accumulate (\<lambda>(e, p). aggregate_key p) (\<lambda>(e, p) ps. ps @ [p]) []
           (valid_packets J es) (fl_aggregate st),
         fl_tile = smap_accumulate (\<lambda>(e, p). tile_key (tile_of p) p) (\<lambda>(e, p). tile_step p)
           tile_acc_init (valid_packets J es) (fl_tile st),
         fl_route = smap_accumulate (\<lambda>(e, p). bw_route_key e (tile_of p) p) (\<lambda>(e, p). route_step p)
           route_acc_init (valid_packets J es) (fl_route st)\<rparr>
      else None)"
proof (induction es arbitrary: st)
  case (Cons e es)
  show ?case
  proof (cases "weather_packet_from_envelope J e")
    case None
    then show ?thesis by (simp add: flush_step_def Cons.IH)
  next
    case (Some p)
    show ?thesis
    proof (cases "bw_tile_id_from_packet p")
      case None
      with Some show ?thesis by (simp add: flush_step_def)
    next
      case (Some t)
      with \<open>weather_packet_from_envelope J e = Some p\<close>
      show ?thesis by (simp add: flush_step_def tile_of_def Cons.IH)
    qed
  qed
qed simp

lemma fold_packets: "fold (\<lambda>(e, p) ps. ps @ [p]) xs ys = ys @ map snd xs"
  by (induction xs arbitrary: ys) auto

lemma tile_step_count: "tl_sample_count (fold (\<lambda>(e, p). tile_step p) xs a) = tl_sample_count a + length xs"
  by (induction xs arbitrary: a) (auto simp: tile_step_def Let_def)

lemma route_step_count: "ra_sample_count (fold (\<lambda>(e, p). route_step p) xs a) = ra_sample_count a + length xs"
  by (induction xs arbitrary: a) (auto simp: route_step_def Let_def)

text \<open>Summing the sizes of the groups counts every element once.\<close>

lemma sum_group_sizes:
  "finite S \<Longrightarrow> key ` set xs \<subseteq> S \<Longrightarrow> (\<Sum>k\<in>S. length (filter (\<lambda>x. key x = k) xs)) = length xs"
proof (induction xs)
  case (Cons x xs)
  have "(\<Sum>k\<in>S. length (filter (\<lambda>y. key y = k) (x # xs)))
      = (\<Sum>k\<in>S. (if key x = k then 1 else 0) + length (filter (\<lambda>y. key y = k) xs))"
    by (intro sum.cong) auto
  also have "\<dots> = 1 + length xs"
    using Cons by (simp add: sum.distrib sum.delta)
  finally show ?case by simp
qed simp

lemma sum_over_entries:
  fixes size :: "'v \<Rightarrow> nat"
  assumes "\<And>k v. (k, v) \<in> set (smap_accumulate key step dflt xs []) \<Longrightarrow>
      size v = length (filter (\<lambda>x. key x = k) xs)"
  shows "sum_list (map (\<lambda>(k, v). size v) (smap_accumulate key step dflt xs [])) = length xs"
proof -
  let ?m = "smap_accumulate key step dflt xs []"
  have keys: "map fst ?m = sorted_list_of_set (key ` set xs)" by (rule smap_accumulate_keys)
  have "sum_list (map (\<lambda>(k, v). size v) ?m)
      = sum_list (map (\<lambda>k. length (filter (\<lambda>x. key x = k) xs)) (map fst ?m))"
    unfolding map_map comp_def by (intro arg_cong [where f = sum_list] map_cong) (auto simp: assms)
  also have "\<dots> = (\<Sum>k\<in>key ` set xs. length (filter (\<lambda>x. key x = k) xs))"
    by (simp add: keys sum_list_distinct_conv_sum_set)
  also have "\<dots> = length xs" by (rule sum_group_sizes) auto
  finally show ?thesis .
qed

text \<open>An entry of the accumulated map never belongs to an empty group.\<close>

lemma group_nonempty:
  "(k, v) \<in> set (smap_accumulate key step dflt xs []) \<Longrightarrow> filter (\<lambda>x. key x = k) xs \<noteq> []"
  using smap_accumulate_group [of k v key step dflt xs] by (auto simp: filter_empty_conv)

section \<open>What the groups hold\<close>

lemma temp_fold_bounds:
  "\<forall>p\<in>set ps. \<not> is_nan (temperature p) \<Longrightarrow> \<not> is_nan (tm_min a) \<Longrightarrow> \<not> is_nan (tm_max a) \<Longrightarrow>
   d_le (tm_min (fold temp_step ps a)) (tm_min a) \<and> d_le (tm_max a) (tm_max (fold temp_step ps a))
   \<and> (\<forall>p\<in>set ps. d_le (tm_min (fold temp_step ps a)) (temperature p)
        \<and> d_le (temperature p) (tm_max (fold temp_step ps a)))"
proof (induction ps arbitrary: a)
  case Nil
  then show ?case by (cases "tm_min a"; cases "tm_max a") auto
next
  case (Cons p ps)
  have m: "\<not> is_nan (d_min x y) \<and> d_le (d_min x y) x \<and> d_le (d_min x y) y"
    and M: "\<not> is_nan (d_max x y) \<and> d_le x (d_max x y) \<and> d_le y (d_max x y)"
    if "\<not> is_nan x" "\<not> is_nan y" for x y
    using that by (cases x; cases y; auto simp: d_min_def d_max_def)+
  have tr: "d_le x y \<Longrightarrow> d_le y z \<Longrightarrow> d_le x z" for x y z by (cases x; cases y; cases z) auto
  let ?a = "temp_step p a"
  have 1: "\<not> is_nan (tm_min ?a)" "\<not> is_nan (tm_max ?a)" "d_le (tm_min ?a) (tm_min a)"
    "d_le (tm_min ?a) (temperature p)" "d_le (tm_max a) (tm_max ?a)" "d_le (temperature p) (tm_max ?a)"
    using Cons.prems m [of "tm_min a" "temperature p"] M [of "tm_max a" "temperature p"]
    by (simp_all add: temp_step_def)
  with Cons.IH [of ?a] Cons.prems(1) show ?case by (auto intro: tr)
qed

text \<open>The hazard kept for a route segment is that of a worst packet of the segment.\<close>

lemma route_fold_worst:
  "ps \<noteq> [] \<or> ra_primary_hazard a = bw_primary_hazard p0 \<and> ra_max_hazard a = bw_hazard_score p0 \<Longrightarrow>
   ps \<noteq> [] \<and> ra_max_hazard a = Fin (-1) \<or> ra_primary_hazard a = bw_primary_hazard p0 \<and> ra_max_hazard a = bw_hazard_score p0 \<Longrightarrow>
   \<exists>p. (p \<in> snd ` set ps \<or> p = p0 \<and> ra_max_hazard a = bw_hazard_score p0)
     \<and> ra_primary_hazard (fold (\<lambda>(e, p). route_step p) ps a) = bw_primary_hazard p
     \<and> ra_max_hazard (fold (\<lambda>(e, p). route_step p) ps a) = bw_hazard_score p
     \<and> d_le (ra_max_hazard a) (bw_hazard_score p)
     \<and> (\<forall>q\<in>snd ` set ps. d_le (bw_hazard_score q) (bw_hazard_score p))"
proof (induction ps arbitrary: a p0)
  case Nil
  then show ?case using bw_score_in [of p0] by (auto simp: d_in_def)
next
  case (Cons x ps)
  obtain e p where x: "x = (e, p)" by (cases x)
  obtain s where s: "bw_hazard_score p = Fin s" "0 \<le> s" using bw_score_in [of p] by (auto simp: d_in_def)
  show ?case
  proof (cases "d_gt (bw_hazard_score p) (ra_max_hazard a)")
    case True
    then have n: "ra_primary_hazard (route_step p a) = bw_primary_hazard p"
      "ra_max_hazard (route_step p a) = bw_hazard_score p"
      by (simp_all add: route_step_def Let_def)
    from Cons.IH [of "route_step p a" p] n obtain r where
      r: "r \<in> snd ` set ps \<or> r = p"
        "ra_primary_hazard (fold (\<lambda>(e, p). route_step p) ps (route_step p a)) = bw_primary_hazard r"
        "ra_max_hazard (fold (\<lambda>(e, p). route_step p) ps (route_step p a)) = bw_hazard_score r"
        "d_le (bw_hazard_score p) (bw_hazard_score r)"
        "\<forall>q\<in>snd ` set ps. d_le (bw_hazard_score q) (bw_hazard_score r)" by auto
    have "d_le (ra_max_hazard a) (bw_hazard_score r)"
      using True r(4) s by (cases "ra_max_hazard a"; cases "bw_hazard_score r") auto
    with r x show ?thesis by (intro exI [of _ r]) auto
  next
    case False
    have a: "ra_primary_hazard a = bw_primary_hazard p0 \<and> ra_max_hazard a = bw_hazard_score p0"
      using Cons.prems(2) False s by auto
    have n: "ra_primary_hazard (route_step p a) = bw_primary_hazard p0"
      "ra_max_hazard (route_step p a) = bw_hazard_score p0"
      using a False by (simp_all add: route_step_def Let_def)
    obtain t where t: "bw_hazard_score p0 = Fin t" using bw_score_in [of p0] by (auto simp: d_in_def)
    from Cons.IH [of "route_step p a" p0] n obtain r where
      r: "r \<in> snd ` set ps \<or> r = p0"
        "ra_primary_hazard (fold (\<lambda>(e, p). route_step p) ps (route_step p a)) = bw_primary_hazard r"
        "ra_max_hazard (fold (\<lambda>(e, p). route_step p) ps (route_step p a)) = bw_hazard_score r"
        "d_le (bw_hazard_score p0) (bw_hazard_score r)"
        "\<forall>q\<in>snd ` set ps. d_le (bw_hazard_score q) (bw_hazard_score r)" by auto
    have "d_le (bw_hazard_score p) (bw_hazard_score r)"
      using False a r(4) s t by (cases "bw_hazard_score r") auto
    with r x a show ?thesis by (intro exI [of _ r]) auto
  qed
qed

end
