(* ===== verification/Batch_Flush.thy ===== *)
theory Batch_Flush
  imports Batch_Groups
begin

text \<open>The rows of one \<open>flushBatch\<close>, as properties of the packets of the batch.\<close>

definition ag_key :: "aggregate_row \<Rightarrow> city_key" where
  "ag_key r = (ag_bucket_start r, ag_continent r, ag_country r, ag_region r, ag_city r)"

definition ta_key :: "tile_aggregate_row \<Rightarrow> city_key" where
  "ta_key r = (ta_bucket_start r, ta_tile_id r, ta_continent r, ta_country r, ta_region r)"

definition ro_key :: "route_risk_row \<Rightarrow> route_key" where
  "ro_key r = (ro_bucket_start r, ro_route_id r, ro_segment_id r, ro_region r)"

lemma aggregate_row_key:
  "ps \<noteq> [] \<Longrightarrow> \<exists>r. aggregate_row_of (k, ps) = [r] \<and> ag_key r = k \<and> ag_observation_count r = length ps"
  by (cases k; cases ps) (auto simp: aggregate_row_of_def ag_key_def Let_def)

lemma tile_row_key:
  "tl_sample_count a \<noteq> 0 \<Longrightarrow> \<exists>r. tile_row_of (k, a) = [r] \<and> ta_key r = k \<and> ta_sample_count r = tl_sample_count a"
  by (cases k) (auto simp: tile_row_of_def ta_key_def Let_def)

lemma route_row_key:
  "ra_sample_count a \<noteq> 0 \<Longrightarrow> \<exists>r. route_row_of (k, a) = [r] \<and> ro_key r = k \<and> ro_primary_hazard r = ra_primary_hazard a"
  by (cases k) (auto simp: route_row_of_def ro_key_def Let_def)

text \<open>A map whose every entry yields one row with the entry's key: rows follow the entries.\<close>

lemma one_row_each:
  fixes num :: "'r \<Rightarrow> 'n" and sz :: "'v \<Rightarrow> 'n"
  assumes "\<And>k v. (k, v) \<in> set m \<Longrightarrow> \<exists>r. f (k, v) = [r] \<and> key r = k \<and> num r = sz v"
  shows "map key (concat (map f m)) = map fst m
    \<and> map num (concat (map f m)) = map (\<lambda>(k, v). sz v) m
    \<and> (r \<in> set (concat (map f m)) \<longrightarrow> (\<exists>v. (key r, v) \<in> set m \<and> f (key r, v) = [r]))"
  using assms
proof (induction m)
  case (Cons kv m)
  obtain k v where kv: "kv = (k, v)" by (cases kv)
  obtain r' where r': "f (k, v) = [r']" "key r' = k" "num r' = sz v"
    using Cons.prems [of k v] kv by auto
  show ?case using Cons.IH [OF Cons.prems] r' kv by auto
qed simp

lemma flush_init_accumulates:
  assumes "flush_loop J head es flush_init = Some st"
  defines "vs \<equiv> valid_packets J es"
  shows "fl_raw st = map (\<lambda>(e, p). raw_row_of J head e p) vs"
    and "fl_aggregate st = smap_accumulate (\<lambda>(e, p). aggregate_key p) (\<lambda>(e, p) ps. ps @ [p]) [] vs []"
    and "fl_tile st = smap_accumulate (\<lambda>(e, p). tile_key (tile_of p) p) (\<lambda>(e, p). tile_step p) tile_acc_init vs []"
    and "fl_route st = smap_accumulate (\<lambda>(e, p). bw_route_key e (tile_of p) p) (\<lambda>(e, p). route_step p) route_acc_init vs []"
  using assms(1) by (auto simp: flush_loop_accumulates flush_init_def vs_def split: if_splits)

lemma aggregate_entry:
  assumes "(k, ps) \<in> set (smap_accumulate (\<lambda>(e, p). aggregate_key p) (\<lambda>(e, p) ps. ps @ [p]) [] vs [])"
  shows "ps = map snd (filter (\<lambda>x. (case x of (e, p) \<Rightarrow> aggregate_key p) = k) vs)" "ps \<noteq> []"
  using smap_accumulate_group [OF assms] group_nonempty [OF assms] by (simp_all add: fold_packets)

lemma tile_entry:
  assumes "(k, a) \<in> set (smap_accumulate (\<lambda>(e, p). tile_key (tile_of p) p) (\<lambda>(e, p). tile_step p) tile_acc_init vs [])"
  shows "tl_sample_count a = length (filter (\<lambda>x. (case x of (e, p) \<Rightarrow> tile_key (tile_of p) p) = k) vs)"
    "tl_sample_count a \<noteq> 0"
  using smap_accumulate_group [OF assms] group_nonempty [OF assms]
  by (simp_all add: tile_step_count tile_acc_init_def)

lemma route_entry:
  assumes "(k, a) \<in> set (smap_accumulate (\<lambda>(e, p). bw_route_key e (tile_of p) p) (\<lambda>(e, p). route_step p) route_acc_init vs [])"
  shows "a = fold (\<lambda>(e, p). route_step p) (filter (\<lambda>x. (case x of (e, p) \<Rightarrow> bw_route_key e (tile_of p) p) = k) vs) route_acc_init"
    "ra_sample_count a \<noteq> 0" "filter (\<lambda>x. (case x of (e, p) \<Rightarrow> bw_route_key e (tile_of p) p) = k) vs \<noteq> []"
  using smap_accumulate_group [OF assms] group_nonempty [OF assms]
  by (simp_all add: route_step_count route_acc_init_def)

lemma route_fold_init:
  assumes "ps \<noteq> []"
  shows "\<exists>q\<in>snd ` set ps. ra_primary_hazard (fold (\<lambda>(e, p). route_step p) ps route_acc_init) = bw_primary_hazard q
    \<and> (\<forall>q'\<in>snd ` set ps. d_le (bw_hazard_score q') (bw_hazard_score q))"
proof -
  have ne: "Fin (-1) \<noteq> bw_hazard_score p" for p using bw_score_in [of p] by (auto simp: d_in_def)
  have "ra_max_hazard route_acc_init = Fin (-1)" by (simp add: route_acc_init_def)
  with route_fold_worst [of ps route_acc_init p] assms ne show ?thesis by metis
qed

lemma flush_agg_rows:
  assumes "flush_loop J head es flush_init = Some st"
  shows "map ag_key (concat (map aggregate_row_of (fl_aggregate st))) = map fst (fl_aggregate st)
    \<and> map ag_observation_count (concat (map aggregate_row_of (fl_aggregate st)))
      = map (\<lambda>(k, v). length v) (fl_aggregate st)
    \<and> (r \<in> set (concat (map aggregate_row_of (fl_aggregate st))) \<longrightarrow>
      (\<exists>v. (ag_key r, v) \<in> set (fl_aggregate st) \<and> aggregate_row_of (ag_key r, v) = [r]))"
  by (rule one_row_each) (unfold flush_init_accumulates(2) [OF assms],
      rule aggregate_row_key, rule aggregate_entry(2))

lemma flush_tile_rows:
  assumes "flush_loop J head es flush_init = Some st"
  shows "map ta_key (concat (map tile_row_of (fl_tile st))) = map fst (fl_tile st)
    \<and> map ta_sample_count (concat (map tile_row_of (fl_tile st)))
      = map (\<lambda>(k, v). tl_sample_count v) (fl_tile st)
    \<and> (r \<in> set (concat (map tile_row_of (fl_tile st))) \<longrightarrow>
      (\<exists>v. (ta_key r, v) \<in> set (fl_tile st) \<and> tile_row_of (ta_key r, v) = [r]))"
  by (rule one_row_each) (unfold flush_init_accumulates(3) [OF assms],
      rule tile_row_key, rule tile_entry(2))

lemma flush_route_rows:
  assumes "flush_loop J head es flush_init = Some st"
  shows "map ro_key (concat (map route_row_of (fl_route st))) = map fst (fl_route st)
    \<and> map ro_primary_hazard (concat (map route_row_of (fl_route st)))
      = map (\<lambda>(k, v). ra_primary_hazard v) (fl_route st)
    \<and> (r \<in> set (concat (map route_row_of (fl_route st))) \<longrightarrow>
      (\<exists>v. (ro_key r, v) \<in> set (fl_route st) \<and> route_row_of (ro_key r, v) = [r]))"
  by (rule one_row_each) (unfold flush_init_accumulates(4) [OF assms],
      rule route_row_key, rule route_entry(2))

text \<open>
  C12: conservation.  When the loop over the batch is defined, every valid envelope gives one
  raw row; the city, tile and route rows are one per key that occurs, in key order; and the
  observation counts of the city rows, like the sample counts of the tile rows, add up to
  the number of valid envelopes: no packet is dropped or counted twice.
\<close>

theorem flush_conserves:
  assumes "flush_loop J head es flush_init = Some st" "flush_rows st = (raw, agg, tile, rte)"
    and "vs = valid_packets J es"
  shows "length raw = length vs
    \<and> map ag_key agg = sorted_list_of_set ((\<lambda>(e, p). aggregate_key p) ` set vs)
    \<and> sum_list (map ag_observation_count agg) = length vs
    \<and> map ta_key tile = sorted_list_of_set ((\<lambda>(e, p). tile_key (tile_of p) p) ` set vs)
    \<and> sum_list (map ta_sample_count tile) = length vs
    \<and> map ro_key rte = sorted_list_of_set ((\<lambda>(e, p). bw_route_key e (tile_of p) p) ` set vs)"
proof -
  note acc = flush_init_accumulates [OF assms(1), folded assms(3)]
  have rows: "raw = fl_raw st" "agg = concat (map aggregate_row_of (fl_aggregate st))"
    "tile = concat (map tile_row_of (fl_tile st))" "rte = concat (map route_row_of (fl_route st))"
    using assms(2) by (simp_all add: flush_rows_def)
  have "sum_list (map (\<lambda>(k, v). length v) (fl_aggregate st)) = length vs"
    unfolding acc(2)
    by (rule sum_over_entries) (metis aggregate_entry(1) length_map)
  moreover have "sum_list (map (\<lambda>(k, v). tl_sample_count v) (fl_tile st)) = length vs"
    unfolding acc(3) by (rule sum_over_entries) (rule tile_entry(1))
  moreover have "map fst (fl_aggregate st) = sorted_list_of_set ((\<lambda>(e, p). aggregate_key p) ` set vs)"
    "map fst (fl_tile st) = sorted_list_of_set ((\<lambda>(e, p). tile_key (tile_of p) p) ` set vs)"
    "map fst (fl_route st) = sorted_list_of_set ((\<lambda>(e, p). bw_route_key e (tile_of p) p) ` set vs)"
    "length (fl_raw st) = length vs"
    by (simp_all only: acc smap_accumulate_keys length_map)
  ultimately show ?thesis
    by (simp only: rows flush_agg_rows [OF assms(1)] flush_tile_rows [OF assms(1)]
        flush_route_rows [OF assms(1)] simp_thms)
qed

lemma demo_valid: "valid_packets demo_json demo_batch = [(demo_envelope, demo_packet)]"
  by (simp add: demo_batch_def demo_read)

lemma flush_conserves_witness:
  "case flush_loop demo_json demo_head demo_batch flush_init of None \<Rightarrow> False
   | Some st \<Rightarrow> (case flush_rows st of (raw, agg, tile, rte) \<Rightarrow>
       length raw = 1 \<and> sum_list (map ag_observation_count agg) = 1
       \<and> map ag_key agg = [(60000, ''Asia'', ''India'', ''south_india'', ''Kochi'')]
       \<and> sum_list (map ta_sample_count tile) = 1)"
proof -
  obtain st where st: "flush_loop demo_json demo_head demo_batch flush_init = Some st" by (rule demo_flush)
  obtain raw agg tile rte where rows: "flush_rows st = (raw, agg, tile, rte)" by (cases "flush_rows st")
  have "aggregate_key demo_packet = (60000, ''Asia'', ''India'', ''south_india'', ''Kochi'')"
    by (simp add: aggregate_key_def demo_packet_def packet_init_def bw_minute_bucket_def trunc_div_def)
  then show ?thesis
    using flush_conserves [OF st rows refl] unfolding demo_valid by (simp add: st rows)
qed

text \<open>
  C13: the extremes.  When no temperature is NaN, the minimum and maximum of a city row bound
  the temperature of every packet counted in it, and the primary hazard of a route row is
  the primary hazard of a packet of that segment whose score no packet of the segment
  exceeds.
\<close>

theorem flush_extremes:
  assumes "flush_loop J head es flush_init = Some st" "flush_rows st = (raw, agg, tile, rte)"
    and "(e, p) \<in> set (valid_packets J es)"
    and "\<forall>(e', p')\<in>set (valid_packets J es). \<not> is_nan (temperature p')"
  shows "(r \<in> set agg \<longrightarrow> ag_key r = aggregate_key p \<longrightarrow>
       d_le (ag_min_temperature r) (temperature p) \<and> d_le (temperature p) (ag_max_temperature r))
    \<and> (s \<in> set rte \<longrightarrow> ro_key s = bw_route_key e (tile_of p) p \<longrightarrow>
       (\<exists>(e', q)\<in>set (valid_packets J es). bw_route_key e' (tile_of q) q = ro_key s
          \<and> ro_primary_hazard s = bw_primary_hazard q \<and> d_le (bw_hazard_score p) (bw_hazard_score q)))"
proof (intro conjI impI)
  note acc = flush_init_accumulates [OF assms(1)]
  have rows: "agg = concat (map aggregate_row_of (fl_aggregate st))"
    "rte = concat (map route_row_of (fl_route st))"
    using assms(2) by (simp_all add: flush_rows_def)
  {
    assume "r \<in> set agg" and k: "ag_key r = aggregate_key p"
    then obtain ps where ps: "(ag_key r, ps) \<in> set (fl_aggregate st)" "aggregate_row_of (ag_key r, ps) = [r]"
      using flush_agg_rows [OF assms(1)] rows by blast
    note en = aggregate_entry [OF ps(1) [unfolded acc(2)]]
    have in_ps: "p \<in> set ps" using assms(3) by (force simp: en(1) k)
    have nan: "\<forall>q\<in>set ps. \<not> is_nan (temperature q)" using assms(4) by (auto simp: en(1))
    obtain f ps' where f: "ps = f # ps'" using en(2) by (cases ps) auto
    let ?a = "\<lparr>tm_min = temperature f, tm_max = temperature f, tm_sum = Fin 0,
        tm_sum_humidity = Fin 0, tm_sum_wind = Fin 0\<rparr>"
    have "ag_min_temperature r = tm_min (fold temp_step ps ?a)"
      "ag_max_temperature r = tm_max (fold temp_step ps ?a)"
      using ps(2) f by (cases "ag_key r"; auto simp: aggregate_row_of_def Let_def)+
    then show "d_le (ag_min_temperature r) (temperature p)" "d_le (temperature p) (ag_max_temperature r)"
      using temp_fold_bounds [OF nan, of ?a] nan f in_ps by auto
  next
    assume "s \<in> set rte" and k: "ro_key s = bw_route_key e (tile_of p) p"
    then obtain a where a: "(ro_key s, a) \<in> set (fl_route st)" "route_row_of (ro_key s, a) = [s]"
      using flush_route_rows [OF assms(1)] rows by blast
    let ?g = "filter (\<lambda>x. (case x of (e, p) \<Rightarrow> bw_route_key e (tile_of p) p) = ro_key s) (valid_packets J es)"
    note en = route_entry [OF a(1) [unfolded acc(4)]]
    obtain q where q: "q \<in> snd ` set ?g" "ra_primary_hazard a = bw_primary_hazard q"
      "\<forall>q'\<in>snd ` set ?g. d_le (bw_hazard_score q') (bw_hazard_score q)"
      using route_fold_init [OF en(3), folded en(1)] by (elim bexE conjE)
    from q(1) obtain x where x: "x \<in> set ?g" "q = snd x" by (rule imageE)
    have q': "(fst x, q) \<in> set ?g" using x(1) unfolding x(2) prod.collapse .
    have "(e, p) \<in> set ?g" using assms(3) k by simp
    then have "d_le (bw_hazard_score p) (bw_hazard_score q)" using q(3) image_eqI [of p snd] by simp
    moreover have "(fst x, q) \<in> set (valid_packets J es)" "bw_route_key (fst x) (tile_of q) q = ro_key s"
      using q' by simp_all
    moreover have "ro_primary_hazard s = bw_primary_hazard q"
      using route_row_key [OF en(2), of "ro_key s"] a(2) q(2) by auto
    ultimately show "\<exists>(e', q)\<in>set (valid_packets J es). bw_route_key e' (tile_of q) q = ro_key s
        \<and> ro_primary_hazard s = bw_primary_hazard q \<and> d_le (bw_hazard_score p) (bw_hazard_score q)"
      by (intro bexI [of _ "(fst x, q)"]) simp_all
  }
qed

lemma flush_extremes_witness:
  "case flush_loop demo_json demo_head demo_batch flush_init of None \<Rightarrow> False
   | Some st \<Rightarrow> (case flush_rows st of (raw, agg, tile, rte) \<Rightarrow>
       agg \<noteq> [] \<and> d_le (ag_min_temperature (hd agg)) (Fin 30) \<and> d_le (Fin 30) (ag_max_temperature (hd agg)))"
proof -
  obtain st where st: "flush_loop demo_json demo_head demo_batch flush_init = Some st" by (rule demo_flush)
  obtain raw agg tile rte where rows: "flush_rows st = (raw, agg, tile, rte)" by (cases "flush_rows st")
  have "agg = concat (map aggregate_row_of (fl_aggregate st))" using rows by (simp add: flush_rows_def)
  moreover have "map fst (fl_aggregate st) = [aggregate_key demo_packet]"
    by (simp only: flush_init_accumulates(2) [OF st] smap_accumulate_keys demo_valid) simp
  ultimately have keys: "map ag_key agg = [aggregate_key demo_packet]"
    using flush_agg_rows [OF st] by simp
  then obtain r where r: "agg = [r]" "ag_key r = aggregate_key demo_packet" by (cases agg) auto
  have "temperature demo_packet = Fin 30" by (simp add: demo_packet_def packet_init_def)
  with flush_extremes [OF st rows, of demo_envelope demo_packet r] r
  show ?thesis by (simp add: demo_valid st rows)
qed

end
