(* ===== verification/Metrics.thy ===== *)
theory Metrics
  imports Number_Format
begin

text \<open>
  \<open>common/metrics/Metrics.hpp\<close>: the process-wide counters, their text form and the loop that
  serves it.  Counters are \<open>uint64_t\<close> and wrap.  The socket calls of the server thread are
  parameters: their results are arguments, the calls made are the result.
\<close>

record metrics =
  m_messages_processed :: u64
  m_batches_flushed :: u64
  m_db_writes :: u64
  m_write_errors :: u64
  m_backpressure_events :: u64
  m_queue_depth :: u64
  m_region_partitions :: u64
  m_ingestion_latency_sum_ms :: u64
  m_ingestion_latency_count :: u64

definition metrics_init :: metrics where
  "metrics_init = \<lparr>m_messages_processed = 0, m_batches_flushed = 0, m_db_writes = 0,
     m_write_errors = 0, m_backpressure_events = 0, m_queue_depth = 0, m_region_partitions = 0,
     m_ingestion_latency_sum_ms = 0, m_ingestion_latency_count = 0\<rparr>"

definition inc_messages_processed :: "metrics \<Rightarrow> metrics" where
  "inc_messages_processed m = m\<lparr>m_messages_processed := m_messages_processed m + 1\<rparr>"

definition inc_batches_flushed :: "metrics \<Rightarrow> metrics" where
  "inc_batches_flushed m = m\<lparr>m_batches_flushed := m_batches_flushed m + 1\<rparr>"

definition inc_db_writes :: "metrics \<Rightarrow> metrics" where
  "inc_db_writes m = m\<lparr>m_db_writes := m_db_writes m + 1\<rparr>"

definition inc_write_errors :: "metrics \<Rightarrow> metrics" where
  "inc_write_errors m = m\<lparr>m_write_errors := m_write_errors m + 1\<rparr>"

definition inc_backpressure_events :: "metrics \<Rightarrow> metrics" where
  "inc_backpressure_events m = m\<lparr>m_backpressure_events := m_backpressure_events m + 1\<rparr>"

definition set_queue_depth :: "u64 \<Rightarrow> metrics \<Rightarrow> metrics" where
  "set_queue_depth depth m = m\<lparr>m_queue_depth := depth\<rparr>"

definition set_region_partitions :: "u64 \<Rightarrow> metrics \<Rightarrow> metrics" where
  "set_region_partitions parts m = m\<lparr>m_region_partitions := parts\<rparr>"

definition add_ingestion_latency :: "u64 \<Rightarrow> metrics \<Rightarrow> metrics" where
  "add_ingestion_latency ms m =
     m\<lparr>m_ingestion_latency_sum_ms := m_ingestion_latency_sum_ms m + ms,
       m_ingestion_latency_count := m_ingestion_latency_count m + 1\<rparr>"

section \<open>The text form\<close>

definition nl :: string where "nl = [CHR 0x0A]"
definition crlf :: string where "crlf = [CHR 0x0D, CHR 0x0A]"

definition u64_text :: "u64 \<Rightarrow> string" where
  "u64_text w = to_string (uint w)"

definition average_latency :: "metrics \<Rightarrow> double" where
  "average_latency m = (let total = m_ingestion_latency_sum_ms m; count = m_ingestion_latency_count m in
     if 0 < count then d_div (of_size (unat total)) (of_size (unat count)) else Fin 0)"

definition gather :: "metrics \<Rightarrow> string" where
  "gather m =
     ''# HELP weather_messages_processed Total messages processed by writer'' @ nl @
     ''# TYPE weather_messages_processed counter'' @ nl @
     ''weather_messages_processed '' @ u64_text (m_messages_processed m) @ nl @
     ''# HELP weather_batches_flushed Total batches flushed (DB or outbox)'' @ nl @
     ''# TYPE weather_batches_flushed counter'' @ nl @
     ''weather_batches_flushed '' @ u64_text (m_batches_flushed m) @ nl @
     ''# HELP weather_db_writes Total successful DB batch writes'' @ nl @
     ''# TYPE weather_db_writes counter'' @ nl @
     ''weather_db_writes '' @ u64_text (m_db_writes m) @ nl @
     ''# HELP weather_write_errors Total write errors (DB or outbox)'' @ nl @
     ''# TYPE weather_write_errors counter'' @ nl @
     ''weather_write_errors '' @ u64_text (m_write_errors m) @ nl @
     ''# HELP weather_backpressure_events Total backpressure rejections'' @ nl @
     ''# TYPE weather_backpressure_events counter'' @ nl @
     ''weather_backpressure_events '' @ u64_text (m_backpressure_events m) @ nl @
     ''# HELP weather_queue_depth Current queue depth'' @ nl @
     ''# TYPE weather_queue_depth gauge'' @ nl @
     ''weather_queue_depth '' @ u64_text (m_queue_depth m) @ nl @
     ''# HELP weather_region_partitions Number of region partitions in memory'' @ nl @
     ''# TYPE weather_region_partitions gauge'' @ nl @
     ''weather_region_partitions '' @ u64_text (m_region_partitions m) @ nl @
     ''# HELP weather_ingestion_latency_avg_ms Average end-to-end ingestion latency'' @ nl @
     ''# TYPE weather_ingestion_latency_avg_ms gauge'' @ nl @
     ''weather_ingestion_latency_avg_ms '' @ ostream_double (average_latency m) @ nl"

definition metrics_response :: "metrics \<Rightarrow> string" where
  "metrics_response m = (let body = gather m in
     ''HTTP/1.1 200 OK'' @ crlf @
     ''Content-Type: text/plain; version=0.0.4'' @ crlf @
     ''Content-Length: '' @ digits_of (length body) @ crlf @
     ''Connection: close'' @ crlf @ crlf @
     body)"

section \<open>The server thread\<close>

datatype sys_call = Sys_recv int | Sys_send int string | Sys_close int | Sys_sleep_ms nat

text \<open>Set-up: the listening descriptor (None: the thread returns) and the calls made on failure.\<close>

definition metrics_server_setup :: "int \<Rightarrow> int \<Rightarrow> int \<Rightarrow> int option \<times> sys_call list" where
  "metrics_server_setup server_fd bind_result listen_result =
     (if server_fd = -1 then (None, [])
      else if bind_result < 0 then (None, [Sys_close server_fd])
      else if listen_result < 0 then (None, [Sys_close server_fd])
      else (Some server_fd, []))"

text \<open>One iteration of the accept loop; \<open>client\<close> is the result of \<open>accept\<close>, \<open>sent\<close> that of \<open>send\<close>, None
  when the client has closed the connection.  The calls made, and whether the process goes on: nothing
  handles \<open>SIGPIPE\<close>.\<close>

definition metrics_serve :: "metrics \<Rightarrow> int \<Rightarrow> int option \<Rightarrow> sys_call list \<times> bool" where
  "metrics_serve m client sent =
     (if client < 0 then ([Sys_sleep_ms 100], True)
      else (case sent of
          None \<Rightarrow> ([Sys_recv client, Sys_send client (metrics_response m)], False)
        | Some n \<Rightarrow> ([Sys_recv client, Sys_send client (metrics_response m), Sys_close client], True)))"

lemmas metrics_defs = inc_messages_processed_def inc_batches_flushed_def inc_db_writes_def
  inc_write_errors_def inc_backpressure_events_def set_queue_depth_def set_region_partitions_def
  add_ingestion_latency_def

end
