(* ===== verification/Batch_Writer.thy ===== *)
theory Batch_Writer
  imports Batch_Rows Metrics
begin

text \<open>
  The queue and the flush of \<open>common/timescale/TimescaleBatchWriter.hpp\<close>: \<open>submit\<close> with its
  bounded duplicate cache, the batches \<open>run\<close> takes, \<open>flushBatch\<close> with its fallback to the
  outbox file, and \<open>replayOutboxIfPresent\<close>.  The database and the file system are parameters:
  whether a call succeeds is an argument of the operation.
\<close>

section \<open>State\<close>

record 'j batch_writer =
  bw_max_queue_size :: nat
  bw_batch_size :: nat
  bw_pending :: "'j envelope list"
  bw_seen_ids :: "string set"
  bw_id_order :: "string list"

definition batch_writer_new :: "nat \<Rightarrow> nat \<Rightarrow> 'j batch_writer" where
  "batch_writer_new maxQueueSize batchSize = \<lparr>bw_max_queue_size = maxQueueSize,
     bw_batch_size = batchSize, bw_pending = [], bw_seen_ids = {}, bw_id_order = []\<rparr>"

definition seen_capacity :: nat where
  "seen_capacity = 10000"

section \<open>\<open>submit\<close>\<close>

definition bw_remember :: "string \<Rightarrow> 'j batch_writer \<Rightarrow> 'j batch_writer" where
  "bw_remember mid w =
     (let w = (if seen_capacity \<le> card (bw_seen_ids w)
               then w\<lparr>bw_seen_ids := bw_seen_ids w - {hd (bw_id_order w)},
                      bw_id_order := tl (bw_id_order w)\<rparr>
               else w)
      in w\<lparr>bw_seen_ids := insert mid (bw_seen_ids w), bw_id_order := bw_id_order w @ [mid]\<rparr>)"

definition bw_submit :: "'j json_lib \<Rightarrow> 'j envelope \<Rightarrow> 'j batch_writer \<Rightarrow> bool \<times> 'j batch_writer" where
  "bw_submit J e w =
     (if weather_packet_from_envelope J e = None then (False, w)
      else if bw_max_queue_size w \<le> length (bw_pending w) then (False, w)
      else if message_id e \<in> bw_seen_ids w then (True, w)
      else (True, (bw_remember (message_id e) w)\<lparr>bw_pending := bw_pending w @ [e]\<rparr>))"

section \<open>Batches and flushing\<close>

text \<open>What one iteration of \<open>run\<close>, and the final drain, take from the queue.\<close>

definition bw_take_batch :: "'j batch_writer \<Rightarrow> 'j envelope list \<times> 'j batch_writer" where
  "bw_take_batch w = (take (bw_batch_size w) (bw_pending w),
     w\<lparr>bw_pending := drop (bw_batch_size w) (bw_pending w)\<rparr>)"

definition bw_take_all :: "'j batch_writer \<Rightarrow> 'j envelope list \<times> 'j batch_writer" where
  "bw_take_all w = (bw_pending w, w\<lparr>bw_pending := []\<rparr>)"

text \<open>Where batches end up: executed by the database, or appended to the outbox file.\<close>

record sink =
  sk_database :: "string list"
  sk_outbox :: string
  sk_metrics :: metrics

text \<open>
  \<open>flushBatch\<close>; \<open>db_ok\<close> is the result of \<open>executeBatch\<close>, \<open>open_ok\<close> whether the outbox opens,
  \<open>now\<close> the clock.  None: a tile key is undefined.
\<close>

definition flush_batch :: "'j json_lib \<Rightarrow> ('j envelope \<Rightarrow> weather_packet \<Rightarrow> raw_head) \<Rightarrow>
    int \<Rightarrow> bool \<Rightarrow> bool \<Rightarrow> 'j envelope list \<Rightarrow> sink \<Rightarrow> sink option" where
  "flush_batch J head now db_ok open_ok batch s = do {
     st \<leftarrow> flush_loop J head batch flush_init;
     let (raw, agg, tile, rte) = flush_rows st;
     let batchSql = build_batch_sql now raw agg tile rte;
     Some (if db_ok then s\<lparr>sk_database := sk_database s @ [batchSql],
                           sk_metrics := inc_db_writes (sk_metrics s)\<rparr>
           else if \<not> open_ok then s
           else s\<lparr>sk_outbox := sk_outbox s @ batchSql @ endl,
                  sk_metrics := inc_write_errors (sk_metrics s)\<rparr>)
   }"

text \<open>
  \<open>replayOutboxIfPresent\<close>: nothing to do when the file is missing, unreadable or empty; the
  file is emptied only after the database has executed it (and if it reopens for truncation).
\<close>

definition replay_outbox :: "bool \<Rightarrow> bool \<Rightarrow> bool \<Rightarrow> bool \<Rightarrow> sink \<Rightarrow> sink" where
  "replay_outbox present open_ok db_ok truncate_ok s =
     (if \<not> present \<or> \<not> open_ok then s
      else if sk_outbox s = [] then s
      else if db_ok then s\<lparr>sk_database := sk_database s @ [sk_outbox s],
                           sk_outbox := (if truncate_ok then [] else sk_outbox s)\<rparr>
      else s)"

text \<open>One iteration of \<open>run\<close>, and what follows the loop.\<close>

definition bw_run_iteration :: "'j json_lib \<Rightarrow> ('j envelope \<Rightarrow> weather_packet \<Rightarrow> raw_head) \<Rightarrow>
    int \<Rightarrow> bool \<Rightarrow> bool \<Rightarrow> 'j batch_writer \<times> sink \<Rightarrow> ('j batch_writer \<times> sink) option" where
  "bw_run_iteration J head now db_ok open_ok ws =
     (let (w, s) = ws; (batch, w') = bw_take_batch w in
      if batch = [] then Some (w', s)
      else map_option (Pair w') (flush_batch J head now db_ok open_ok batch s))"

definition bw_final_drain :: "'j json_lib \<Rightarrow> ('j envelope \<Rightarrow> weather_packet \<Rightarrow> raw_head) \<Rightarrow>
    int \<Rightarrow> bool \<Rightarrow> bool \<Rightarrow> 'j batch_writer \<times> sink \<Rightarrow> ('j batch_writer \<times> sink) option" where
  "bw_final_drain J head now db_ok open_ok ws =
     (let (w, s) = ws; (batch, w') = bw_take_all w in
      if batch = [] then Some (w', s)
      else map_option (Pair w') (flush_batch J head now db_ok open_ok batch s))"

section \<open>The duplicate cache\<close>

definition bw_inv :: "'j batch_writer \<Rightarrow> bool" where
  "bw_inv w \<longleftrightarrow> distinct (bw_id_order w) \<and> set (bw_id_order w) = bw_seen_ids w
     \<and> length (bw_id_order w) \<le> seen_capacity \<and> length (bw_pending w) \<le> bw_max_queue_size w"

lemma seen_capacity_pos: "0 < seen_capacity"
  by (simp add: seen_capacity_def)

lemma bw_inv_new: "bw_inv (batch_writer_new n b)"
  by (simp add: bw_inv_def batch_writer_new_def)

text \<open>Remembering an id keeps the newest ids, at most the capacity of them.\<close>

definition newest :: "'a list \<Rightarrow> 'a list" where
  "newest xs = drop (length xs - seen_capacity) xs"

lemma newest_short: "length xs \<le> seen_capacity \<Longrightarrow> newest xs = xs"
  by (simp add: newest_def)

lemma newest_length: "length (newest xs) \<le> seen_capacity"
  by (simp add: newest_def)

lemma newest_append: "newest (newest xs @ ys) = newest (xs @ ys)"
  by (simp add: newest_def) (metis (no_types, lifting) add.commute diff_diff_left drop_drop le_add_diff_inverse2
    nat_le_linear diff_is_0_eq drop0 add_0)

lemma bw_remember_order:
  assumes "distinct (bw_id_order w)" "set (bw_id_order w) = bw_seen_ids w"
    "length (bw_id_order w) \<le> seen_capacity"
  shows "bw_id_order (bw_remember mid w) = newest (bw_id_order w @ [mid])"
proof -
  have c: "card (bw_seen_ids w) = length (bw_id_order w)" using assms by (metis distinct_card)
  show ?thesis
  proof (cases "length (bw_id_order w) < seen_capacity")
    case True
    then show ?thesis by (simp add: bw_remember_def c newest_def)
  next
    case False
    then have l: "length (bw_id_order w) = seen_capacity" using assms(3) by simp
    then have "bw_id_order w \<noteq> []" using seen_capacity_pos by auto
    then show ?thesis using l by (cases "bw_id_order w") (simp_all add: bw_remember_def c newest_def)
  qed
qed

lemma bw_remember_seen:
  assumes "distinct (bw_id_order w)" "set (bw_id_order w) = bw_seen_ids w" "mid \<notin> bw_seen_ids w"
  shows "distinct (bw_id_order (bw_remember mid w)) \<and>
    set (bw_id_order (bw_remember mid w)) = bw_seen_ids (bw_remember mid w)"
proof -
  have "distinct (tl (bw_id_order w))" "set (tl (bw_id_order w)) = bw_seen_ids w - {hd (bw_id_order w)}"
    if "bw_id_order w \<noteq> []" using assms that by (cases "bw_id_order w"; auto)+
  moreover have "bw_id_order w \<noteq> []" if "seen_capacity \<le> card (bw_seen_ids w)"
    using that seen_capacity_pos assms(2) by auto
  ultimately show ?thesis using assms by (auto simp: bw_remember_def Let_def)
qed

lemma bw_remember_frame [simp]:
  "bw_pending (bw_remember mid w) = bw_pending w"
  "bw_max_queue_size (bw_remember mid w) = bw_max_queue_size w"
  "bw_batch_size (bw_remember mid w) = bw_batch_size w"
  by (simp_all add: bw_remember_def Let_def)

lemma bw_submit_inv:
  assumes "bw_inv w"
  shows "bw_inv (snd (bw_submit J e w))"
proof -
  let ?r = "bw_remember (message_id e) w"
  have "message_id e \<notin> bw_seen_ids w \<Longrightarrow> length (bw_pending w) < bw_max_queue_size w \<Longrightarrow>
      bw_inv (?r\<lparr>bw_pending := bw_pending w @ [e]\<rparr>)"
    using assms bw_remember_seen [of w "message_id e"] bw_remember_order [of w "message_id e"]
      newest_length [of "bw_id_order w @ [message_id e]"]
    by (simp add: bw_inv_def)
  then show ?thesis using assms by (auto simp: bw_submit_def)
qed

section \<open>Any interleaving of submissions and batches\<close>

datatype 'j bw_op = Submit "'j envelope" | Take_batch | Take_all

text \<open>
  The envelopes that entered the queue, those handed to \<open>flushBatch\<close>, and the final state.
\<close>

fun bw_run :: "'j json_lib \<Rightarrow> 'j bw_op list \<Rightarrow> 'j batch_writer \<Rightarrow>
    'j envelope list \<times> 'j envelope list \<times> 'j batch_writer" where
  "bw_run J [] w = ([], [], w)"
| "bw_run J (Submit e # ops) w =
     (let w1 = snd (bw_submit J e w);
          (acc, del, w2) = bw_run J ops w1
      in (drop (length (bw_pending w)) (bw_pending w1) @ acc, del, w2))"
| "bw_run J (Take_batch # ops) w =
     (let (b, w1) = bw_take_batch w; (acc, del, w2) = bw_run J ops w1 in (acc, b @ del, w2))"
| "bw_run J (Take_all # ops) w =
     (let (b, w1) = bw_take_all w; (acc, del, w2) = bw_run J ops w1 in (acc, b @ del, w2))"

text \<open>Equal identifiers are more than the capacity of the cache apart.\<close>

definition spaced :: "string list \<Rightarrow> bool" where
  "spaced ids \<longleftrightarrow> (\<forall>i j. i < j \<longrightarrow> j < length ids \<longrightarrow> ids ! i = ids ! j \<longrightarrow> i + seen_capacity < j)"

lemma spaced_append:
  assumes "spaced ids" "x \<notin> set (newest ids)"
  shows "spaced (ids @ [x])"
  unfolding spaced_def
proof (intro allI impI)
  fix i j
  assume ij: "i < j" "j < length (ids @ [x])" "(ids @ [x]) ! i = (ids @ [x]) ! j"
  show "i + seen_capacity < j"
  proof (cases "j = length ids")
    case True
    then have x: "ids ! i = x" "i < length ids" using ij by (simp_all add: nth_append)
    show ?thesis
    proof (rule ccontr)
      assume "\<not> i + seen_capacity < j"
      then have "length ids - seen_capacity \<le> i" using True by simp
      then have "ids ! i \<in> set (newest ids)"
        using x(2) unfolding newest_def in_set_conv_nth
        by (intro exI [of _ "i - (length ids - seen_capacity)"]) simp
      with x assms(2) show False by simp
    qed
  next
    case False
    then have "ids ! i = ids ! j" "j < length ids" using ij by (simp_all add: nth_append)
    with assms(1) ij(1) show ?thesis by (simp add: spaced_def)
  qed
qed

lemma bw_submit_step:
  assumes "bw_inv w" "bw_id_order w = newest ids" "spaced ids"
  obtains "snd (bw_submit J e w) = w"
  | "bw_pending (snd (bw_submit J e w)) = bw_pending w @ [e]"
    "bw_id_order (snd (bw_submit J e w)) = newest (ids @ [message_id e])" "spaced (ids @ [message_id e])"
proof (cases "snd (bw_submit J e w) = w")
  case False
  then have n: "message_id e \<notin> bw_seen_ids w"
    "snd (bw_submit J e w) = (bw_remember (message_id e) w)\<lparr>bw_pending := bw_pending w @ [e]\<rparr>"
    by (auto simp: bw_submit_def split: if_splits)
  have "message_id e \<notin> set (newest ids)" using n(1) assms by (simp add: bw_inv_def)
  moreover have "bw_id_order (bw_remember (message_id e) w) = newest (ids @ [message_id e])"
    using assms bw_remember_order [of w "message_id e"] newest_append [of ids "[message_id e]"]
    by (simp add: bw_inv_def)
  ultimately show thesis using that(2) n assms(3) spaced_append by simp
qed

lemma bw_run_correct:
  assumes "bw_inv w" "bw_id_order w = newest ids" "spaced ids" "bw_run J ops w = (acc, del, w')"
  shows "bw_pending w @ acc = del @ bw_pending w' \<and> bw_inv w'
    \<and> bw_id_order w' = newest (ids @ map message_id acc) \<and> spaced (ids @ map message_id acc)"
  using assms
proof (induction ops arbitrary: w ids acc del)
  case Nil
  then show ?case by simp
next
  case (Cons op ops)
  show ?case
  proof (cases op)
    case (Submit e)
    obtain acc1 where r: "bw_run J ops (snd (bw_submit J e w)) = (acc1, del, w')"
      "acc = drop (length (bw_pending w)) (bw_pending (snd (bw_submit J e w))) @ acc1"
      using Cons.prems(4) Submit by (auto simp: Let_def split: prod.splits)
    note inv = bw_submit_inv [OF Cons.prems(1), of J e]
    show ?thesis
    proof (rule bw_submit_step [OF Cons.prems(1-3), of J e])
      assume "snd (bw_submit J e w) = w"
      with Cons.IH [OF Cons.prems(1-3)] r show ?thesis by simp
    next
      assume "bw_pending (snd (bw_submit J e w)) = bw_pending w @ [e]"
        "bw_id_order (snd (bw_submit J e w)) = newest (ids @ [message_id e])" "spaced (ids @ [message_id e])"
      with Cons.IH [OF inv _ _ r(1), of "ids @ [message_id e]"] r(2) show ?thesis by simp
    qed
  next
    case Take_batch
    obtain del1 where r: "bw_run J ops (snd (bw_take_batch w)) = (acc, del1, w')"
      "del = fst (bw_take_batch w) @ del1"
      using Cons.prems(4) Take_batch by (auto simp: Let_def split: prod.splits)
    have "bw_inv (snd (bw_take_batch w))" "bw_id_order (snd (bw_take_batch w)) = newest ids"
      using Cons.prems(1,2) by (auto simp: bw_inv_def bw_take_batch_def)
    from Cons.IH [OF this Cons.prems(3) r(1)] r(2) show ?thesis
      by (simp add: bw_take_batch_def) (metis append.assoc append_take_drop_id)
  next
    case Take_all
    obtain del1 where r: "bw_run J ops (snd (bw_take_all w)) = (acc, del1, w')"
      "del = fst (bw_take_all w) @ del1"
      using Cons.prems(4) Take_all by (auto simp: Let_def split: prod.splits)
    have "bw_inv (snd (bw_take_all w))" "bw_id_order (snd (bw_take_all w)) = newest ids"
      using Cons.prems(1,2) by (simp_all add: bw_inv_def bw_take_all_def)
    from Cons.IH [OF this Cons.prems(3) r(1)] r(2) show ?thesis by (auto simp: bw_take_all_def)
  qed
qed

text \<open>
  C14: however submissions and batches interleave, the envelopes handed to \<open>flushBatch\<close>
  followed by those still pending are exactly the accepted ones in order; the pending queue
  never exceeds its maximum; the duplicate cache holds exactly the newest 10000 accepted ids;
  and two accepted envelopes with the same id are more than 10000 acceptances apart.
\<close>

theorem writer_queue_correct:
  assumes "bw_run J ops (batch_writer_new n b) = (acc, del, w)"
  shows "acc = del @ bw_pending w \<and> length (bw_pending w) \<le> n
    \<and> bw_seen_ids w = set (drop (length acc - 10000) (map message_id acc))
    \<and> \<not> (\<exists>i j. i < j \<and> j < length acc \<and> message_id (acc ! i) = message_id (acc ! j) \<and> j \<le> i + 10000)"
proof -
  have "bw_run J ops w0 = (acc', del', w') \<Longrightarrow> bw_max_queue_size w' = bw_max_queue_size w0" for w0 acc' del' w'
  proof (induction ops arbitrary: w0 acc' del')
    case (Cons op ops)
    then show ?case
      by (cases op) (fastforce simp: Let_def bw_submit_def bw_take_batch_def bw_take_all_def split: prod.splits if_splits)+
  qed simp
  from this [OF assms] have m: "bw_max_queue_size w = n" by (simp add: batch_writer_new_def)
  have "bw_pending (batch_writer_new n b) @ acc = del @ bw_pending w \<and> bw_inv w
      \<and> bw_id_order w = newest ([] @ map message_id acc) \<and> spaced ([] @ map message_id acc)"
    by (rule bw_run_correct [OF bw_inv_new _ _ assms])
      (simp_all add: batch_writer_new_def newest_def spaced_def)
  then have c0: "acc = del @ bw_pending w \<and> bw_inv w \<and> bw_id_order w = newest (map message_id acc)
      \<and> spaced (map message_id acc)"
    unfolding append_Nil batch_writer_new_def batch_writer.simps .
  note c = c0 [THEN conjunct1] c0 [THEN conjunct2, THEN conjunct1]
    c0 [THEN conjunct2, THEN conjunct2, THEN conjunct1] c0 [THEN conjunct2, THEN conjunct2, THEN conjunct2]
  from c have "bw_seen_ids w = set (drop (length acc - 10000) (map message_id acc))"
    by (simp add: bw_inv_def newest_def seen_capacity_def)
  moreover have "length (bw_pending w) \<le> n" using c(2) m by (simp add: bw_inv_def)
  moreover have "\<not> (\<exists>i j. i < j \<and> j < length acc \<and> message_id (acc ! i) = message_id (acc ! j) \<and> j \<le> i + 10000)"
    using c(4) by (auto simp: spaced_def seen_capacity_def not_less [symmetric])
  ultimately show ?thesis using c(1) by blast
qed

lemma writer_queue_correct_witness:
  "case bw_run demo_json [Submit demo_envelope, Submit demo_envelope, Take_batch, Submit demo_envelope]
      (batch_writer_new 2 5) of (acc, del, w) \<Rightarrow>
     acc = [demo_envelope] \<and> acc = del @ bw_pending w \<and> length (bw_pending w) \<le> 2
     \<and> bw_seen_ids w = {message_id demo_envelope}"
proof -
  have v: "weather_packet_from_envelope demo_json demo_envelope \<noteq> None" by code_simp
  obtain acc del w where r: "bw_run demo_json [Submit demo_envelope, Submit demo_envelope, Take_batch,
      Submit demo_envelope] (batch_writer_new 2 5) = (acc, del, w)" by (metis prod_cases3)
  have "acc = [demo_envelope]"
    using r v by (auto simp: bw_submit_def bw_remember_def bw_take_batch_def batch_writer_new_def
        seen_capacity_def)
  with writer_queue_correct [OF r] r show ?thesis by (simp del: bw_run.simps)
qed

section \<open>Where a batch ends up\<close>

datatype 'j sink_op =
    Flush int bool bool "'j envelope list"
  | Replay bool bool bool bool

fun sink_step :: "'j json_lib \<Rightarrow> ('j envelope \<Rightarrow> weather_packet \<Rightarrow> raw_head) \<Rightarrow> 'j sink_op \<Rightarrow>
    sink \<Rightarrow> sink option" where
  "sink_step J head (Flush now db_ok open_ok batch) s = flush_batch J head now db_ok open_ok batch s"
| "sink_step J head (Replay present open_ok db_ok truncate_ok) s =
     Some (replay_outbox present open_ok db_ok truncate_ok s)"

fun sink_run :: "'j json_lib \<Rightarrow> ('j envelope \<Rightarrow> weather_packet \<Rightarrow> raw_head) \<Rightarrow> 'j sink_op list \<Rightarrow>
    sink \<Rightarrow> sink option" where
  "sink_run J head [] s = Some s"
| "sink_run J head (op # ops) s = Option.bind (sink_step J head op s) (sink_run J head ops)"

text \<open>A text is kept if some executed batch or the outbox file contains it.\<close>

definition contains_text :: "string \<Rightarrow> string \<Rightarrow> bool" where
  "contains_text t s \<longleftrightarrow> (\<exists>a b. s = a @ t @ b)"

definition kept :: "string \<Rightarrow> sink \<Rightarrow> bool" where
  "kept t s \<longleftrightarrow> (\<exists>d\<in>set (sk_database s). contains_text t d) \<or> contains_text t (sk_outbox s)"

lemma contains_text_append: "contains_text t s \<Longrightarrow> contains_text t (s @ u)"
  unfolding contains_text_def by (elim exE) (metis append.assoc)

lemma contains_text_self: "contains_text t (a @ t @ b)"
  unfolding contains_text_def by blast

lemma flush_batch_eq:
  assumes "flush_loop J head batch flush_init = Some st" "flush_rows st = (raw, agg, tile, rte)"
    and "sql = build_batch_sql now raw agg tile rte"
  shows "flush_batch J head now db_ok open_ok batch s = Some (
      if db_ok then s\<lparr>sk_database := sk_database s @ [sql], sk_metrics := inc_db_writes (sk_metrics s)\<rparr>
      else if \<not> open_ok then s
      else s\<lparr>sk_outbox := sk_outbox s @ sql @ endl, sk_metrics := inc_write_errors (sk_metrics s)\<rparr>)"
  using assms by (simp add: flush_batch_def)

lemma kept_flush:
  assumes "flush_batch J head now db_ok open_ok batch s = Some s'" "kept t s"
  shows "kept t s'"
proof (cases "flush_loop J head batch flush_init")
  case None
  with assms show ?thesis by (simp add: flush_batch_def)
next
  case (Some st)
  obtain raw agg tile rte where r: "flush_rows st = (raw, agg, tile, rte)" by (cases "flush_rows st")
  show ?thesis using assms flush_batch_eq [OF Some r refl, of now db_ok open_ok s]
    by (cases db_ok; cases open_ok) (auto simp: kept_def contains_text_append)
qed

lemma kept_replay: "kept t s \<Longrightarrow> kept t (replay_outbox present open_ok db_ok truncate_ok s)"
  by (auto simp: replay_outbox_def kept_def)

lemma kept_run: "sink_run J head ops s = Some s' \<Longrightarrow> kept t s \<Longrightarrow> kept t s'"
proof (induction ops arbitrary: s)
  case (Cons op ops)
  then obtain s1 where s1: "sink_step J head op s = Some s1" "sink_run J head ops s1 = Some s'"
    by (auto simp: bind_eq_Some_conv)
  then have "kept t s1" using Cons.prems(2) by (cases op) (auto intro: kept_flush kept_replay)
  with Cons.IH s1(2) show ?case by blast
qed simp

text \<open>
  C15: durability.  A batch flushed while either the database executes it or the outbox opens
  stays in an executed batch or in the outbox file through every later sequence of flushes
  and replays, whether or not those succeed; the success is counted as a database write and
  the fallback as a write error.  If neither works the batch is gone and nothing is counted.
\<close>

theorem flushed_batch_kept:
  assumes "flush_loop J head batch flush_init = Some st" "flush_rows st = (raw, agg, tile, rte)"
    and "flush_batch J head now db_ok open_ok batch s = Some s1"
    and "db_ok \<or> open_ok" "sink_run J head ops s1 = Some s'"
  shows "kept (build_batch_sql now raw agg tile rte) s'
    \<and> sk_metrics s1 = (if db_ok then inc_db_writes (sk_metrics s) else inc_write_errors (sk_metrics s))
    \<and> flush_batch J head now False False batch s = Some s"
proof -
  note f = flush_batch_eq [OF assms(1,2) refl, of now]
  have "kept (build_batch_sql now raw agg tile rte) s1"
    using assms(3,4) f [of db_ok open_ok s] contains_text_self [of "build_batch_sql now raw agg tile rte" "[]" "[]"]
      contains_text_self [of "build_batch_sql now raw agg tile rte" "sk_outbox s" endl]
    by (cases db_ok; cases open_ok) (auto simp: kept_def)
  with kept_run [OF assms(5)] have "kept (build_batch_sql now raw agg tile rte) s'" by blast
  moreover have "sk_metrics s1 = (if db_ok then inc_db_writes (sk_metrics s) else inc_write_errors (sk_metrics s))"
    using assms(3,4) f [of db_ok open_ok s] by (cases db_ok; cases open_ok) auto
  moreover have "flush_batch J head now False False batch s = Some s"
    by (simp add: f)
  ultimately show ?thesis by blast
qed

lemma flushed_batch_kept_witness:
  "\<exists>st sql s'. flush_loop demo_json demo_head demo_batch flush_init = Some st
     \<and> sink_run demo_json demo_head [Replay True True True True]
         \<lparr>sk_database = [], sk_outbox = sql @ endl, sk_metrics = inc_write_errors metrics_init\<rparr> = Some s'
     \<and> kept sql s' \<and> flush_batch demo_json demo_head 7 False False demo_batch s' = Some s'"
proof -
  obtain st where st: "flush_loop demo_json demo_head demo_batch flush_init = Some st" by (rule demo_flush)
  obtain raw agg tile rte where rows: "flush_rows st = (raw, agg, tile, rte)" by (cases "flush_rows st")
  let ?sql = "build_batch_sql 7 raw agg tile rte"
  let ?s0 = "\<lparr>sk_database = [], sk_outbox = [], sk_metrics = metrics_init\<rparr>"
  let ?s1 = "\<lparr>sk_database = [], sk_outbox = ?sql @ endl, sk_metrics = inc_write_errors metrics_init\<rparr>"
  have f: "flush_batch demo_json demo_head 7 False True demo_batch ?s0 = Some ?s1"
    by (simp add: flush_batch_eq [OF st rows refl])
  obtain s' where r: "sink_run demo_json demo_head [Replay True True True True] ?s1 = Some s'" by simp
  from flushed_batch_kept [OF st rows f _ r] have k: "kept ?sql s'" by simp
  have "flush_batch demo_json demo_head 7 False False demo_batch s' = Some s'"
    by (simp add: flush_batch_eq [OF st rows refl])
  with st r k show ?thesis by blast
qed

end
