(* ===== verification/Async_Queue.thy ===== *)
theory Async_Queue
  imports Batch_Writer
begin

text \<open>
  \<open>common/timescale/AsyncQueueWriter.hpp\<close>: the bounded queue partitioned by region, in front
  of the batch writer.  The condition variable only delays \<open>dequeueBatch\<close>, so a call may see
  an empty queue.  Each operation runs under the queue mutex and is one step.
\<close>

record aq_config =
  aq_max_queue_size :: nat
  aq_batch_size :: nat

record aq_metrics =
  aqm_messages_processed :: u64
  aqm_batches_flushed :: u64
  aqm_write_errors :: u64
  aqm_backpressure_events :: u64
  aqm_queue_depth :: u64
  aqm_region_partitions :: u64

type_synonym 'e queues = "(string, 'e list) smap"

record 'j async_queue =
  aq_config :: aq_config
  aq_queues :: "'j envelope queues"
  aq_metrics :: aq_metrics
  aq_global :: metrics

definition async_queue_new :: "aq_config \<Rightarrow> metrics \<Rightarrow> 'j async_queue" where
  "async_queue_new config m = \<lparr>aq_config = config, aq_queues = [],
     aq_metrics = \<lparr>aqm_messages_processed = 0, aqm_batches_flushed = 0, aqm_write_errors = 0,
       aqm_backpressure_events = 0, aqm_queue_depth = 0, aqm_region_partitions = 0\<rparr>,
     aq_global = m\<rparr>"

section \<open>Operations\<close>

definition extract_region :: "'j json_lib \<Rightarrow> 'j envelope \<Rightarrow> string" where
  "extract_region J e =
     (if j_contains J (payload e) ''region'' then
        (case at_get J j_get_string (payload e) ''region'' of
           Some r \<Rightarrow> r
         | None \<Rightarrow> source e)
      else source e)"

definition total_queue_size :: "'e queues \<Rightarrow> nat" where
  "total_queue_size qs = sum_list (map (\<lambda>(rg, queue). length queue) qs)"

definition publish_depth :: "'j async_queue \<Rightarrow> 'j async_queue" where
  "publish_depth a = (let d = of_nat (total_queue_size (aq_queues a)) in
     a\<lparr>aq_metrics := (aq_metrics a)\<lparr>aqm_queue_depth := d\<rparr>, aq_global := set_queue_depth d (aq_global a)\<rparr>)"

definition aq_submit :: "'j json_lib \<Rightarrow> 'j envelope \<Rightarrow> 'j async_queue \<Rightarrow> bool \<times> 'j async_queue" where
  "aq_submit J e a =
     (let totalQueued = total_queue_size (aq_queues a) in
      if aq_max_queue_size (aq_config a) \<le> totalQueued then
        (False, a\<lparr>aq_metrics := (aq_metrics a)\<lparr>aqm_backpressure_events :=
                     aqm_backpressure_events (aq_metrics a) + 1\<rparr>,
                  aq_global := inc_backpressure_events (aq_global a)\<rparr>)
      else
        (True, publish_depth
           (a\<lparr>aq_queues := smap_modify [] (extract_region J e) (\<lambda>q. q @ [e]) (aq_queues a)\<rparr>)))"

text \<open>One pass of the inner \<open>for\<close> over the regions; a queue that becomes empty is erased.\<close>

fun dequeue_pass :: "nat \<Rightarrow> 'e queues \<Rightarrow> 'e list \<Rightarrow> 'e queues \<times> 'e list" where
  "dequeue_pass n [] batch = ([], batch)"
| "dequeue_pass n ((rg, queue) # rest) batch =
     (if length batch < n then
        (case queue of
           [] \<Rightarrow> (let (rest', batch') = dequeue_pass n rest batch in ((rg, []) # rest', batch'))
         | front # queue' \<Rightarrow>
             (let (rest', batch') = dequeue_pass n rest (batch @ [front])
              in (if queue' = [] then rest' else (rg, queue') # rest', batch')))
      else ((rg, queue) # rest, batch))"

text \<open>The outer \<open>while\<close>; it has no bound of its own, so not returning is None.\<close>

partial_function (option) dequeue_loop :: "nat \<Rightarrow> 'e queues \<Rightarrow> 'e list \<Rightarrow> ('e queues \<times> 'e list) option" where
  "dequeue_loop n qs batch =
     (if qs \<noteq> [] \<and> length batch < n
      then (let (qs', batch') = dequeue_pass n qs batch in dequeue_loop n qs' batch')
      else Some (qs, batch))"

definition aq_dequeue_batch :: "'j async_queue \<Rightarrow> ('j envelope list \<times> 'j async_queue) option" where
  "aq_dequeue_batch a = map_option (\<lambda>(qs, batch).
     (batch, let a = publish_depth (a\<lparr>aq_queues := qs\<rparr>); parts = of_nat (length qs) in
        if batch \<noteq> [] then
          a\<lparr>aq_metrics := (aq_metrics a)\<lparr>aqm_region_partitions := parts\<rparr>,
            aq_global := set_region_partitions parts (aq_global a)\<rparr>
        else a))
     (dequeue_loop (aq_batch_size (aq_config a)) (aq_queues a) [])"

definition count_submitted :: "bool \<Rightarrow> 'j async_queue \<Rightarrow> 'j async_queue" where
  "count_submitted ok a =
     (if ok then a\<lparr>aq_metrics := (aq_metrics a)\<lparr>aqm_messages_processed :=
                     aqm_messages_processed (aq_metrics a) + 1\<rparr>,
                   aq_global := inc_messages_processed (aq_global a)\<rparr>
      else a\<lparr>aq_metrics := (aq_metrics a)\<lparr>aqm_write_errors := aqm_write_errors (aq_metrics a) + 1\<rparr>,
             aq_global := inc_write_errors (aq_global a)\<rparr>)"

primrec submit_each :: "'j json_lib \<Rightarrow> 'j envelope list \<Rightarrow> 'j async_queue \<times> 'j batch_writer \<Rightarrow>
    'j async_queue \<times> 'j batch_writer" where
  "submit_each J [] aw = aw"
| "submit_each J (e # es) aw =
     (let (ok, w) = bw_submit J e (snd aw) in submit_each J es (count_submitted ok (fst aw), w))"

definition aq_submit_batch :: "'j json_lib \<Rightarrow> 'j envelope list \<Rightarrow> 'j async_queue \<times> 'j batch_writer \<Rightarrow>
    'j async_queue \<times> 'j batch_writer" where
  "aq_submit_batch J batch aw =
     (let (a, w) = submit_each J batch aw in
      (a\<lparr>aq_metrics := (aq_metrics a)\<lparr>aqm_batches_flushed := aqm_batches_flushed (aq_metrics a) + 1\<rparr>,
         aq_global := inc_batches_flushed (aq_global a)\<rparr>, w))"

definition aq_drain_and_submit :: "'j json_lib \<Rightarrow> 'j async_queue \<times> 'j batch_writer \<Rightarrow>
    'j async_queue \<times> 'j batch_writer" where
  "aq_drain_and_submit J aw =
     (let finalBatch = concat (map snd (aq_queues (fst aw)));
          a = (fst aw)\<lparr>aq_queues := []\<rparr>
      in if finalBatch \<noteq> [] then aq_submit_batch J finalBatch (a, snd aw) else (a, snd aw))"

text \<open>One iteration of the loop of \<open>run\<close>.\<close>

definition aq_run_iteration :: "'j json_lib \<Rightarrow> 'j async_queue \<times> 'j batch_writer \<Rightarrow>
    ('j async_queue \<times> 'j batch_writer) option" where
  "aq_run_iteration J aw = map_option (\<lambda>(batch, a).
     if batch \<noteq> [] then aq_submit_batch J batch (a, snd aw) else (a, snd aw))
     (aq_dequeue_batch (fst aw))"

section \<open>The queues\<close>

text \<open>Well-formed: sorted regions, and no region without messages.\<close>

definition queues_inv :: "'e queues \<Rightarrow> bool" where
  "queues_inv qs \<longleftrightarrow> smap_inv qs \<and> [] \<notin> snd ` set qs"

definition queue_of :: "'e queues \<Rightarrow> string \<Rightarrow> 'e list" where
  "queue_of qs r = (case map_of qs r of None \<Rightarrow> [] | Some q \<Rightarrow> q)"

lemma total_simps [simp]:
  "total_queue_size [] = 0"
  "total_queue_size ((r, q) # qs) = length q + total_queue_size qs"
  by (simp_all add: total_queue_size_def)

lemma total_pos: "[] \<notin> snd ` set qs \<Longrightarrow> qs \<noteq> [] \<Longrightarrow> 0 < total_queue_size qs"
  by (cases qs) auto

lemma queue_of_le_total: "length (queue_of qs k) \<le> total_queue_size qs"
  by (induction qs) (auto simp: queue_of_def)

lemma queue_of_above: "\<forall>x\<in>set qs. k < fst x \<Longrightarrow> queue_of qs k = []"
  by (induction qs) (auto simp: queue_of_def)

lemma total_update:
  "smap_inv qs \<Longrightarrow> total_queue_size (smap_update k q qs) + length (queue_of qs k) = length q + total_queue_size qs"
proof (induction k q qs rule: smap_update.induct)
  case (2 k q k' q' qs)
  have gt: "\<forall>x\<in>set qs. k' < fst x" and inv: "smap_inv qs" using 2(2) by (auto simp: smap_inv_def)
  consider "k < k'" | "k = k'" | "k' < k" by fastforce
  then show ?case
  proof cases
    case 1
    then have "\<forall>x\<in>set qs. k < fst x" using gt by force
    then have "queue_of qs k = []" by (rule queue_of_above)
    with 1 show ?thesis by (auto simp: queue_of_def split: option.splits)
  next
    case 2
    then show ?thesis by (simp add: queue_of_def)
  next
    case 3
    with "2.IH" inv show ?thesis by (auto simp: queue_of_def)
  qed
qed (simp add: queue_of_def)

lemma total_modify:
  assumes "smap_inv qs"
  shows "total_queue_size (smap_modify [] k (\<lambda>q. q @ [e]) qs) = Suc (total_queue_size qs)"
  using total_update [OF assms, of k "queue_of qs k @ [e]"] queue_of_le_total [of qs k]
  by (simp add: smap_modify_def smap_lookup_def queue_of_def)

text \<open>
  A pass keeps the invariant, takes as many messages as it removes, at least one while there
  is room, and takes from each region a prefix of its queue.
\<close>

lemma dequeue_pass_keys': "fst ` set (fst (dequeue_pass n qs b)) \<subseteq> fst ` set qs"
  by (induction n qs b rule: dequeue_pass.induct)
    (auto simp: split_beta Let_def subset_eq image_iff split: list.split)

lemma dequeue_pass_keys: "dequeue_pass n qs b = (qs', b') \<Longrightarrow> fst ` set qs' \<subseteq> fst ` set qs"
  using dequeue_pass_keys' [of n qs b] by simp

lemma dequeue_pass_inv:
  "dequeue_pass n qs b = (qs', b') \<Longrightarrow> queues_inv qs \<Longrightarrow> queues_inv qs'"
proof (induction n qs b arbitrary: qs' b' rule: dequeue_pass.induct)
  case (2 n rg queue rest b)
  have rest: "queues_inv rest" and lt: "\<forall>k\<in>fst ` set rest. rg < k" and ne: "queue \<noteq> []"
    using "2.prems"(2) by (auto simp: queues_inv_def smap_inv_def)
  show ?case
  proof (cases "length b < n")
    case True
    obtain x q where q: "queue = x # q" using ne by (cases queue) auto
    obtain r' b1 where p: "dequeue_pass n rest (b @ [x]) = (r', b1)" by fastforce
    have "queues_inv r'" using "2.IH"(2) [OF True q p rest] .
    moreover have "\<forall>k\<in>fst ` set r'. rg < k" using lt dequeue_pass_keys [OF p] by blast
    ultimately show ?thesis using "2.prems"(1) True q p
      by (auto simp: queues_inv_def smap_inv_def split: if_splits)
  qed (use 2 in simp)
qed simp

lemma dequeue_pass_total':
  "length (snd (dequeue_pass n qs b)) + total_queue_size (fst (dequeue_pass n qs b))
     = length b + total_queue_size qs
   \<and> length b \<le> length (snd (dequeue_pass n qs b))
   \<and> (length b \<le> n \<longrightarrow> length (snd (dequeue_pass n qs b)) \<le> n)"
  by (induction n qs b rule: dequeue_pass.induct)
    (auto simp: split_beta Let_def split: list.split)

lemma dequeue_pass_total:
  "dequeue_pass n qs b = (qs', b') \<Longrightarrow>
     length b' + total_queue_size qs' = length b + total_queue_size qs \<and> length b \<le> length b'
     \<and> (length b \<le> n \<longrightarrow> length b' \<le> n)"
  using dequeue_pass_total' [of n qs b] by simp

lemma dequeue_pass_progress:
  "dequeue_pass n qs b = (qs', b') \<Longrightarrow> queues_inv qs \<Longrightarrow> qs \<noteq> [] \<Longrightarrow> length b < n \<Longrightarrow>
     total_queue_size qs' < total_queue_size qs"
proof (cases qs)
  case (Cons rq rest)
  obtain r q where rq: "rq = (r, q)" by (cases rq)
  assume a: "dequeue_pass n qs b = (qs', b')" "queues_inv qs" "length b < n"
  obtain x q' where q: "q = x # q'" using a(2) Cons rq by (cases q) (auto simp: queues_inv_def)
  obtain r' b1 where p: "dequeue_pass n rest (b @ [x]) = (r', b1)" by fastforce
  have "b' = b1" using a p Cons rq q by (auto split: if_splits)
  then show ?thesis using dequeue_pass_total [OF p] dequeue_pass_total [OF a(1)] by auto
qed simp

text \<open>Per region, what is taken followed by what stays is what was queued.\<close>

lemma queue_of_Cons: "queue_of ((r, q) # qs) k = (if k = r then q else queue_of qs k)"
  by (simp add: queue_of_def)

lemma dequeue_pass_regions:
  assumes "dequeue_pass n qs b = (qs', b')" "queues_inv qs" "\<forall>(r, q)\<in>set qs. \<forall>e\<in>set q. reg e = r"
  shows "\<exists>t. b' = b @ t \<and> (\<forall>r. filter (\<lambda>e. reg e = r) t @ queue_of qs' r = queue_of qs r)
    \<and> (\<forall>(r, q)\<in>set qs'. \<forall>e\<in>set q. reg e = r)"
  using assms
proof (induction n qs b arbitrary: qs' b' rule: dequeue_pass.induct)
  case (1 n b)
  then show ?case by auto
next
  case (2 n rg queue rest b)
  have rest: "queues_inv rest" and lt: "\<forall>k\<in>fst ` set rest. rg < k" and ne: "queue \<noteq> []"
    using "2.prems"(2) by (auto simp: queues_inv_def smap_inv_def)
  have none: "map_of rest rg = None" using lt by (force simp: map_of_eq_None_iff)
  show ?case
  proof (cases "length b < n")
    case True
    obtain x q where q: "queue = x # q" using ne by (cases queue) auto
    obtain r' b1 where p: "dequeue_pass n rest (b @ [x]) = (r', b1)" by fastforce
    have reg: "\<forall>(r, q)\<in>set rest. \<forall>e\<in>set q. reg e = r" "reg x = rg" "\<forall>e\<in>set q. reg e = rg"
      using "2.prems"(3) q by auto
    obtain t where t: "b1 = (b @ [x]) @ t" "\<forall>r. filter (\<lambda>e. reg e = r) t @ queue_of r' r = queue_of rest r"
      "\<forall>(r, q)\<in>set r'. \<forall>e\<in>set q. reg e = r"
      using "2.IH"(2) [OF True q p rest reg(1)] by blast
    have e: "qs' = (if q = [] then r' else (rg, q) # r')" "b' = b1"
      using "2.prems"(1) True q p by auto
    have nr: "queue_of rest rg = []" using none by (simp add: queue_of_def)
    then have n1: "queue_of r' rg = []" "filter (\<lambda>e. reg e = rg) t = []"
      using t(2) [rule_format, of rg] by auto
    have "b' = b @ (x # t)" using t(1) e by simp
    moreover have "filter (\<lambda>e. reg e = r) (x # t) @ queue_of qs' r = queue_of ((rg, queue) # rest) r" for r
      using t(2) [rule_format, of r] n1 reg(2) by (auto simp: e queue_of_Cons q)
    moreover have "\<forall>(r, q)\<in>set qs'. \<forall>e\<in>set q. reg e = r"
      using t(3) reg(3) by (auto simp: e)
    ultimately show ?thesis by blast
  next
    case False
    with 2 show ?thesis by (intro exI [of _ "[]"]) auto
  qed
qed

text \<open>The loop terminates from a well-formed queue, and its result has the same properties.\<close>

lemma dequeue_loop_correct:
  assumes "queues_inv qs" "length b \<le> n" "\<forall>(r, q)\<in>set qs. \<forall>e\<in>set q. reg e = r"
  shows "\<exists>qs' t. dequeue_loop n qs b = Some (qs', b @ t) \<and> queues_inv qs'
    \<and> length t = min (n - length b) (total_queue_size qs)
    \<and> total_queue_size qs' = total_queue_size qs - length t
    \<and> (\<forall>r. filter (\<lambda>e. reg e = r) t @ queue_of qs' r = queue_of qs r)
    \<and> (\<forall>(r, q)\<in>set qs'. \<forall>e\<in>set q. reg e = r)"
  using assms
proof (induction "total_queue_size qs" arbitrary: qs b rule: less_induct)
  case less
  show ?case
  proof (cases "qs \<noteq> [] \<and> length b < n")
    case True
    obtain qs1 b1 where p: "dequeue_pass n qs b = (qs1, b1)" by fastforce
    note inv1 = dequeue_pass_inv [OF p less.prems(1)]
    note tot = dequeue_pass_total [OF p]
    have lt: "total_queue_size qs1 < total_queue_size qs"
      using dequeue_pass_progress [OF p less.prems(1)] True by blast
    obtain t1 where t1: "b1 = b @ t1" "\<forall>r. filter (\<lambda>e. reg e = r) t1 @ queue_of qs1 r = queue_of qs r"
      "\<forall>(r, q)\<in>set qs1. \<forall>e\<in>set q. reg e = r"
      using dequeue_pass_regions [OF p less.prems(1,3)] by blast
    obtain qs' t2 where r: "dequeue_loop n qs1 b1 = Some (qs', b1 @ t2)" "queues_inv qs'"
      "length t2 = min (n - length b1) (total_queue_size qs1)"
      "total_queue_size qs' = total_queue_size qs1 - length t2"
      "\<forall>r. filter (\<lambda>e. reg e = r) t2 @ queue_of qs' r = queue_of qs1 r"
      "\<forall>(r, q)\<in>set qs'. \<forall>e\<in>set q. reg e = r"
      using less.hyps [OF lt inv1 _ t1(3), of b1] tot less.prems(2) by auto
    have "length b + length t1 \<le> n" "length t1 + total_queue_size qs1 = total_queue_size qs"
      using t1(1) tot less.prems(2) by auto
    then have len: "length (t1 @ t2) = min (n - length b) (total_queue_size qs)"
      "total_queue_size qs' = total_queue_size qs - length (t1 @ t2)"
      using r(3,4) t1(1) by (simp_all add: min_def) (auto split: if_splits)
    have "dequeue_loop n qs b = Some (qs', b @ (t1 @ t2))"
      using True p r(1) t1(1) by (subst dequeue_loop.simps) simp
    moreover note len
    moreover have "\<forall>r. filter (\<lambda>e. reg e = r) (t1 @ t2) @ queue_of qs' r = queue_of qs r"
      using r(5) t1(2) by simp
    ultimately show ?thesis using r(2,6) by blast
  next
    case False
    then have "dequeue_loop n qs b = Some (qs, b @ [])" by (subst dequeue_loop.simps) auto
    moreover have "min (n - length b) (total_queue_size qs) = 0" using False less.prems(2) by auto
    ultimately show ?thesis using less.prems by (intro exI [of _ qs] exI [of _ "[]"]) simp
  qed
qed

section \<open>The invariant of the component\<close>

definition aq_inv :: "'j json_lib \<Rightarrow> 'j async_queue \<Rightarrow> bool" where
  "aq_inv J a \<longleftrightarrow> queues_inv (aq_queues a)
     \<and> (\<forall>(r, q)\<in>set (aq_queues a). \<forall>e\<in>set q. extract_region J e = r)
     \<and> total_queue_size (aq_queues a) \<le> aq_max_queue_size (aq_config a)"

lemma aq_inv_new: "aq_inv J (async_queue_new config m)"
  by (simp add: aq_inv_def async_queue_new_def queues_inv_def smap_inv_def)

lemma publish_depth_frame [simp]:
  "aq_queues (publish_depth a) = aq_queues a" "aq_config (publish_depth a) = aq_config a"
  by (simp_all add: publish_depth_def Let_def)

lemma smap_update_set: "smap_inv m \<Longrightarrow> set (smap_update k v m) \<subseteq> insert (k, v) (set m)"
  by (induction k v m rule: smap_update.induct) (auto simp: smap_inv_def)

lemma queue_of_modify:
  "smap_inv qs \<Longrightarrow> queue_of (smap_modify [] k (\<lambda>q. q @ [e]) qs) r
     = queue_of qs r @ (if r = k then [e] else [])"
  using smap_lookup_update [of qs k _ r]
  by (auto simp: smap_modify_def queue_of_def smap_lookup_def split: option.splits)

lemma aq_submit_step:
  assumes "aq_inv J a" "total_queue_size (aq_queues a) < aq_max_queue_size (aq_config a)"
  shows "\<exists>a'. aq_submit J e a = (True, a') \<and> aq_inv J a' \<and> aq_config a' = aq_config a
    \<and> (\<forall>r. queue_of (aq_queues a') r = queue_of (aq_queues a) r
          @ (if r = extract_region J e then [e] else []))"
proof -
  let ?k = "extract_region J e" and ?qs = "aq_queues a"
  let ?qs' = "smap_modify [] ?k (\<lambda>q. q @ [e]) ?qs"
  have inv: "smap_inv ?qs" "[] \<notin> snd ` set ?qs"
    "\<forall>(r, q)\<in>set ?qs. \<forall>e\<in>set q. extract_region J e = r"
    using assms(1) by (auto simp: aq_inv_def queues_inv_def)
  have sub: "set ?qs' \<subseteq> insert (?k, queue_of ?qs ?k @ [e]) (set ?qs)"
    using smap_update_set [OF inv(1)] by (simp add: smap_modify_def smap_lookup_def queue_of_def)
  have old: "\<forall>x\<in>set (queue_of ?qs ?k). extract_region J x = ?k"
  proof (cases "map_of ?qs ?k")
    case (Some q)
    from map_of_SomeD [OF this] inv(3) have "\<forall>x\<in>set q. extract_region J x = ?k" by (auto dest!: bspec)
    with Some show ?thesis by (simp add: queue_of_def)
  qed (simp add: queue_of_def)
  have "queues_inv ?qs'"
    using inv sub smap_update_sorted [OF inv(1)] by (auto simp: queues_inv_def smap_modify_def)
  moreover have "\<forall>(r, q)\<in>set ?qs'. \<forall>e\<in>set q. extract_region J e = r"
  proof (rule ballI)
    fix x
    assume "x \<in> set ?qs'"
    then have "x = (?k, queue_of ?qs ?k @ [e]) \<or> x \<in> set ?qs" using sub by auto
    then show "case x of (r, q) \<Rightarrow> \<forall>e\<in>set q. extract_region J e = r"
    proof
      assume "x = (?k, queue_of ?qs ?k @ [e])"
      with old show ?thesis by simp
    next
      assume "x \<in> set ?qs"
      with inv(3) show ?thesis by (rule bspec)
    qed
  qed
  moreover have "total_queue_size ?qs' \<le> aq_max_queue_size (aq_config a)"
    using assms(2) by (simp add: total_modify [OF inv(1)])
  ultimately show ?thesis
    using assms(2) by (simp add: aq_submit_def Let_def aq_inv_def queue_of_modify [OF inv(1)])
qed

lemma aq_dequeue_step:
  assumes "aq_inv J a"
  shows "\<exists>b a'. aq_dequeue_batch a = Some (b, a') \<and> aq_inv J a' \<and> aq_config a' = aq_config a
    \<and> length b = min (aq_batch_size (aq_config a)) (total_queue_size (aq_queues a))
    \<and> (\<forall>r. filter (\<lambda>e. extract_region J e = r) b @ queue_of (aq_queues a') r = queue_of (aq_queues a) r)"
proof -
  have inv: "queues_inv (aq_queues a)" "\<forall>(r, q)\<in>set (aq_queues a). \<forall>e\<in>set q. extract_region J e = r"
    using assms by (simp_all add: aq_inv_def)
  from dequeue_loop_correct [OF inv(1) _ inv(2), of "[]" "aq_batch_size (aq_config a)"]
  obtain qs t where "dequeue_loop (aq_batch_size (aq_config a)) (aq_queues a) [] = Some (qs, t)"
    "queues_inv qs" "length t = min (aq_batch_size (aq_config a)) (total_queue_size (aq_queues a))"
    "total_queue_size qs = total_queue_size (aq_queues a) - length t"
    "\<forall>r. filter (\<lambda>e. extract_region J e = r) t @ queue_of qs r = queue_of (aq_queues a) r"
    "\<forall>(r, q)\<in>set qs. \<forall>e\<in>set q. extract_region J e = r"
    by auto
  then show ?thesis using assms by (auto simp: aq_dequeue_batch_def aq_inv_def Let_def)
qed

section \<open>Runs of the queue\<close>

datatype 'j aq_op = Enqueue "'j envelope" | Dequeue

text \<open>The envelopes accepted and those dequeued; None: a dequeue did not return.\<close>

fun aq_run :: "'j json_lib \<Rightarrow> 'j aq_op list \<Rightarrow> 'j async_queue \<Rightarrow>
    ('j envelope list \<times> 'j envelope list \<times> 'j async_queue) option" where
  "aq_run J [] a = Some ([], [], a)"
| "aq_run J (Enqueue e # ops) a =
     (let (ok, a1) = aq_submit J e a in
      map_option (\<lambda>(acc, del, a2). (if ok then e # acc else acc, del, a2)) (aq_run J ops a1))"
| "aq_run J (Dequeue # ops) a =
     Option.bind (aq_dequeue_batch a)
       (\<lambda>(b, a1). map_option (\<lambda>(acc, del, a2). (acc, b @ del, a2)) (aq_run J ops a1))"

lemma aq_submit_full:
  assumes "aq_inv J a" "aq_max_queue_size (aq_config a) \<le> total_queue_size (aq_queues a)"
  shows "\<exists>a'. aq_submit J e a = (False, a') \<and> aq_inv J a' \<and> aq_config a' = aq_config a
    \<and> aq_queues a' = aq_queues a"
  using assms by (auto simp: aq_submit_def Let_def aq_inv_def)

lemma aq_run_correct:
  assumes "aq_inv J a"
  shows "\<exists>acc del a'. aq_run J ops a = Some (acc, del, a') \<and> aq_inv J a' \<and> aq_config a' = aq_config a
    \<and> (\<forall>r. queue_of (aq_queues a) r @ filter (\<lambda>e. extract_region J e = r) acc
         = filter (\<lambda>e. extract_region J e = r) del @ queue_of (aq_queues a') r)"
  using assms
proof (induction ops arbitrary: a)
  case Nil
  then show ?case by simp
next
  case (Cons op ops)
  show ?case
  proof (cases op)
    case (Enqueue e)
    show ?thesis
    proof (cases "total_queue_size (aq_queues a) < aq_max_queue_size (aq_config a)")
      case True
      from aq_submit_step [OF Cons.prems True, of e] obtain a1 where s: "aq_submit J e a = (True, a1)"
        "aq_inv J a1" "aq_config a1 = aq_config a"
        "\<forall>r. queue_of (aq_queues a1) r = queue_of (aq_queues a) r
          @ (if r = extract_region J e then [e] else [])" by blast
      from Cons.IH [OF s(2)] obtain acc del a' where r: "aq_run J ops a1 = Some (acc, del, a')" "aq_inv J a'"
        "aq_config a' = aq_config a1"
        "\<forall>r. queue_of (aq_queues a1) r @ filter (\<lambda>e. extract_region J e = r) acc
         = filter (\<lambda>e. extract_region J e = r) del @ queue_of (aq_queues a') r" by blast
      have "queue_of (aq_queues a) r @ filter (\<lambda>e. extract_region J e = r) (e # acc)
         = filter (\<lambda>e. extract_region J e = r) del @ queue_of (aq_queues a') r" for r
        using r(4) [rule_format, of r] s(4) [rule_format, of r] by (auto split: if_splits)
      with r s Enqueue show ?thesis by simp
    next
      case False
      then have f: "aq_max_queue_size (aq_config a) \<le> total_queue_size (aq_queues a)" by simp
      from aq_submit_full [OF Cons.prems f, of e] obtain a1 where "aq_submit J e a = (False, a1)"
        "aq_inv J a1" "aq_config a1 = aq_config a" "aq_queues a1 = aq_queues a" by blast
      with Cons.IH [of a1] Enqueue show ?thesis by auto
    qed
  next
    case Dequeue
    from aq_dequeue_step [OF Cons.prems] obtain b a1 where s: "aq_dequeue_batch a = Some (b, a1)"
      "aq_inv J a1" "aq_config a1 = aq_config a"
      "\<forall>r. filter (\<lambda>e. extract_region J e = r) b @ queue_of (aq_queues a1) r = queue_of (aq_queues a) r" by blast
    from Cons.IH [OF s(2)] obtain acc del a' where r: "aq_run J ops a1 = Some (acc, del, a')" "aq_inv J a'"
      "aq_config a' = aq_config a1"
      "\<forall>r. queue_of (aq_queues a1) r @ filter (\<lambda>e. extract_region J e = r) acc
         = filter (\<lambda>e. extract_region J e = r) del @ queue_of (aq_queues a') r" by blast
    have "queue_of (aq_queues a) r @ filter (\<lambda>e. extract_region J e = r) acc
       = filter (\<lambda>e. extract_region J e = r) (b @ del) @ queue_of (aq_queues a') r" for r
      using r(4) [rule_format, of r] s(4) [rule_format, of r, symmetric] by simp
    with r s Dequeue show ?thesis by simp
  qed
qed

section \<open>Properties\<close>

text \<open>
  C16: for every sequence of submissions and dequeues of a fresh queue, every dequeue returns
  (the two nested loops end), the number of queued messages never exceeds the maximum, and in
  each region the messages dequeued followed by those still queued are exactly the messages
  accepted for that region, in order: nothing is lost, duplicated or reordered within a region.
\<close>

theorem async_queue_correct:
  "\<exists>acc del a. aq_run J ops (async_queue_new config m) = Some (acc, del, a)
    \<and> total_queue_size (aq_queues a) \<le> aq_max_queue_size config
    \<and> filter (\<lambda>e. extract_region J e = r) acc
      = filter (\<lambda>e. extract_region J e = r) del @ queue_of (aq_queues a) r"
proof -
  let ?a0 = "async_queue_new config m :: 'a async_queue"
  from aq_run_correct [OF aq_inv_new [of J config m], of ops] obtain acc del a where
    a: "aq_run J ops ?a0 = Some (acc, del, a)" "aq_inv J a" "aq_config a = aq_config ?a0"
      "\<forall>r. queue_of (aq_queues ?a0) r @ filter (\<lambda>e. extract_region J e = r) acc
         = filter (\<lambda>e. extract_region J e = r) del @ queue_of (aq_queues a) r" by blast
  have "queue_of (aq_queues ?a0) r = []" "aq_config a = config"
    using a(3) by (simp_all add: async_queue_new_def queue_of_def)
  with a(1,2) a(4) [rule_format, of r] show ?thesis
    by (intro exI [of _ acc] exI [of _ del] exI [of _ a]) (simp add: aq_inv_def)
qed

text \<open>A pass with room for every region takes the front of each.\<close>

lemma dequeue_pass_fronts:
  "queues_inv qs \<Longrightarrow> length b + length qs \<le> n \<Longrightarrow>
     snd (dequeue_pass n qs b) = b @ map (\<lambda>(r, q). hd q) qs"
proof (induction n qs b rule: dequeue_pass.induct)
  case (2 n rg queue rest b)
  have rest: "queues_inv rest" and ne: "queue \<noteq> []"
    using "2.prems"(1) by (auto simp: queues_inv_def smap_inv_def)
  obtain x q where q: "queue = x # q" using ne by (cases queue) auto
  have lt: "length b < n" using "2.prems"(2) by simp
  show ?case using "2.IH"(2) [OF lt q rest] "2.prems"(2) lt q by (auto simp: split_beta Let_def)
qed simp

lemma dequeue_loop_fronts:
  assumes "queues_inv qs" "length qs \<le> n" "\<forall>(r, q)\<in>set qs. \<forall>e\<in>set q. reg e = r"
  shows "\<exists>qs' t. dequeue_loop n qs [] = Some (qs', map (\<lambda>(r, q). hd q) qs @ t)"
proof (cases "qs = []")
  case True
  then show ?thesis by (subst dequeue_loop.simps) simp
next
  case False
  with assms(2) have n: "0 < n" by (cases n) auto
  obtain qs1 b1 where p: "dequeue_pass n qs [] = (qs1, b1)" by fastforce
  have b1: "b1 = map (\<lambda>(r, q). hd q) qs" using dequeue_pass_fronts [OF assms(1), of "[]" n] assms(2) p by simp
  have le: "length b1 \<le> n" using b1 assms(2) by simp
  from dequeue_pass_regions [OF p assms(1,3)] have "\<forall>(r, q)\<in>set qs1. \<forall>e\<in>set q. reg e = r" by blast
  from dequeue_loop_correct [OF dequeue_pass_inv [OF p assms(1)] le this]
  obtain qs' t where "dequeue_loop n qs1 b1 = Some (qs', b1 @ t)" by blast
  then show ?thesis using False n p b1 by (subst dequeue_loop.simps) simp
qed

text \<open>
  C17: the round robin, and its limit.  When the batch size is at least the number of regions
  waiting, one dequeue returns and its batch starts with the oldest message of every region.
  When the batch size is one, a region can starve forever: if a message of a region that sorts
  first arrives between any two dequeues, a message of a later region is never dequeued,
  however many dequeues run.
\<close>

theorem async_queue_fairness:
  assumes "aq_inv J a" "length (aq_queues a) \<le> aq_batch_size (aq_config a)"
    and "extract_region J x < extract_region J y" "2 \<le> aq_max_queue_size config" "aq_batch_size config = 1"
  shows "(\<exists>t a'. aq_dequeue_batch a = Some (map (\<lambda>(r, q). hd q) (aq_queues a) @ t, a'))
    \<and> (\<exists>acc a'. aq_run J (Enqueue y # concat (replicate k [Enqueue x, Dequeue])) (async_queue_new config m)
         = Some (acc, replicate k x, a') \<and> aq_queues a' = [(extract_region J y, [y])])"
proof
  have "queues_inv (aq_queues a)" "\<forall>(r, q)\<in>set (aq_queues a). \<forall>e\<in>set q. extract_region J e = r"
    using assms(1) by (simp_all add: aq_inv_def)
  from dequeue_loop_fronts [OF this(1) assms(2) this(2)]
  show "\<exists>t a'. aq_dequeue_batch a = Some (map (\<lambda>(r, q). hd q) (aq_queues a) @ t, a')"
    by (auto simp: aq_dequeue_batch_def)
next
  have loop: "dequeue_loop 1 [(r, [x]), (r', [y])] [] = Some ([(r', [y])], [x])" for r r'
    by (subst dequeue_loop.simps, simp, subst dequeue_loop.simps, simp)
  have cycle: "\<exists>acc a'. aq_run J (concat (replicate k [Enqueue x, Dequeue])) a = Some (acc, replicate k x, a')
      \<and> aq_queues a' = [(extract_region J y, [y])]"
    if "aq_queues a = [(extract_region J y, [y])]" "aq_config a = config" for a
    using that
  proof (induction k arbitrary: a)
    case 0
    then show ?case by simp
  next
    case (Suc k)
    obtain a1 where s: "aq_submit J x a = (True, a1)" "aq_config a1 = config"
      "aq_queues a1 = [(extract_region J x, [x]), (extract_region J y, [y])]"
      using Suc.prems assms(3,4) by (simp add: aq_submit_def smap_modify_def smap_lookup_def)
    obtain a2 where "aq_dequeue_batch a1 = Some ([x], a2)"
      "aq_queues a2 = [(extract_region J y, [y])]" "aq_config a2 = config"
      using s(2,3) assms(5) loop by (simp add: aq_dequeue_batch_def Let_def)
    with Suc.IH [of a2] s(1) show ?case by auto
  qed
  obtain a1 where "aq_submit J y (async_queue_new config m) = (True, a1)" "aq_config a1 = config"
    "aq_queues a1 = [(extract_region J y, [y])]"
    using assms(4) by (simp add: aq_submit_def async_queue_new_def smap_modify_def smap_lookup_def)
  with cycle [of a1]
  show "\<exists>acc a'. aq_run J (Enqueue y # concat (replicate k [Enqueue x, Dequeue])) (async_queue_new config m)
      = Some (acc, replicate k x, a') \<and> aq_queues a' = [(extract_region J y, [y])]" by auto
qed

text \<open>An envelope whose region is its source.\<close>

definition plain_envelope :: "string \<Rightarrow> demo envelope" where
  "plain_envelope src = \<lparr>schema_version = 1, message_id = src, source = src, route = [],
     message_type = mt_weather_packet, created_at = 0, payload = DObj []\<rparr>"

lemma plain_region [simp]: "extract_region demo_json (plain_envelope src) = src"
  by (simp add: extract_region_def plain_envelope_def demo_json_def)

lemma async_queue_fairness_witness:
  "\<exists>acc a'. aq_run demo_json (Enqueue (plain_envelope ''b'')
        # concat (replicate 3 [Enqueue (plain_envelope ''a''), Dequeue]))
      (async_queue_new \<lparr>aq_max_queue_size = 2, aq_batch_size = 1\<rparr> metrics_init)
    = Some (acc, replicate 3 (plain_envelope ''a''), a') \<and> aq_queues a' = [(''b'', [plain_envelope ''b''])]"
  using async_queue_fairness [OF aq_inv_new [of demo_json "\<lparr>aq_max_queue_size = 2, aq_batch_size = 1\<rparr>" metrics_init],
      of "plain_envelope ''a''" "plain_envelope ''b''" "\<lparr>aq_max_queue_size = 2, aq_batch_size = 1\<rparr>" 3 metrics_init]
  by (simp add: async_queue_new_def less_char_def)

end
