(* ===== verification/Ring_Buffer.thy ===== *)
theory Ring_Buffer
  imports Prelude
begin

text \<open>
  \<open>common/rt_safe/LocklessRingBuffer.hpp\<close>: the single-producer single-consumer ring.
  Indices are \<open>size_t\<close> (64-bit words) and advance through the bit mask.  An access outside
  the vector is undefined behaviour: None.

  First the operations run to completion, against the interface of a bounded FIFO queue; then
  the same operations split into their atomic loads and stores, interleaved freely between
  one producer and one consumer.
\<close>

section \<open>The interface of a bounded FIFO queue\<close>

datatype 'a queue_op = Enq 'a | Deq

text \<open>
  Running a list of operations collects the items accepted by the queue and the items it
  delivered; None if an operation is undefined.
\<close>

fun q_run :: "('q \<Rightarrow> 'a \<Rightarrow> (bool \<times> 'q) option) \<Rightarrow> ('q \<Rightarrow> ('a option \<times> 'q) option) \<Rightarrow>
    'q \<Rightarrow> 'a queue_op list \<Rightarrow> ('a list \<times> 'a list \<times> 'q) option" where
  "q_run enq deq q [] = Some ([], [], q)"
| "q_run enq deq q (Enq x # ops) =
     (case enq q x of None \<Rightarrow> None
      | Some (ok, q') \<Rightarrow> map_option (\<lambda>(acc, del, q''). (if ok then x # acc else acc, del, q''))
                          (q_run enq deq q' ops))"
| "q_run enq deq q (Deq # ops) =
     (case deq q of None \<Rightarrow> None
      | Some (r, q') \<Rightarrow> map_option (\<lambda>(acc, del, q''). (acc, case_option del (\<lambda>x. x # del) r, q''))
                          (q_run enq deq q' ops))"

locale bounded_fifo =
  fixes enq :: "'q \<Rightarrow> 'a \<Rightarrow> (bool \<times> 'q) option"
    and deq :: "'q \<Rightarrow> ('a option \<times> 'q) option"
    and items :: "'q \<Rightarrow> 'a list"
    and room :: "'q \<Rightarrow> nat"
    and wf :: "'q \<Rightarrow> bool"
  assumes enq_ok: "wf q \<Longrightarrow> length (items q) < room q \<Longrightarrow>
      \<exists>q'. enq q x = Some (True, q') \<and> wf q' \<and> room q' = room q \<and> items q' = items q @ [x]"
    and enq_full: "wf q \<Longrightarrow> room q \<le> length (items q) \<Longrightarrow> enq q x = Some (False, q)"
    and deq_empty: "wf q \<Longrightarrow> items q = [] \<Longrightarrow> deq q = Some (None, q)"
    and deq_ok: "wf q \<Longrightarrow> items q = y # ys \<Longrightarrow>
      \<exists>q'. deq q = Some (Some y, q') \<and> wf q' \<and> room q' = room q \<and> items q' = ys"
    and room_bound: "wf q \<Longrightarrow> length (items q) \<le> room q"
begin

lemma enq_cases:
  assumes "wf q"
  obtains q' where "enq q x = Some (True, q')" "wf q'" "room q' = room q" "items q' = items q @ [x]"
  | "enq q x = Some (False, q)" "length (items q) = room q"
proof (cases "length (items q) < room q")
  case True
  with enq_ok [OF assms] that(1) show ?thesis by blast
next
  case False
  with enq_full [OF assms] room_bound [OF assms] that(2) show ?thesis by simp
qed

lemma deq_cases:
  assumes "wf q"
  obtains q' y where "deq q = Some (Some y, q')" "wf q'" "room q' = room q" "items q = y # items q'"
  | "deq q = Some (None, q)" "items q = []"
proof (cases "items q")
  case Nil
  with deq_empty [OF assms] that(2) show ?thesis by simp
next
  case (Cons y ys)
  with deq_ok [OF assms Cons] that(1) show ?thesis by blast
qed

text \<open>No operation is undefined, and what goes in comes out once, in order.\<close>

lemma run_fifo:
  assumes "wf q"
  shows "\<exists>acc del q'. q_run enq deq q ops = Some (acc, del, q') \<and> wf q' \<and> room q' = room q
    \<and> items q @ acc = del @ items q'"
  using assms
proof (induction ops arbitrary: q)
  case Nil
  then show ?case by simp
next
  case (Cons op ops)
  show ?case
  proof (cases op)
    case (Enq x)
    show ?thesis using enq_cases [OF Cons.prems, of x]
    proof cases
      case (1 q')
      with Cons.IH [OF 1(2)] Enq show ?thesis by fastforce
    next
      case 2
      with Cons.IH [OF Cons.prems] Enq show ?thesis by fastforce
    qed
  next
    case Deq
    show ?thesis using deq_cases [OF Cons.prems]
    proof cases
      case (1 q' y)
      with Cons.IH [OF 1(2)] Deq show ?thesis by fastforce
    next
      case 2
      with Cons.IH [OF Cons.prems] Deq show ?thesis by fastforce
    qed
  qed
qed

end

section \<open>The ring\<close>

record 'a ring =
  rb_capacity :: u64
  rb_mask :: u64
  rb_buffer :: "'a list"
  rb_head :: u64
  rb_tail :: u64

text \<open>
  The constructor; \<open>dflt\<close> is the value-initialised element of \<open>std::vector<T>(capacity)\<close>.
  None: \<open>std::invalid_argument\<close>.
\<close>

definition rb_new :: "'a \<Rightarrow> u64 \<Rightarrow> 'a ring option" where
  "rb_new dflt capacity =
     (if capacity AND (capacity - 1) \<noteq> 0 then None
      else Some \<lparr>rb_capacity = capacity, rb_mask = capacity - 1,
        rb_buffer = replicate (unat capacity) dflt, rb_head = 0, rb_tail = 0\<rparr>)"

definition rb_push :: "'a ring \<Rightarrow> 'a \<Rightarrow> (bool \<times> 'a ring) option" where
  "rb_push r item =
     (let current_tail = rb_tail r;
          next_tail = (current_tail + 1) AND rb_mask r
      in if next_tail = rb_head r then Some (False, r)
         else if unat current_tail < length (rb_buffer r)
         then Some (True, r\<lparr>rb_buffer := (rb_buffer r)[unat current_tail := item],
                            rb_tail := next_tail\<rparr>)
         else None)"

definition rb_pop :: "'a ring \<Rightarrow> ('a option \<times> 'a ring) option" where
  "rb_pop r =
     (let current_head = rb_head r
      in if current_head = rb_tail r then Some (None, r)
         else if unat current_head < length (rb_buffer r)
         then Some (Some (rb_buffer r ! unat current_head),
                    r\<lparr>rb_head := (current_head + 1) AND rb_mask r\<rparr>)
         else None)"

definition rb_size :: "'a ring \<Rightarrow> u64" where
  "rb_size r = (let h = rb_head r; t = rb_tail r
     in if h \<le> t then t - h else (rb_capacity r - h) + t)"

definition rb_empty :: "'a ring \<Rightarrow> bool" where
  "rb_empty r \<longleftrightarrow> rb_head r = rb_tail r"

section \<open>Capacities\<close>

lemma bit_of_interval: "2 ^ k \<le> n \<Longrightarrow> n < 2 ^ (k + 1) \<Longrightarrow> bit (n::nat) k"
proof -
  assume "2 ^ k \<le> n" "n < 2 ^ (k + 1)"
  then have "n div 2 ^ k = 1" by (intro div_nat_eqI) simp_all
  then show ?thesis by (simp add: bit_iff_odd)
qed

lemma unat_pow2: "k < 64 \<Longrightarrow> unat ((2::u64) ^ k) = 2 ^ k"
proof -
  assume "k < 64"
  then have "(2::nat) ^ k < 2 ^ 64" by (rule power_strict_increasing) simp
  moreover have "(2::u64) ^ k = of_nat (2 ^ k)" by simp
  ultimately show ?thesis by (simp only: unat_of_nat take_bit_eq_mod) simp
qed

text \<open>The constructor's test accepts the powers of two and zero.\<close>

lemma power_of_two_test:
  "(c AND (c - 1)) = (0::u64) \<longleftrightarrow> c = 0 \<or> (\<exists>k<64. c = 2 ^ k)"
proof
  assume a: "(c AND (c - 1)) = 0"
  show "c = 0 \<or> (\<exists>k<64. c = 2 ^ k)"
  proof (cases "c = 0")
    case False
    then have pos: "1 \<le> unat c" by (simp add: Suc_le_eq unat_gt_0)
    then obtain k where k: "2 ^ k \<le> unat c" "unat c < 2 ^ (k + 1)"
      using ex_power_ivl1 [of 2 "unat c"] by auto
    have "(2::nat) ^ k < 2 ^ 64" using k(1) unsigned_less [of c, where ?'a = nat] by simp
    then have k64: "k < 64" by (rule power_less_imp_less_exp [rotated]) simp
    have "unat c = 2 ^ k"
    proof (rule ccontr)
      assume "unat c \<noteq> 2 ^ k"
      with k have "2 ^ k \<le> unat c - 1" "unat c - 1 < 2 ^ (k + 1)" by auto
      then have "bit (unat c - 1) k" by (rule bit_of_interval)
      moreover have "bit (unat c) k" using k by (rule bit_of_interval)
      moreover have "unat (c - 1) = unat c - 1" using False by (simp add: unat_minus_one)
      ultimately have "bit (unat (c AND (c - 1))) k"
        by (simp add: unsigned_and_eq bit_and_iff)
      with a show False by simp
    qed
    then have "c = 2 ^ k" using k64 by (simp add: word_unat_eq_iff unat_pow2)
    with k64 show ?thesis by blast
  qed simp
next
  assume "c = 0 \<or> (\<exists>k<64. c = 2 ^ k)"
  then show "(c AND (c - 1)) = 0"
  proof
    assume "\<exists>k<64. c = 2 ^ k"
    then obtain k where k: "k < 64" "c = 2 ^ k" by blast
    have "(c AND (c - 1)) = take_bit k c"
      using k(2) by (simp only: mask_eq_exp_minus_1 [symmetric] take_bit_eq_mask)
    also have "unat \<dots> = 0" using k
      by (simp add: unsigned_take_bit_eq unat_pow2 take_bit_eq_mod)
    finally show ?thesis by (simp only: unsigned_eq_0_iff)
  qed simp
qed

section \<open>Invariant and abstraction\<close>

definition rb_inv :: "'a ring \<Rightarrow> bool" where
  "rb_inv r \<longleftrightarrow> (\<exists>k<64. rb_capacity r = 2 ^ k) \<and> rb_mask r = rb_capacity r - 1
     \<and> length (rb_buffer r) = unat (rb_capacity r)
     \<and> rb_head r < rb_capacity r \<and> rb_tail r < rb_capacity r"

text \<open>The number of stored items and the items from the oldest to the newest.\<close>

definition rb_count :: "'a ring \<Rightarrow> nat" where
  "rb_count r = (unat (rb_tail r) + length (rb_buffer r) - unat (rb_head r)) mod length (rb_buffer r)"

definition rb_items :: "'a ring \<Rightarrow> 'a list" where
  "rb_items r = map (\<lambda>i. rb_buffer r ! ((unat (rb_head r) + i) mod length (rb_buffer r)))
     [0..<rb_count r]"

definition rb_room :: "'a ring \<Rightarrow> nat" where
  "rb_room r = unat (rb_capacity r) - 1"

lemma mask_step:
  assumes "k < 64" "c = (2::u64) ^ k"
  shows "unat ((t + 1) AND (c - 1)) = (unat t + 1) mod unat c"
proof -
  have c: "unat c = 2 ^ k" using assms by (simp add: unat_pow2)
  have "(t + 1) AND (c - 1) = take_bit k (t + 1)"
    using assms by (simp add: take_bit_eq_mask mask_eq_exp_minus_1)
  then have "unat ((t + 1) AND (c - 1)) = take_bit k (unat (t + 1))"
    by (simp add: unsigned_take_bit_eq)
  also have "\<dots> = (unat t + 1) mod 2 ^ 64 mod 2 ^ k"
    by (simp add: take_bit_eq_mod unat_word_ariths)
  also have "\<dots> = (unat t + 1) mod 2 ^ k"
    using assms(1) by (intro mod_mod_cancel le_imp_power_dvd) simp
  finally show ?thesis by (simp add: c)
qed

text \<open>All facts about a well-formed ring in terms of naturals.\<close>

lemma rb_facts:
  assumes "rb_inv r"
  shows "unat (rb_capacity r) = length (rb_buffer r)" "0 < length (rb_buffer r)"
    "unat (rb_head r) < length (rb_buffer r)" "unat (rb_tail r) < length (rb_buffer r)"
    "\<And>t. unat ((t + 1) AND rb_mask r) = (unat t + 1) mod length (rb_buffer r)"
proof -
  from assms obtain k where k: "k < 64" "rb_capacity r = 2 ^ k" by (auto simp: rb_inv_def)
  have "unat (rb_capacity r) = 2 ^ k" using k by (simp add: unat_pow2)
  with assms mask_step [OF k] show "unat (rb_capacity r) = length (rb_buffer r)"
    "0 < length (rb_buffer r)"
    "unat (rb_head r) < length (rb_buffer r)" "unat (rb_tail r) < length (rb_buffer r)"
    "\<And>t. unat ((t + 1) AND rb_mask r) = (unat t + 1) mod length (rb_buffer r)"
    by (simp_all add: rb_inv_def word_less_nat_alt)
qed

lemma mod_once:
  assumes "a < n" "b < (n::nat)"
  shows "(a + b) mod n = (if a + b < n then a + b else a + b - n)"
  using assms by (simp add: mod_if [of "a + b"])

lemma count_of_next:
  assumes "h < n" "t < (n::nat)"
  shows "(t + 1) mod n = h \<longleftrightarrow> (t + n - h) mod n = n - 1"
    and "(t + n - h) mod n = 0 \<longleftrightarrow> t = h"
    and "(t + n - h) mod n < n - 1 \<Longrightarrow> ((t + 1) mod n + n - h) mod n = (t + n - h) mod n + 1"
    and "(t + n - h) mod n \<noteq> 0 \<Longrightarrow> (t + n - (h + 1) mod n) mod n = (t + n - h) mod n - 1"
    and "(h + (t + n - h) mod n) mod n = t"
    and "i < (t + n - h) mod n \<Longrightarrow> (h + i) mod n \<noteq> t"
proof -
  have c: "(t' + n - h') mod n = (if h' \<le> t' then t' - h' else t' + n - h')"
    if "h' < n" "t' < n" for h' t' :: nat
    using that by (cases "h' \<le> t'") (simp_all add: mod_if [of "t' + n - h'"])
  have s: "(t' + 1) mod n = (if t' + 1 = n then 0 else t' + 1)" if "t' < n" for t' :: nat
    using that by auto
  have n: "0 < n" using assms by simp
  note c0 = c [OF assms] and st = s [OF assms(2)] and sh = s [OF assms(1)]
  show "(t + 1) mod n = h \<longleftrightarrow> (t + n - h) mod n = n - 1" using assms unfolding c0 st by auto
  show "(t + n - h) mod n = 0 \<longleftrightarrow> t = h" using assms unfolding c0 by auto
  show "((t + 1) mod n + n - h) mod n = (t + n - h) mod n + 1" if "(t + n - h) mod n < n - 1"
  proof -
    obtain u where u: "u = (t + 1) mod n" "u < n" using n by simp
    have "(u + n - h) mod n = (if h \<le> u then u - h else u + n - h)" by (rule c [OF assms(1) u(2)])
    moreover have "u = (if t + 1 = n then 0 else t + 1)" using u(1) st by simp
    ultimately show ?thesis using that assms u(2) unfolding c0 u(1) [symmetric] by (auto split: if_splits)
  qed
  show "(t + n - (h + 1) mod n) mod n = (t + n - h) mod n - 1" if "(t + n - h) mod n \<noteq> 0"
  proof -
    obtain u where u: "u = (h + 1) mod n" "u < n" using n by simp
    have "(t + n - u) mod n = (if u \<le> t then t - u else t + n - u)" by (rule c [OF u(2) assms(2)])
    moreover have "u = (if h + 1 = n then 0 else h + 1)" using u(1) sh by simp
    ultimately show ?thesis using that assms u(2) unfolding c0 u(1) [symmetric] by (auto split: if_splits)
  qed
  have lt: "(t + n - h) mod n < n" using n by simp
  show "(h + (t + n - h) mod n) mod n = t"
    using assms mod_once [OF assms(1) lt] unfolding c0 by (auto split: if_splits)
  show "(h + i) mod n \<noteq> t" if "i < (t + n - h) mod n"
    using that assms mod_once [OF assms(1) less_trans [OF that lt]] unfolding c0
    by (simp split: if_splits)
qed

lemma rb_count_less: "rb_inv r \<Longrightarrow> rb_count r < length (rb_buffer r)"
  using rb_facts(2) [of r] by (simp add: rb_count_def)

lemma rb_items_length: "length (rb_items r) = rb_count r"
  by (simp add: rb_items_def)

lemmas rb_next = count_of_next [OF rb_facts(3,4), folded rb_count_def]

text \<open>Writing the free slot at the tail changes none of the stored items.\<close>

lemma rb_items_write:
  assumes "rb_inv r"
  shows "rb_items (r\<lparr>rb_buffer := (rb_buffer r)[unat (rb_tail r) := x]\<rparr>) = rb_items r"
  using rb_next(6) [OF assms assms]
  by (simp add: rb_items_def rb_count_def list_eq_iff_nth_eq nth_list_update_neq [OF not_sym])

lemma rb_items_advance_tail:
  assumes "rb_inv r" "rb_count r < rb_room r" "rb_buffer r ! unat (rb_tail r) = x"
  shows "rb_items (r\<lparr>rb_tail := (rb_tail r + 1) AND rb_mask r\<rparr>) = rb_items r @ [x]"
proof -
  let ?r = "r\<lparr>rb_tail := (rb_tail r + 1) AND rb_mask r\<rparr>"
  have "rb_count ?r = rb_count r + 1"
    using rb_next(3) [OF assms(1) assms(1)] rb_facts [OF assms(1)] assms(2)
    by (simp add: rb_count_def rb_room_def)
  with assms(3) rb_next(5) [OF assms(1) assms(1)] show ?thesis by (simp add: rb_items_def)
qed

lemma rb_items_advance_head:
  assumes "rb_inv r" "rb_head r \<noteq> rb_tail r"
  shows "rb_items r = rb_buffer r ! unat (rb_head r)
    # rb_items (r\<lparr>rb_head := (rb_head r + 1) AND rb_mask r\<rparr>)"
proof -
  let ?h = "unat (rb_head r)" and ?n = "length (rb_buffer r)"
  let ?r = "r\<lparr>rb_head := (rb_head r + 1) AND rb_mask r\<rparr>"
  have nz: "rb_count r \<noteq> 0"
    using assms(2) rb_next(2) [OF assms(1) assms(1)] by (auto simp: word_unat_eq_iff)
  then have c: "rb_count r = Suc (rb_count ?r)"
    using rb_next(4) [OF assms(1) assms(1)] rb_facts(5) [OF assms(1), of "rb_head r"]
    by (simp add: rb_count_def)
  have m: "((?h + 1) mod ?n + i) mod ?n = (?h + Suc i) mod ?n" for i
    by (metis add.assoc add_Suc_right mod_add_left_eq plus_1_eq_Suc add.commute)
  have "rb_items ?r = map (\<lambda>i. rb_buffer r ! ((?h + Suc i) mod ?n)) [0..<rb_count ?r]"
    by (simp add: rb_items_def m rb_facts(5) [OF assms(1)] del: One_nat_def)
  moreover have "[0..<rb_count r] = 0 # map Suc [0..<rb_count ?r]"
    by (simp only: c upt_conv_Cons map_Suc_upt zero_less_Suc)
  ultimately show ?thesis using rb_facts(3) [OF assms(1)]
    by (simp only: rb_items_def [of r]) simp
qed

lemma rb_inv_write: "rb_inv r \<Longrightarrow> rb_inv (r\<lparr>rb_buffer := (rb_buffer r)[i := x]\<rparr>)"
  by (simp add: rb_inv_def)

lemma rb_inv_advance:
  assumes "rb_inv r"
  shows "rb_inv (r\<lparr>rb_tail := (t + 1) AND rb_mask r\<rparr>)"
    and "rb_inv (r\<lparr>rb_head := (t + 1) AND rb_mask r\<rparr>)"
proof -
  have "(t + 1) AND rb_mask r < rb_capacity r"
    using rb_facts [OF assms] by (simp add: word_less_nat_alt)
  with assms show "rb_inv (r\<lparr>rb_tail := (t + 1) AND rb_mask r\<rparr>)"
    and "rb_inv (r\<lparr>rb_head := (t + 1) AND rb_mask r\<rparr>)" by (simp_all add: rb_inv_def)
qed

lemma rb_room_frame [simp]:
  "rb_room (r\<lparr>rb_tail := t\<rparr>) = rb_room r" "rb_room (r\<lparr>rb_head := t\<rparr>) = rb_room r"
  "rb_room (r\<lparr>rb_buffer := b\<rparr>) = rb_room r"
  by (simp_all add: rb_room_def)

text \<open>The full test of the producer and the empty test of the consumer.\<close>

lemma rb_full_iff:
  assumes "rb_inv r"
  shows "(rb_tail r + 1) AND rb_mask r = rb_head r \<longleftrightarrow> rb_count r = rb_room r"
  using rb_next(1) [OF assms assms] rb_facts [OF assms]
  by (simp add: word_unat_eq_iff rb_room_def)

lemma rb_empty_iff: "rb_inv r \<Longrightarrow> rb_head r = rb_tail r \<longleftrightarrow> rb_count r = 0"
  using rb_next(2) [of r] by (auto simp: word_unat_eq_iff)

lemma rb_count_le_room: "rb_inv r \<Longrightarrow> rb_count r \<le> rb_room r"
  using rb_count_less [of r] rb_facts(1) [of r] by (simp add: rb_room_def)

lemma rb_size_count:
  assumes "rb_inv r"
  shows "unat (rb_size r) = rb_count r"
proof -
  note f = rb_facts [OF assms]
  have "unat (rb_tail r) + (length (rb_buffer r) - unat (rb_head r)) < 2 ^ 64"
    if "unat (rb_tail r) < unat (rb_head r)"
    using that f(1) f(3) unsigned_less [of "rb_capacity r", where ?'a = nat] by simp
  then show ?thesis using f
    by (auto simp: rb_size_def rb_count_def Let_def word_le_nat_alt unat_sub word_less_nat_alt
        unat_add_lem [THEN iffD1] mod_if)
qed

section \<open>The ring is a bounded FIFO queue\<close>

interpretation rb: bounded_fifo rb_push rb_pop rb_items rb_room rb_inv
proof
  fix q :: "'a ring" and x
  assume inv: "rb_inv q" and room: "length (rb_items q) < rb_room q"
  let ?w = "q\<lparr>rb_buffer := (rb_buffer q)[unat (rb_tail q) := x]\<rparr>"
  have t: "unat (rb_tail q) < length (rb_buffer q)" using inv by (rule rb_facts)
  have c: "rb_count ?w < rb_room ?w" using room by (simp add: rb_items_length rb_count_def)
  have "rb_items (?w\<lparr>rb_tail := (rb_tail ?w + 1) AND rb_mask ?w\<rparr>) = rb_items q @ [x]"
    using rb_items_advance_tail [OF rb_inv_write [OF inv] c] rb_items_write [OF inv] t by simp
  moreover have "(rb_tail q + 1) AND rb_mask q \<noteq> rb_head q"
    using room rb_full_iff [OF inv] by (simp add: rb_items_length)
  ultimately show "\<exists>q'. rb_push q x = Some (True, q') \<and> rb_inv q' \<and> rb_room q' = rb_room q
      \<and> rb_items q' = rb_items q @ [x]"
    using t inv rb_inv_advance(1) [OF rb_inv_write [OF inv]] by (auto simp: rb_push_def Let_def)
next
  fix q :: "'a ring" and x
  assume inv: "rb_inv q" and "rb_room q \<le> length (rb_items q)"
  then have "rb_count q = rb_room q"
    using rb_count_le_room [OF inv] by (simp add: rb_items_length)
  then show "rb_push q x = Some (False, q)"
    using rb_full_iff [OF inv] by (simp add: rb_push_def Let_def)
next
  fix q :: "'a ring"
  assume "rb_inv q" "rb_items q = []"
  then show "rb_pop q = Some (None, q)"
    using rb_items_length [of q] rb_empty_iff [of q] by (simp add: rb_pop_def)
next
  fix q :: "'a ring" and y ys
  assume inv: "rb_inv q" and i: "rb_items q = y # ys"
  then have ne: "rb_head q \<noteq> rb_tail q"
    using rb_items_length [of q] rb_empty_iff [of q] by auto
  have "unat (rb_head q) < length (rb_buffer q)" using inv by (rule rb_facts)
  then show "\<exists>q'. rb_pop q = Some (Some y, q') \<and> rb_inv q' \<and> rb_room q' = rb_room q
      \<and> rb_items q' = ys"
    using rb_items_advance_head [OF inv ne] i ne rb_inv_advance(2) [OF inv]
    by (auto simp: rb_pop_def Let_def)
next
  fix q :: "'a ring"
  assume "rb_inv q"
  then show "length (rb_items q) \<le> rb_room q" by (simp add: rb_items_length rb_count_le_room)
qed

section \<open>Properties of the sequential ring\<close>

lemma rb_new_inv:
  assumes "rb_new d c = Some r" "c \<noteq> 0"
  shows "rb_inv r" and "rb_items r = []" and "rb_room r = unat c - 1"
proof -
  from assms(1) have z: "c AND (c - 1) = 0" by (auto simp: rb_new_def split: if_splits)
  with assms(1) have r: "r = \<lparr>rb_capacity = c, rb_mask = c - 1,
      rb_buffer = replicate (unat c) d, rb_head = 0, rb_tail = 0\<rparr>"
    by (simp add: rb_new_def)
  from z assms(2) obtain k where "k < 64" "c = 2 ^ k" by (auto simp: power_of_two_test)
  then show "rb_inv r" using assms(2) r by (auto simp: rb_inv_def word_gt_0)
  show "rb_items r = []" "rb_room r = unat c - 1"
    using r by (simp_all add: rb_items_def rb_count_def rb_room_def)
qed

text \<open>
  C6: the ring built with a power-of-two capacity is a FIFO queue of capacity minus one: no
  sequence of pushes and pops touches the vector out of range, the items popped are the items
  accepted, in the order they were accepted and each exactly once (the rest is still stored),
  the ring never holds more than \<open>capacity - 1\<close> items, and \<open>size()\<close> is the number held.
\<close>

theorem ring_is_fifo:
  assumes "k < 64" "rb_new d (2 ^ k) = Some r"
  shows "\<exists>acc del r'. q_run rb_push rb_pop r ops = Some (acc, del, r')
    \<and> acc = del @ rb_items r' \<and> length (rb_items r') \<le> 2 ^ k - 1
    \<and> unat (rb_size r') = length (rb_items r') \<and> (rb_empty r' \<longleftrightarrow> rb_items r' = [])"
proof -
  have c: "unat ((2::u64) ^ k) = 2 ^ k" using assms(1) by (rule unat_pow2)
  then have "(2::u64) ^ k \<noteq> 0" by (metis power_not_zero unsigned_0 zero_neq_numeral)
  note new = rb_new_inv [OF assms(2) this]
  from rb.run_fifo [OF new(1), of ops] new obtain acc del r'
    where run: "q_run rb_push rb_pop r ops = Some (acc, del, r')"
      and inv: "rb_inv r'" and room: "rb_room r' = rb_room r" and eq: "acc = del @ rb_items r'"
    by auto
  show ?thesis
    using run eq inv room rb.room_bound [OF inv] new(3) c rb_size_count [OF inv]
      rb_empty_iff [OF inv]
    by (auto simp: rb_empty_def rb_items_length length_0_conv [symmetric] simp del: length_0_conv)
qed

lemma ring_is_fifo_witness:
  "\<exists>acc del r'. q_run rb_push rb_pop
      \<lparr>rb_capacity = 4, rb_mask = 3, rb_buffer = [0, 0, 0, 0::int], rb_head = 0, rb_tail = 0\<rparr>
      [Enq 1, Enq 2, Enq 3, Enq 4, Deq] = Some (acc, del, r')
    \<and> acc = del @ rb_items r' \<and> length (rb_items r') \<le> 2 ^ 2 - 1
    \<and> unat (rb_size r') = length (rb_items r') \<and> (rb_empty r' \<longleftrightarrow> rb_items r' = [])"
  by (rule ring_is_fifo [of 2 0]) (simp, code_simp)

text \<open>
  The constructor throws exactly when the capacity is neither zero nor a power of two; a
  ring of capacity zero is accepted, and its first push writes outside the (empty) vector.
\<close>

lemma ring_capacity_check:
  "(rb_new d c = None \<longleftrightarrow> c \<noteq> 0 \<and> \<not> (\<exists>k<64. c = 2 ^ k))
   \<and> (\<forall>x. (case rb_new d 0 of None \<Rightarrow> False | Some r \<Rightarrow> rb_push r x = None))"
  using power_of_two_test [of c] by (auto simp: rb_new_def rb_push_def Let_def)

end
