(* ===== verification/Ring_Spsc.thy ===== *)
theory Ring_Spsc
  imports Ring_Buffer
begin

text \<open>
  \<open>common/rt_safe/LocklessRingBuffer.hpp\<close> under concurrency: \<open>push\<close> and \<open>pop\<close> split at each
  load and store of the shared memory (the two atomic indices and the element slots), run by
  one producer and one consumer in any interleaving.  The acquire loads and release stores
  of the code order each slot access between its index load and its index store, which is
  the order the steps below have; so interleavings of steps are the executions of the code.
\<close>

section \<open>Program counters\<close>

text \<open>The local variables a thread holds between two shared accesses.\<close>

datatype 'a producer_pc =
    P_idle
  | P_tail 'a u64            \<comment> \<open>item, \<open>current_tail\<close> loaded\<close>
  | P_write 'a u64 u64       \<comment> \<open>item, \<open>current_tail\<close>, \<open>next_tail\<close>: not full\<close>
  | P_publish 'a u64         \<comment> \<open>slot written, \<open>tail_.store(next_tail)\<close> to come\<close>

datatype 'a consumer_pc =
    C_idle
  | C_head u64               \<comment> \<open>\<open>current_head\<close> loaded\<close>
  | C_read u64               \<comment> \<open>not empty\<close>
  | C_store 'a u64           \<comment> \<open>slot read, \<open>head_.store\<close> to come\<close>

text \<open>\<open>accepted\<close>: the items whose push returned true; \<open>delivered\<close>: the items popped.\<close>

record 'a spsc =
  sp_ring :: "'a ring"
  sp_producer :: "'a producer_pc"
  sp_consumer :: "'a consumer_pc"
  sp_accepted :: "'a list"
  sp_delivered :: "'a list"

definition spsc_init :: "'a ring \<Rightarrow> 'a spsc" where
  "spsc_init r = \<lparr>sp_ring = r, sp_producer = P_idle, sp_consumer = C_idle,
     sp_accepted = [], sp_delivered = []\<rparr>"

section \<open>Atomic steps\<close>

text \<open>One step of the producer; \<open>x\<close> is the argument if a new call of \<open>push\<close> starts.  None: out of range.\<close>

fun producer_step :: "'a \<Rightarrow> 'a spsc \<Rightarrow> 'a spsc option" where
  "producer_step x s =
     (let r = sp_ring s in
      case sp_producer s of
        P_idle \<Rightarrow> Some (s\<lparr>sp_producer := P_tail x (rb_tail r)\<rparr>)
      | P_tail i t \<Rightarrow>
          (let next_tail = (t + 1) AND rb_mask r in
           if next_tail = rb_head r then Some (s\<lparr>sp_producer := P_idle\<rparr>)
           else Some (s\<lparr>sp_producer := P_write i t next_tail\<rparr>))
      | P_write i t next_tail \<Rightarrow>
          (if unat t < length (rb_buffer r)
           then Some (s\<lparr>sp_ring := r\<lparr>rb_buffer := (rb_buffer r)[unat t := i]\<rparr>,
                        sp_producer := P_publish i next_tail\<rparr>)
           else None)
      | P_publish i next_tail \<Rightarrow>
          Some (s\<lparr>sp_ring := r\<lparr>rb_tail := next_tail\<rparr>, sp_producer := P_idle,
                  sp_accepted := sp_accepted s @ [i]\<rparr>))"

fun consumer_step :: "'a spsc \<Rightarrow> 'a spsc option" where
  "consumer_step s =
     (let r = sp_ring s in
      case sp_consumer s of
        C_idle \<Rightarrow> Some (s\<lparr>sp_consumer := C_head (rb_head r)\<rparr>)
      | C_head h \<Rightarrow>
          (if h = rb_tail r then Some (s\<lparr>sp_consumer := C_idle\<rparr>)
           else Some (s\<lparr>sp_consumer := C_read h\<rparr>))
      | C_read h \<Rightarrow>
          (if unat h < length (rb_buffer r)
           then Some (s\<lparr>sp_consumer := C_store (rb_buffer r ! unat h) h\<rparr>)
           else None)
      | C_store i h \<Rightarrow>
          Some (s\<lparr>sp_ring := r\<lparr>rb_head := (h + 1) AND rb_mask r\<rparr>, sp_consumer := C_idle,
                  sp_delivered := sp_delivered s @ [i]\<rparr>))"

text \<open>The states some interleaving reaches from the constructed ring.\<close>

inductive spsc_reachable :: "'a ring \<Rightarrow> 'a spsc \<Rightarrow> bool" for r where
  start: "spsc_reachable r (spsc_init r)"
| producer: "spsc_reachable r s \<Longrightarrow> producer_step x s = Some s' \<Longrightarrow> spsc_reachable r s'"
| consumer: "spsc_reachable r s \<Longrightarrow> consumer_step s = Some s' \<Longrightarrow> spsc_reachable r s'"

section \<open>The invariant\<close>

text \<open>What each thread's locals say of the shared ring, stable under the other thread's steps.\<close>

fun producer_ok :: "'a producer_pc \<Rightarrow> 'a ring \<Rightarrow> bool" where
  "producer_ok P_idle r \<longleftrightarrow> True"
| "producer_ok (P_tail i t) r \<longleftrightarrow> t = rb_tail r"
| "producer_ok (P_write i t nt) r \<longleftrightarrow>
     t = rb_tail r \<and> nt = (t + 1) AND rb_mask r \<and> rb_count r < rb_room r"
| "producer_ok (P_publish i nt) r \<longleftrightarrow>
     nt = (rb_tail r + 1) AND rb_mask r \<and> rb_count r < rb_room r \<and> rb_buffer r ! unat (rb_tail r) = i"

fun consumer_ok :: "'a consumer_pc \<Rightarrow> 'a ring \<Rightarrow> bool" where
  "consumer_ok C_idle r \<longleftrightarrow> True"
| "consumer_ok (C_head h) r \<longleftrightarrow> h = rb_head r"
| "consumer_ok (C_read h) r \<longleftrightarrow> h = rb_head r \<and> h \<noteq> rb_tail r"
| "consumer_ok (C_store i h) r \<longleftrightarrow> h = rb_head r \<and> h \<noteq> rb_tail r \<and> rb_buffer r ! unat h = i"

definition spsc_inv :: "'a spsc \<Rightarrow> bool" where
  "spsc_inv s \<longleftrightarrow> rb_inv (sp_ring s) \<and> sp_accepted s = sp_delivered s @ rb_items (sp_ring s)
     \<and> producer_ok (sp_producer s) (sp_ring s) \<and> consumer_ok (sp_consumer s) (sp_ring s)"

text \<open>The two threads touch the same slot, one of them writing.\<close>

fun slot_race :: "'a producer_pc \<Rightarrow> 'a consumer_pc \<Rightarrow> bool" where
  "slot_race (P_write i t nt) (C_read h) \<longleftrightarrow> t = h"
| "slot_race _ _ \<longleftrightarrow> False"

lemma advance_head_count:
  assumes "rb_inv r" "rb_head r \<noteq> rb_tail r"
  shows "rb_count (r\<lparr>rb_head := (rb_head r + 1) AND rb_mask r\<rparr>) < rb_count r"
  using arg_cong [OF rb_items_advance_head [OF assms], of length] by (simp add: rb_items_length)

lemma advance_tail_nonempty:
  assumes "rb_inv r" "rb_count r < rb_room r"
  shows "rb_head r \<noteq> (rb_tail r + 1) AND rb_mask r"
  using rb_full_iff [OF assms(1)] assms(2) by auto

lemma consumer_ok_write:
  "consumer_ok c r \<Longrightarrow> consumer_ok c (r\<lparr>rb_buffer := (rb_buffer r)[unat (rb_tail r) := i]\<rparr>)"
  by (cases c) (auto simp: word_unat_eq_iff)

lemma consumer_ok_publish:
  assumes "rb_inv r" "rb_count r < rb_room r" "consumer_ok c r"
  shows "consumer_ok c (r\<lparr>rb_tail := (rb_tail r + 1) AND rb_mask r\<rparr>)"
  using assms(3) advance_tail_nonempty [OF assms(1,2)] by (cases c) auto

lemma producer_ok_advance:
  assumes "rb_inv r" "rb_head r \<noteq> rb_tail r" "producer_ok p r"
  shows "producer_ok p (r\<lparr>rb_head := (rb_head r + 1) AND rb_mask r\<rparr>)"
  using assms(3) advance_head_count [OF assms(1,2)] by (cases p) auto

lemma producer_step_inv:
  assumes "spsc_inv s"
  shows "\<exists>s'. producer_step x s = Some s' \<and> spsc_inv s'"
proof -
  have inv: "rb_inv (sp_ring s)" and acc: "sp_accepted s = sp_delivered s @ rb_items (sp_ring s)"
    and p: "producer_ok (sp_producer s) (sp_ring s)" and c: "consumer_ok (sp_consumer s) (sp_ring s)"
    using assms by (simp_all add: spsc_inv_def)
  show ?thesis
  proof (cases "sp_producer s")
    case P_idle
    with assms show ?thesis by (simp add: spsc_inv_def)
  next
    case (P_tail i t)
    with p assms rb_full_iff [OF inv] rb_count_le_room [OF inv] show ?thesis
      by (auto simp: spsc_inv_def Let_def)
  next
    case (P_write i t nt)
    with p c acc inv rb_facts(4) [OF inv] consumer_ok_write [OF c, of i] show ?thesis
      by (auto simp: spsc_inv_def rb_inv_write rb_items_write rb_count_def Let_def)
  next
    case (P_publish i nt)
    with p c acc inv consumer_ok_publish [OF inv _ c] rb_items_advance_tail [OF inv] show ?thesis
      by (simp add: spsc_inv_def rb_inv_advance)
  qed
qed

lemma consumer_step_inv:
  assumes "spsc_inv s"
  shows "\<exists>s'. consumer_step s = Some s' \<and> spsc_inv s'"
proof -
  have inv: "rb_inv (sp_ring s)" and acc: "sp_accepted s = sp_delivered s @ rb_items (sp_ring s)"
    and p: "producer_ok (sp_producer s) (sp_ring s)" and c: "consumer_ok (sp_consumer s) (sp_ring s)"
    using assms by (simp_all add: spsc_inv_def)
  show ?thesis
  proof (cases "sp_consumer s")
    case C_idle
    with assms show ?thesis by (simp add: spsc_inv_def)
  next
    case (C_head h)
    with c assms show ?thesis by (auto simp: spsc_inv_def)
  next
    case (C_read h)
    with c assms rb_facts(3) [OF inv] show ?thesis by (auto simp: spsc_inv_def Let_def)
  next
    case (C_store i h)
    with c p acc inv producer_ok_advance [OF inv _ p] rb_items_advance_head [OF inv] show ?thesis
      by (auto simp: spsc_inv_def rb_inv_advance Let_def)
  qed
qed

lemma spsc_reachable_inv:
  assumes "spsc_reachable r s" "rb_inv r" "rb_items r = []"
  shows "spsc_inv s"
  using assms(1)
proof induction
  case start
  then show ?case using assms by (simp add: spsc_inv_def spsc_init_def)
next
  case (producer s x s')
  then show ?case using producer_step_inv [of s x] by auto
next
  case (consumer s s')
  then show ?case using consumer_step_inv [of s] by auto
qed

lemma spsc_no_race: "spsc_inv s \<Longrightarrow> \<not> slot_race (sp_producer s) (sp_consumer s)"
  by (cases "(sp_producer s, sp_consumer s)" rule: slot_race.cases) (auto simp: spsc_inv_def)

section \<open>Properties of the concurrent ring\<close>

text \<open>
  C7: in every interleaving of one producer and one consumer on a ring of power-of-two
  capacity: neither thread ever accesses the vector out of range (both can always take their
  next step), the two never touch the same slot at once, and what has been popped followed by
  what is stored is exactly what \<open>push\<close> has accepted, in order: nothing is lost, duplicated
  or reordered.
\<close>

theorem spsc_safe:
  assumes "k < 64" "rb_new d (2 ^ k) = Some r" "spsc_reachable r s"
  shows "sp_accepted s = sp_delivered s @ rb_items (sp_ring s)
    \<and> length (rb_items (sp_ring s)) \<le> 2 ^ k - 1
    \<and> \<not> slot_race (sp_producer s) (sp_consumer s)
    \<and> producer_step x s \<noteq> None \<and> consumer_step s \<noteq> None"
proof -
  have "(2::u64) ^ k \<noteq> 0" using unat_pow2 [OF assms(1)] by (metis power_not_zero unsigned_0 zero_neq_numeral)
  note new = rb_new_inv [OF assms(2) this]
  have "rb_room (sp_ring s) = rb_room r" using assms(3)
    by induction (auto simp: spsc_init_def Let_def split: producer_pc.splits consumer_pc.splits if_splits)
  moreover have inv: "spsc_inv s" using spsc_reachable_inv [OF assms(3)] new by simp
  moreover have "rb_count (sp_ring s) \<le> rb_room (sp_ring s)"
    using inv by (simp add: spsc_inv_def rb_count_le_room)
  ultimately show ?thesis
    using new(3) spsc_no_race [OF inv] producer_step_inv [OF inv, of x] consumer_step_inv [OF inv]
      unat_pow2 [OF assms(1)]
    by (auto simp: spsc_inv_def rb_items_length simp del: producer_step.simps consumer_step.simps)
qed

definition spsc_demo :: "int ring" where
  "spsc_demo = \<lparr>rb_capacity = 4, rb_mask = 3, rb_buffer = [0, 0, 0, 0], rb_head = 0, rb_tail = 0\<rparr>"

lemma spsc_safe_witness:
  "\<exists>s. spsc_reachable spsc_demo s \<and> sp_producer s = P_tail 7 0
    \<and> sp_accepted s = sp_delivered s @ rb_items (sp_ring s)
    \<and> length (rb_items (sp_ring s)) \<le> 2 ^ 2 - 1
    \<and> \<not> slot_race (sp_producer s) (sp_consumer s)
    \<and> producer_step 7 s \<noteq> None \<and> consumer_step s \<noteq> None"
proof -
  let ?s = "(spsc_init spsc_demo)\<lparr>sp_producer := P_tail 7 0\<rparr>"
  have "producer_step 7 (spsc_init spsc_demo) = Some ?s"
    by (simp add: spsc_init_def spsc_demo_def)
  then have r: "spsc_reachable spsc_demo ?s" by (rule spsc_reachable.producer [OF spsc_reachable.start])
  have "rb_new 0 (2 ^ 2) = Some spsc_demo" unfolding spsc_demo_def by code_simp
  from spsc_safe [OF _ this r, of 7] r show ?thesis by (intro exI [of _ ?s]) simp
qed

text \<open>The four producer steps of one call, uninterrupted, are \<open>push\<close>; likewise for \<open>pop\<close>.\<close>

lemma producer_steps_push:
  assumes "sp_producer s = P_idle" "rb_push (sp_ring s) x = Some (True, r')"
  shows "Option.bind (Option.bind (Option.bind (producer_step x s) (producer_step x))
      (producer_step x)) (producer_step x)
    = Some (s\<lparr>sp_ring := r', sp_accepted := sp_accepted s @ [x]\<rparr>)"
  using assms by (auto simp: rb_push_def Let_def split: if_splits)

lemma consumer_steps_pop:
  assumes "sp_consumer s = C_idle" "rb_pop (sp_ring s) = Some (Some y, r')"
  shows "Option.bind (Option.bind (Option.bind (consumer_step s) consumer_step)
      consumer_step) consumer_step
    = Some (s\<lparr>sp_ring := r', sp_delivered := sp_delivered s @ [y]\<rparr>)"
  using assms by (auto simp: rb_pop_def Let_def split: if_splits)

end
