(* ===== verification/Flow_Controller.thy ===== *)
theory Flow_Controller
  imports Prelude
begin

text \<open>
  \<open>common/rt_safe/FlowController.hpp\<close>: the token bucket.  Token counts, the rate and the
  burst are \<open>size_t\<close> (64-bit words, arithmetic wraps); \<open>steady_clock\<close> readings are integers
  in nanoseconds, handed to each call as an argument.  Calls do not overlap.
\<close>

record flow_controller =
  fc_rate :: u64
  fc_burst :: u64
  fc_tokens :: u64
  fc_last_update :: int

definition flow_controller_new :: "int \<Rightarrow> u64 \<Rightarrow> u64 \<Rightarrow> flow_controller" where
  "flow_controller_new now ratePerSecond burstSize =
     \<lparr>fc_rate = ratePerSecond, fc_burst = burstSize, fc_tokens = burstSize, fc_last_update = now\<rparr>"

text \<open>\<open>duration * rate_\<close> converts the (signed) duration to \<open>size_t\<close>.\<close>

definition update_tokens :: "int \<Rightarrow> flow_controller \<Rightarrow> flow_controller" where
  "update_tokens now fc =
     (let duration = trunc_div (now - fc_last_update fc) 1000 in
      if 1000 < duration then
        (let newTokens = (word_of_int duration * fc_rate fc) div 1000000 in
         if 0 < newTokens
         then fc\<lparr>fc_tokens := min (fc_burst fc) (fc_tokens fc + newTokens), fc_last_update := now\<rparr>
         else fc)
      else fc)"

definition try_acquire :: "int \<Rightarrow> u64 \<Rightarrow> flow_controller \<Rightarrow> bool \<times> flow_controller" where
  "try_acquire now n fc =
     (let fc = update_tokens now fc; current = fc_tokens fc in
      if n \<le> current then (True, fc\<lparr>fc_tokens := current - n\<rparr>) else (False, fc))"

text \<open>
  The loop of \<open>acquire\<close> over what each iteration sees: the clock reading and whether the
  weak compare-exchange fails spuriously.  None: still waiting after these iterations.
\<close>

fun acquire :: "(int \<times> bool) list \<Rightarrow> u64 \<Rightarrow> flow_controller \<Rightarrow> flow_controller option" where
  "acquire [] n fc = None"
| "acquire ((now, spurious) # its) n fc =
     (let fc = update_tokens now fc; current = fc_tokens fc in
      if n \<le> current then
        (if spurious then acquire its n fc else Some (fc\<lparr>fc_tokens := current - n\<rparr>))
      else acquire its n fc)"

text \<open>A sequence of \<open>tryAcquire\<close> calls: the tokens granted in total and the final state.\<close>

fun try_run :: "(int \<times> u64) list \<Rightarrow> flow_controller \<Rightarrow> nat \<times> flow_controller" where
  "try_run [] fc = (0, fc)"
| "try_run ((now, n) # calls) fc =
     (let (ok, fc1) = try_acquire now n fc; (g, fc2) = try_run calls fc1
      in ((if ok then unat n else 0) + g, fc2))"

section \<open>Token arithmetic\<close>

lemma update_tokens_frame [simp]:
  "fc_rate (update_tokens now fc) = fc_rate fc" "fc_burst (update_tokens now fc) = fc_burst fc"
  by (simp_all add: update_tokens_def Let_def)

lemma unat_plus_le: "unat (a + b :: u64) \<le> unat a + unat b"
  by (simp add: unat_word_ariths)

lemma unat_mult_le: "unat (a * b :: u64) \<le> unat a * unat b"
  by (simp add: unat_word_ariths)

lemma unat_of_int_le: "0 \<le> d \<Longrightarrow> int (unat (word_of_int d :: u64)) \<le> d"
  by (simp add: unat_eq_nat_uint uint_word_of_int zmod_le_nonneg_dividend)

text \<open>
  One refill adds at most \<open>rate\<close> tokens per second, whatever wraps: wrap-around only loses
  tokens.
\<close>

lemma update_tokens_gain:
  assumes "fc_last_update fc \<le> now"
  shows "fc_last_update fc \<le> fc_last_update (update_tokens now fc)
    \<and> fc_last_update (update_tokens now fc) \<le> now
    \<and> int (unat (fc_tokens (update_tokens now fc))) * 10 ^ 9
      \<le> int (unat (fc_tokens fc)) * 10 ^ 9
        + int (unat (fc_rate fc)) * (fc_last_update (update_tokens now fc) - fc_last_update fc)"
proof -
  define d where "d = (now - fc_last_update fc) div 1000"
  define nt where "nt = (word_of_int d * fc_rate fc) div (1000000 :: u64)"
  have td: "trunc_div (now - fc_last_update fc) 1000 = d"
    using assms by (simp add: d_def trunc_div_nonneg)
  have d0: "0 \<le> d" using assms by (simp add: d_def pos_imp_zdiv_nonneg_iff)
  have "unat nt = unat (word_of_int d * fc_rate fc) div 1000000"
    by (simp add: nt_def unat_div)
  then have "unat nt * 1000000 \<le> unat (word_of_int d * fc_rate fc)"
    by (simp only: div_times_less_eq_dividend)
  also have "\<dots> \<le> unat (word_of_int d :: u64) * unat (fc_rate fc)" by (rule unat_mult_le)
  finally have "int (unat nt) * 1000000 \<le> int (unat (word_of_int d :: u64)) * int (unat (fc_rate fc))"
    by (simp only: of_nat_le_iff [symmetric, where ?'a = int] of_nat_mult of_nat_numeral)
  also have "\<dots> \<le> d * int (unat (fc_rate fc))"
    using unat_of_int_le [OF d0] by (rule mult_right_mono) simp
  finally have "int (unat nt) * 10 ^ 9 \<le> int (unat (fc_rate fc)) * (1000 * d)" by simp
  also have "\<dots> \<le> int (unat (fc_rate fc)) * (now - fc_last_update fc)"
    by (rule mult_left_mono) (simp_all add: d_def)
  finally have nt: "int (unat nt) * 10 ^ 9 \<le> int (unat (fc_rate fc)) * (now - fc_last_update fc)" .
  have "unat (min (fc_burst fc) (fc_tokens fc + nt)) \<le> unat (fc_tokens fc) + unat nt"
    using unat_plus_le [of "fc_tokens fc" nt] by (simp add: min_def word_le_nat_alt)
  then have "int (unat (min (fc_burst fc) (fc_tokens fc + nt))) \<le> int (unat (fc_tokens fc)) + int (unat nt)"
    by (simp only: of_nat_add [symmetric] of_nat_le_iff)
  then have "int (unat (min (fc_burst fc) (fc_tokens fc + nt))) * 10 ^ 9
      \<le> (int (unat (fc_tokens fc)) + int (unat nt)) * 10 ^ 9" by (rule mult_right_mono) simp
  then have "int (unat (min (fc_burst fc) (fc_tokens fc + nt))) * 10 ^ 9
      \<le> int (unat (fc_tokens fc)) * 10 ^ 9 + int (unat (fc_rate fc)) * (now - fc_last_update fc)"
    using nt unfolding distrib_right by linarith
  moreover have "update_tokens now fc = fc
      \<or> update_tokens now fc = fc\<lparr>fc_tokens := min (fc_burst fc) (fc_tokens fc + nt), fc_last_update := now\<rparr>"
    by (simp add: update_tokens_def td Let_def nt_def)
  ultimately show ?thesis using assms by (elim disjE) simp_all
qed

lemma update_tokens_le_burst:
  "fc_tokens fc \<le> fc_burst fc \<Longrightarrow> fc_tokens (update_tokens now fc) \<le> fc_burst fc"
  by (simp add: update_tokens_def Let_def)

text \<open>The exact refill when nothing wraps.\<close>

lemma update_tokens_exact:
  assumes "d = (now - fc_last_update fc) div 1000" "1000 < d"
    and "d * int (unat (fc_rate fc)) < 2 ^ 64"
    and "int (unat (fc_burst fc)) + d * int (unat (fc_rate fc)) div 1000000 < 2 ^ 64"
    and "fc_tokens fc \<le> fc_burst fc"
  shows "int (unat (fc_tokens (update_tokens now fc)))
    = min (int (unat (fc_burst fc))) (int (unat (fc_tokens fc)) + d * int (unat (fc_rate fc)) div 1000000)"
proof -
  define nt where "nt = (word_of_int d * fc_rate fc) div (1000000 :: u64)"
  have "d div 1 * 1000 \<le> now - fc_last_update fc" using assms(1) by simp
  with assms(2) have "0 \<le> now - fc_last_update fc" by simp
  then have td: "trunc_div (now - fc_last_update fc) 1000 = d"
    by (simp add: assms(1) trunc_div_nonneg)
  have u: "uint (word_of_int d * fc_rate fc :: u64) = d * int (unat (fc_rate fc))"
    using assms(2,3) by (simp add: uint_word_ariths uint_word_of_int mod_mult_left_eq)
  have nt: "int (unat nt) = d * int (unat (fc_rate fc)) div 1000000"
    using u by (simp add: nt_def unat_div zdiv_int)
  have le: "unat (fc_tokens fc) \<le> unat (fc_burst fc)" using assms(5) by (simp add: word_le_nat_alt)
  have s: "unat (fc_tokens fc + nt) = unat (fc_tokens fc) + unat nt"
  proof -
    have "int (unat (fc_tokens fc)) \<le> int (unat (fc_burst fc))" using le by (simp only: of_nat_le_iff)
    then have "int (unat (fc_tokens fc) + unat nt) < 18446744073709551616"
      unfolding of_nat_add nt using assms(4) by simp
    then have "unat (fc_tokens fc) + unat nt < 18446744073709551616" by linarith
    then show ?thesis by (simp add: unat_word_ariths)
  qed
  have "fc_tokens (update_tokens now fc) = min (fc_burst fc) (fc_tokens fc + nt)"
  proof (cases "0 < nt")
    case False
    then have "nt = 0" by (simp add: word_gt_0)
    with assms(5) show ?thesis by (simp add: update_tokens_def td Let_def nt_def [symmetric] min_def)
  qed (use assms(2) in \<open>simp add: update_tokens_def td Let_def nt_def [symmetric]\<close>)
  moreover have "uint (fc_tokens fc + nt) = uint (fc_tokens fc) + uint nt"
    using arg_cong [OF s, of int] by simp
  ultimately show ?thesis using nt by (simp add: min_def word_le_def)
qed

lemma try_acquire_granted:
  "try_acquire now n fc = (ok, fc') \<Longrightarrow>
     fc_rate fc' = fc_rate fc \<and> fc_burst fc' = fc_burst fc
     \<and> fc_last_update fc' = fc_last_update (update_tokens now fc)
     \<and> (if ok then unat n else 0) + unat (fc_tokens fc') = unat (fc_tokens (update_tokens now fc))"
  by (auto simp: try_acquire_def Let_def unat_sub word_le_nat_alt split: if_splits)

lemma try_run_bound:
  assumes "sorted (map fst calls)" "\<forall>t\<in>set (map fst calls). fc_last_update fc \<le> t \<and> t \<le> end_time"
    "fc_last_update fc \<le> end_time"
  shows "int (fst (try_run calls fc)) * 10 ^ 9
    \<le> int (unat (fc_tokens fc)) * 10 ^ 9 + int (unat (fc_rate fc)) * (end_time - fc_last_update fc)"
  using assms
proof (induction calls arbitrary: fc)
  case Nil
  then show ?case by simp
next
  case (Cons c calls)
  obtain now n where c: "c = (now, n)" by (cases c)
  obtain ok fc1 where t: "try_acquire now n fc = (ok, fc1)" by fastforce
  note g = try_acquire_granted [OF t]
  have le: "fc_last_update fc \<le> now" "now \<le> end_time" using Cons.prems(2) c by auto
  note u = update_tokens_gain [OF le(1)]
  have "int (fst (try_run calls fc1)) * 10 ^ 9 \<le> int (unat (fc_tokens fc1)) * 10 ^ 9
      + int (unat (fc_rate fc1)) * (end_time - fc_last_update fc1)"
    using Cons.prems c g u le by (intro Cons.IH) auto
  moreover have "int (if ok then unat n else 0) * 10 ^ 9 + int (unat (fc_tokens fc1)) * 10 ^ 9
      = int (unat (fc_tokens (update_tokens now fc))) * 10 ^ 9"
    using g by (metis distrib_right of_nat_add)
  moreover have "int (fst (try_run (c # calls) fc))
      = int (if ok then unat n else 0) + int (fst (try_run calls fc1))"
    using t by (simp add: c split_beta)
  ultimately show ?case using g u by (simp add: algebra_simps)
qed

lemma acquire_too_big:
  "fc_tokens fc \<le> fc_burst fc \<Longrightarrow> fc_burst fc < n \<Longrightarrow> acquire its n fc = None"
proof (induction its n fc rule: acquire.induct)
  case (2 now spurious its n fc)
  have "fc_tokens (update_tokens now fc) \<le> fc_burst fc" using 2 by (simp add: update_tokens_le_burst)
  with 2 show ?case by (auto simp: Let_def)
qed simp

section \<open>Properties\<close>

text \<open>
  C8: the rate limit.  However many \<open>tryAcquire\<close> calls are made at non-decreasing times up to
  \<open>end_time\<close>, the tokens they grant never exceed the burst plus \<open>rate\<close> per second elapsed since
  construction (times in nanoseconds); this holds for all rates and bursts, wrap-around of the
  64-bit arithmetic included.
\<close>

theorem flow_rate_limit:
  assumes "sorted (start # map fst calls)" "\<forall>t\<in>set (map fst calls). t \<le> end_time" "start \<le> end_time"
  shows "int (fst (try_run calls (flow_controller_new start rate burst))) * 10 ^ 9
    \<le> int (unat burst) * 10 ^ 9 + int (unat rate) * (end_time - start)"
  using try_run_bound [of calls "flow_controller_new start rate burst" end_time] assms
  by (simp add: flow_controller_new_def)

lemma flow_rate_limit_witness:
  "int (fst (try_run [(0, 10), (500000, 3), (2000000000, 15)] (flow_controller_new 0 5 10))) * 10 ^ 9
    \<le> int (unat (10::u64)) * 10 ^ 9 + int (unat (5::u64)) * (3000000000 - 0)"
  by (rule flow_rate_limit) simp_all

text \<open>
  C9: progress of \<open>acquire\<close>.  A request of at most the burst is granted by an iteration that
  comes more than a millisecond after the last refill, late enough for the missing tokens,
  whose compare-exchange does not fail spuriously (and whose products fit 64 bits); a request
  larger than the burst is never granted, whatever the clock does.
\<close>

theorem flow_acquire_progress:
  assumes "fc_tokens fc \<le> fc_burst fc" "n \<le> fc_burst fc"
    and "1000 < (now - fc_last_update fc) div 1000"
    and "int (unat n) * 1000000 \<le> (now - fc_last_update fc) div 1000 * int (unat (fc_rate fc))"
    and "(now - fc_last_update fc) div 1000 * int (unat (fc_rate fc)) < 2 ^ 64"
    and "int (unat (fc_burst fc)) + (now - fc_last_update fc) div 1000 * int (unat (fc_rate fc)) div 1000000
      < 2 ^ 64"
    and "fc_burst fc < m"
  shows "(\<exists>fc'. acquire ((now, False) # its) n fc = Some fc' \<and> fst (try_acquire now n fc)
      \<and> fc_tokens fc' \<le> fc_burst fc)
    \<and> acquire its' m fc = None"
proof -
  have "int (unat n) \<le> (now - fc_last_update fc) div 1000 * int (unat (fc_rate fc)) div 1000000"
    using zdiv_mono1 [OF assms(4), of 1000000] by simp
  with update_tokens_exact [OF refl assms(3,5,6,1)] assms(2)
  have n: "n \<le> fc_tokens (update_tokens now fc)" by (simp add: word_le_def add_increasing)
  moreover have "fc_tokens (update_tokens now fc) - n \<le> fc_burst fc"
    using n update_tokens_le_burst [OF assms(1), of now] by (simp add: word_le_nat_alt unat_sub)
  ultimately show ?thesis using acquire_too_big [OF assms(1,7)]
    by (simp add: Let_def try_acquire_def)
qed

lemma flow_acquire_progress_witness:
  "(\<exists>fc'. acquire ((2000000000, False) # []) 10
        \<lparr>fc_rate = 5, fc_burst = 10, fc_tokens = 0, fc_last_update = 0\<rparr> = Some fc'
      \<and> fst (try_acquire 2000000000 10 \<lparr>fc_rate = 5, fc_burst = 10, fc_tokens = 0, fc_last_update = 0\<rparr>)
      \<and> fc_tokens fc' \<le> fc_burst \<lparr>fc_rate = 5, fc_burst = 10, fc_tokens = 0, fc_last_update = 0\<rparr>)
    \<and> acquire [(1, False), (5000000000, False)] 11
        \<lparr>fc_rate = 5, fc_burst = 10, fc_tokens = 0, fc_last_update = 0\<rparr> = None"
  by (rule flow_acquire_progress) simp_all

end
