(* ===== verification/Text_Parse.thy ===== *)
theory Text_Parse
  imports Number_Format
begin

text \<open>
  Reading text the way the sources do: \<open>std::isspace\<close>, \<open>operator>>\<close> into a string,
  \<open>std::string::find\<close>, and \<open>std::stoi\<close> and \<open>std::stod\<close> with the exceptions they throw.
  Both number readers skip leading white space, read the longest prefix that is a number and
  ignore what follows; \<open>stod\<close> also reads \<open>inf\<close>, \<open>nan\<close> and hexadecimal numbers.  The sign of a
  zero is not kept, as everywhere in \<open>Binary64\<close>.
\<close>

section \<open>Character classes\<close>

definition code_of :: "char \<Rightarrow> int" where
  "code_of c = of_char c"

definition is_space :: "char \<Rightarrow> bool" where
  "is_space c \<longleftrightarrow> code_of c = 32 \<or> (9 \<le> code_of c \<and> code_of c \<le> 13)"

definition is_alnum :: "char \<Rightarrow> bool" where
  "is_alnum c \<longleftrightarrow> (48 \<le> code_of c \<and> code_of c \<le> 57) \<or> (65 \<le> code_of c \<and> code_of c \<le> 90)
     \<or> (97 \<le> code_of c \<and> code_of c \<le> 122)"

definition to_lower :: "char \<Rightarrow> char" where
  "to_lower c = (if 65 \<le> code_of c \<and> code_of c \<le> 90 then char_of (code_of c + 32) else c)"

definition hex_value :: "char \<Rightarrow> int option" where
  "hex_value c =
     (if 48 \<le> code_of c \<and> code_of c \<le> 57 then Some (code_of c - 48)
      else if 65 \<le> code_of c \<and> code_of c \<le> 70 then Some (code_of c - 65 + 10)
      else if 97 \<le> code_of c \<and> code_of c \<le> 102 then Some (code_of c - 97 + 10)
      else None)"

lemma is_digit_code: "is_digit c \<longleftrightarrow> 48 \<le> code_of c \<and> code_of c \<le> 57"
proof -
  have "code_of c = int (of_char c)" by (simp only: code_of_def of_nat_of_char)
  then show ?thesis by (simp add: is_digit_def)
qed

section \<open>Searching and cutting\<close>

text \<open>\<open>find\<close>: the position of the first occurrence, None for \<open>npos\<close>.\<close>

fun find_text :: "string \<Rightarrow> string \<Rightarrow> nat option" where
  "find_text t [] = (if t = [] then Some 0 else None)"
| "find_text t (c # s) =
     (if take (length t) (c # s) = t then Some 0 else map_option Suc (find_text t s))"

lemma find_text_Some: "find_text t s = Some n \<Longrightarrow> s = take n s @ t @ drop (n + length t) s"
proof (induction s arbitrary: n)
  case (Cons c s)
  show ?case
  proof (cases "take (length t) (c # s) = t")
    case True
    with Cons.prems have "n = 0" by simp
    with True show ?thesis using append_take_drop_id [of "length t" "c # s"] by simp
  next
    case False
    with Cons.prems obtain m where m: "find_text t s = Some m" "n = Suc m" by auto
    from Cons.IH [OF m(1)] show ?thesis by (simp add: m(2))
  qed
qed (simp split: if_splits)

lemma find_text_None: "find_text t s = None \<longleftrightarrow> (\<nexists>a b. s = a @ t @ b)"
proof (induction s)
  case (Cons c s)
  show ?case
  proof
    assume n: "find_text t (c # s) = None"
    show "\<nexists>a b. c # s = a @ t @ b"
    proof
      assume "\<exists>a b. c # s = a @ t @ b"
      then obtain a b where e: "c # s = a @ t @ b" by blast
      show False
      proof (cases a)
        case Nil
        with e have "take (length t) (c # s) = t" by simp
        with n show False by simp
      next
        case (Cons d a')
        with e have "s = a' @ t @ b" by simp
        with n Cons.IH show False by (auto split: if_splits)
      qed
    qed
  next
    assume n: "\<nexists>a b. c # s = a @ t @ b"
    then have "take (length t) (c # s) \<noteq> t"
      by (metis append_take_drop_id append_Nil)
    moreover have "find_text t s = None"
      unfolding Cons.IH using n by (metis append_Cons)
    ultimately show "find_text t (c # s) = None" by simp
  qed
qed simp

text \<open>The pieces between separators, as the loops that call \<open>find(sep, start)\<close> see them: a
  separator at the very end does not open another piece.\<close>

function pieces :: "char \<Rightarrow> string \<Rightarrow> string list" where
  "pieces c s = (if s = [] then []
     else (case split_at c s of (a, None) \<Rightarrow> [a] | (a, Some r) \<Rightarrow> a # pieces c r))"
  by pat_completeness auto
termination
  by (relation "measure (length \<circ> snd)") (auto dest: split_at_shorter [OF sym])

declare pieces.simps [simp del]

lemma pieces_Nil [simp]: "pieces c [] = []"
  by (simp add: pieces.simps)

lemma pieces_last: "c \<notin> set a \<Longrightarrow> a \<noteq> [] \<Longrightarrow> pieces c a = [a]"
  by (simp add: pieces.simps [of c a] split_at_None)

lemma pieces_step: "c \<notin> set a \<Longrightarrow> pieces c (a @ c # r) = a # pieces c r"
  by (simp add: pieces.simps [of c "a @ c # r"] split_at_Some)

text \<open>Joining pieces with a separator and cutting the text again.\<close>

fun join :: "char \<Rightarrow> string list \<Rightarrow> string" where
  "join c [] = []"
| "join c [a] = a"
| "join c (a # b # r) = a @ c # join c (b # r)"

lemma pieces_join:
  "list_all (\<lambda>a. c \<notin> set a \<and> a \<noteq> []) as \<Longrightarrow> pieces c (join c as) = as"
  by (induction c as rule: join.induct) (simp_all add: pieces_last pieces_step)

text \<open>\<open>operator>>\<close> into an empty string: skip white space, read up to the next one.\<close>

definition next_token :: "string \<Rightarrow> string \<times> string" where
  "next_token s = (let r = dropWhile is_space s
     in (takeWhile (\<lambda>c. \<not> is_space c) r, dropWhile (\<lambda>c. \<not> is_space c) r))"

text \<open>\<open>std::getline\<close>: the text before the newline; None when nothing is left to read.\<close>

definition get_line :: "string \<Rightarrow> (string \<times> string) option" where
  "get_line s = (if s = [] then None
     else Some (case split_at (CHR 0x0A) s of (a, None) \<Rightarrow> (a, []) | (a, Some r) \<Rightarrow> (a, r)))"

section \<open>Numbers\<close>

datatype parse_error = Invalid_argument | Out_of_range

definition take_sign :: "string \<Rightarrow> bool \<times> string" where
  "take_sign s = (case s of [] \<Rightarrow> (False, [])
     | c # r \<Rightarrow> (if c = CHR ''-'' then (True, r) else if c = CHR ''+'' then (False, r) else (False, s)))"

definition number_of :: "int \<Rightarrow> string \<Rightarrow> int" where
  "number_of b s = foldl (\<lambda>n c. b * n + (case hex_value c of Some d \<Rightarrow> d | None \<Rightarrow> 0)) 0 s"

definition signed :: "bool \<Rightarrow> 'a::uminus \<Rightarrow> 'a" where
  "signed neg v = (if neg then - v else v)"

definition stoi :: "string \<Rightarrow> parse_error + int" where
  "stoi s = (let (neg, r) = take_sign (dropWhile is_space s);
                 ds = takeWhile is_digit r;
                 v = signed neg (number_of 10 ds)
     in if ds = [] then Inl Invalid_argument
        else if \<not> int_range v then Inl Out_of_range
        else Inr v)"

text \<open>
  A number too large for \<open>double\<close>, or one below the normal range that is not exact, makes
  \<open>strtod\<close> set ERANGE (the C library detects tininess after rounding), and \<open>stod\<close> throws.
\<close>

definition tiny_below :: rat where
  "tiny_below = 2 powi (-1022) - 2 powi (-1076)"

definition double_of_text :: "rat \<Rightarrow> parse_error + double" where
  "double_of_text q = (case round64 q of
     Fin r \<Rightarrow> (if r \<noteq> q \<and> \<bar>q\<bar> < tiny_below then Inl Out_of_range else Inr (Fin r))
   | _ \<Rightarrow> Inl Out_of_range)"

text \<open>Digits, optional point, digits: the two runs and the rest.\<close>

definition mantissa :: "(char \<Rightarrow> bool) \<Rightarrow> string \<Rightarrow> string \<times> string \<times> string" where
  "mantissa d s = (let ip = takeWhile d s; r = dropWhile d s
     in (case r of [] \<Rightarrow> (ip, [], [])
         | c # r' \<Rightarrow> (if c = CHR ''.'' then (ip, takeWhile d r', dropWhile d r') else (ip, [], r))))"

definition exponent :: "char \<Rightarrow> string \<Rightarrow> int" where
  "exponent mark s = (case s of [] \<Rightarrow> 0
     | c # r \<Rightarrow> (if to_lower c = mark
                 then (let (neg, r') = take_sign r in signed neg (number_of 10 (takeWhile is_digit r')))
                 else 0))"

definition is_hex :: "char \<Rightarrow> bool" where
  "is_hex c \<longleftrightarrow> hex_value c \<noteq> None"

definition read_hex :: "string \<Rightarrow> rat option" where
  "read_hex s = (if length s < 2 \<or> map to_lower (take 2 s) \<noteq> ''0x'' then None
     else (let (ip, fp, r) = mantissa is_hex (drop 2 s)
           in if ip @ fp = [] then None
              else Some (of_int (number_of 16 (ip @ fp)) * 2 powi (exponent CHR ''p'' r - 4 * int (length fp)))))"

definition read_decimal :: "string \<Rightarrow> rat option" where
  "read_decimal s = (let (ip, fp, r) = mantissa is_digit s
     in if ip @ fp = [] then None
        else Some (of_int (number_of 10 (ip @ fp)) * pow10 (exponent CHR ''e'' r - int (length fp))))"

definition stod :: "string \<Rightarrow> parse_error + double" where
  "stod s = (let (neg, r) = take_sign (dropWhile is_space s); word = map to_lower (take 3 r)
     in if word = ''inf'' then Inr (if neg then NInf else PInf)
        else if word = ''nan'' then Inr NaN
        else (case read_hex r of
            Some q \<Rightarrow> double_of_text (signed neg q)
          | None \<Rightarrow> (case read_decimal r of
              Some q \<Rightarrow> double_of_text (signed neg q)
            | None \<Rightarrow> Inl Invalid_argument)))"

text \<open>\<open>try { return std::stod(s); } catch (...) { return fallback; }\<close>\<close>

definition stod_or :: "string \<Rightarrow> double \<Rightarrow> double" where
  "stod_or s fallback = (case stod s of Inr d \<Rightarrow> d | Inl _ \<Rightarrow> fallback)"

end
