(* ===== verification/Http.thy ===== *)
theory Http
  imports Text_Parse Json_Interface Std_Map Metrics
begin

text \<open>
  The HTTP layer of \<open>services/map_query_api/main.cpp\<close>: reading a request from the socket,
  taking it apart, decoding its query string, and writing the response.
\<close>

section \<open>Decoding\<close>

definition trim :: "string \<Rightarrow> string" where
  "trim value = rev (dropWhile is_space (rev (dropWhile is_space value)))"

fun url_decode :: "string \<Rightarrow> string" where
  "url_decode [] = []"
| "url_decode (c # encoded) =
     (if c = CHR 0x25 \<and> 2 \<le> length encoded then
        (case (hex_value (encoded ! 0), hex_value (encoded ! 1)) of
           (Some high, Some low) \<Rightarrow> char_of (high * 16 + low) # url_decode (drop 2 encoded)
         | _ \<Rightarrow> CHR 0x25 # url_decode encoded)
      else if c = CHR ''+'' then CHR '' '' # url_decode encoded
      else c # url_decode encoded)"

type_synonym query = "(string, string) smap"

definition query_pair :: "string \<Rightarrow> query \<Rightarrow> query" where
  "query_pair pair result = (case split_at (CHR ''='') pair of
      (a, Some b) \<Rightarrow> smap_update (trim (url_decode a)) (trim (url_decode b)) result
    | (a, None) \<Rightarrow> (if pair \<noteq> [] then smap_update (trim (url_decode pair)) [] result else result))"

definition parse_query :: "string \<Rightarrow> query" where
  "parse_query query_string = fold query_pair (pieces (CHR ''&'') query_string) []"

definition parse_double :: "query \<Rightarrow> string \<Rightarrow> double option" where
  "parse_double q key = (case smap_lookup q key of
      None \<Rightarrow> None
    | Some v \<Rightarrow> (if v = [] then None else (case stod v of Inr d \<Rightarrow> Some d | Inl _ \<Rightarrow> None)))"

definition split_csv :: "string \<Rightarrow> string list" where
  "split_csv value = filter (\<lambda>item. item \<noteq> []) (map trim (pieces (CHR '','') value))"

definition split_path :: "string \<Rightarrow> string list" where
  "split_path value = filter (\<lambda>item. item \<noteq> []) (pieces (CHR ''/'') value)"

section \<open>Base64\<close>

definition base64_chars :: string where
  "base64_chars = ''ABCDEFGHIJKLMNOPQRSTUVWXYZabcdefghijklmnopqrstuvwxyz0123456789+/''"

definition is_base64 :: "char \<Rightarrow> bool" where
  "is_base64 c \<longleftrightarrow> is_alnum c \<or> c = CHR ''+'' \<or> c = CHR ''/''"

text \<open>\<open>static_cast<unsigned char>(base64_chars.find(c))\<close>: \<open>npos\<close> becomes 255.\<close>

definition base64_index :: "char \<Rightarrow> u8" where
  "base64_index c = (case find_text [c] base64_chars of Some n \<Rightarrow> of_nat n | None \<Rightarrow> 255)"

definition base64_triple :: "u8 \<Rightarrow> u8 \<Rightarrow> u8 \<Rightarrow> u8 \<Rightarrow> u8 list" where
  "base64_triple a b c d =
     [push_bit 2 a + drop_bit 4 (b AND 0x30),
      push_bit 4 (b AND 0xF) + drop_bit 2 (c AND 0x3C),
      push_bit 6 (c AND 0x3) + d]"

text \<open>What is left of an unfinished quad after the loop.\<close>

definition base64_tail :: "string \<Rightarrow> u8 list" where
  "base64_tail quad =
     (if quad = [] then [] else
        (let padded = quad @ replicate (4 - length quad) (CHR 0x00)
         in take (length quad - 1)
              (base64_triple (base64_index (padded ! 0)) (base64_index (padded ! 1))
                (base64_index (padded ! 2)) (base64_index (padded ! 3)))))"

text \<open>The loop: the counters \<open>in_len\<close> and \<open>in_\<close>, both \<open>int\<close>, the characters collected for the
  current quad, and the text from there on, which reads as a null character at its end.  None when
  a counter overflows.\<close>

fun base64_loop :: "int \<Rightarrow> int \<Rightarrow> string \<Rightarrow> string \<Rightarrow> u8 list option" where
  "base64_loop in_len pos quad (c # s) =
     (if in_len = 0 then Some (base64_tail quad)
      else if in_len = - (2 ^ 31) then None
      else if c \<noteq> CHR ''='' \<and> is_base64 c then
        (if pos = 2 ^ 31 - 1 then None
         else (let quad' = quad @ [c] in
           if length quad' = 4
           then map_option (append (base64_triple (base64_index (quad' ! 0)) (base64_index (quad' ! 1))
                  (base64_index (quad' ! 2)) (base64_index (quad' ! 3)))) (base64_loop (in_len - 1) (pos + 1) [] s)
           else base64_loop (in_len - 1) (pos + 1) quad' s))
      else Some (base64_tail quad))"
| "base64_loop in_len pos quad [] =
     (if in_len = 0 then Some (base64_tail quad)
      else if in_len = - (2 ^ 31) then None
      else Some (base64_tail quad))"

text \<open>\<open>static_cast<int>\<close> of the length keeps its 32 low bits.\<close>

definition base64_decode :: "string \<Rightarrow> u8 list option" where
  "base64_decode encoded_string =
     base64_loop (size_as_int (length encoded_string)) 0 [] encoded_string"

section \<open>Responses\<close>

definition status_text :: "int \<Rightarrow> string" where
  "status_text code =
     (if code = 200 then ''OK''
      else if code = 400 then ''Bad Request''
      else if code = 404 then ''Not Found''
      else ''Internal Server Error'')"

definition header_lines :: "(string \<times> string) list \<Rightarrow> string" where
  "header_lines hs = concat (map (\<lambda>(name, val). name @ '': '' @ val @ crlf) hs)"

definition status_line :: "int \<Rightarrow> string" where
  "status_line code = ''HTTP/1.1 '' @ to_string code @ '' '' @ status_text code @ crlf"

definition length_lines :: "nat \<Rightarrow> string" where
  "length_lines n = ''Content-Length: '' @ to_string (int n) @ crlf @ ''Connection: close'' @ crlf @ crlf"

text \<open>\<open>payload.dump(2)\<close> throws on text that is not UTF-8: then there is no response.\<close>

definition make_http_response ::
  "'j json_lib \<Rightarrow> int \<Rightarrow> 'j \<Rightarrow> (string \<times> string) list \<Rightarrow> string option" where
  "make_http_response J code payload extra_headers =
     map_option (\<lambda>body. status_line code
       @ ''Content-Type: application/json'' @ crlf
       @ ''Access-Control-Allow-Origin: *'' @ crlf
       @ ''Access-Control-Allow-Methods: GET, POST, OPTIONS'' @ crlf
       @ ''Access-Control-Allow-Headers: Content-Type'' @ crlf
       @ header_lines extra_headers
       @ length_lines (length body) @ body) (j_dump2 J payload)"

definition bytes_text :: "u8 list \<Rightarrow> string" where
  "bytes_text = map (\<lambda>b. char_of (unat b))"

definition make_binary_http_response :: "int \<Rightarrow> u8 list \<Rightarrow> (string \<times> string) list \<Rightarrow> string" where
  "make_binary_http_response code body extra_headers =
     status_line code
       @ ''Content-Type: image/png'' @ crlf
       @ ''Access-Control-Allow-Origin: *'' @ crlf
       @ header_lines extra_headers
       @ length_lines (length body) @ bytes_text body"

section \<open>Requests\<close>

record 'j http_request =
  rq_method :: string
  rq_path :: string
  rq_query :: query
  rq_body :: 'j

definition strip_cr :: "string \<Rightarrow> string" where
  "strip_cr s = (if s \<noteq> [] \<and> last s = CHR 0x0D then butlast s else s)"

definition parse_body :: "'j json_lib \<Rightarrow> string \<Rightarrow> 'j" where
  "parse_body J body_text = (if body_text = [] then j_null J
     else (case j_parse J body_text of Some b \<Rightarrow> b | None \<Rightarrow> j_obj J []))"

definition parse_http_request :: "'j json_lib \<Rightarrow> string \<Rightarrow> 'j http_request option" where
  "parse_http_request J raw = (case find_text (crlf @ crlf) raw of
      None \<Rightarrow> None
    | Some header_end \<Rightarrow> (case get_line (take header_end raw) of
        None \<Rightarrow> None
      | Some (line, _) \<Rightarrow>
          (let (meth, r) = next_token (strip_cr line);
               (uri, _) = next_token r
           in if meth = [] \<or> uri = [] then None
              else (let (path, q) = split_at (CHR ''?'') uri in
                Some \<lparr>rq_method = meth, rq_path = path,
                  rq_query = (case q of None \<Rightarrow> [] | Some s \<Rightarrow> parse_query s),
                  rq_body = parse_body J (drop (header_end + 4) raw)\<rparr>))))"

text \<open>
  \<open>readBody\<close>: the results of the \<open>recv\<close> calls are given; the loop stops at the first one that
  brings the end of the headers, at the end of the connection, or at an error.  None: the
  call is still waiting for data.
\<close>

datatype recv_result = Received string | Peer_closed | Recv_error

fun read_body :: "string \<Rightarrow> recv_result list \<Rightarrow> (int \<times> string) option" where
  "read_body text [] = None"
| "read_body text (Recv_error # rs) = Some (-1, text)"
| "read_body text (Peer_closed # rs) = Some (0, text)"
| "read_body text (Received d # rs) =
     (if d = [] then Some (0, text)
      else if find_text (crlf @ crlf) (text @ d) \<noteq> None then Some (0, text @ d)
      else read_body (text @ d) rs)"

section \<open>Blank lines\<close>

text \<open>A head as lines joined by CRLF, closed by a blank line.\<close>

definition blank :: string where
  "blank = crlf @ crlf"

definition head_lines :: "string list \<Rightarrow> string" where
  "head_lines ls = concat (map (\<lambda>l. crlf @ l) ls)"

definition plain_line :: "string \<Rightarrow> bool" where
  "plain_line l \<longleftrightarrow> l \<noteq> [] \<and> CHR 0x0D \<notin> set l \<and> CHR 0x0A \<notin> set l"

lemma find_text_here: "find_text t (t @ s) = Some 0"
proof (cases "t @ s")
  case (Cons c r)
  have "take (length t) (t @ s) = t" by simp
  then have "take (length t) (c # r) = t" by (simp only: Cons)
  then show ?thesis by (simp add: Cons)
qed simp

lemma find_text_skip:
  "t \<noteq> [] \<Longrightarrow> hd t \<notin> set a \<Longrightarrow> find_text t (a @ s) = map_option ((+) (length a)) (find_text t s)"
proof (induction a)
  case Nil
  then show ?case by (simp add: option.map_ident)
next
  case (Cons x a)
  have "take (length t) (x # a @ s) \<noteq> t"
    using Cons.prems by (cases t) auto
  with Cons show ?case by (simp add: option.map_comp comp_def)
qed

lemma find_blank_step:
  assumes "plain_line l"
  shows "find_text blank (crlf @ l @ s) = map_option ((+) (length (crlf @ l))) (find_text blank s)"
proof -
  obtain x l' where l: "l = x # l'" "x \<noteq> CHR 0x0D"
    using assms by (cases l) (auto simp: plain_line_def)
  then have "take (length blank) (crlf @ l @ s) \<noteq> blank" "take (length blank) (CHR 0x0A # l @ s) \<noteq> blank"
    by (simp_all add: blank_def crlf_def numeral_eq_Suc)
  then have "find_text blank (crlf @ l @ s) = map_option (Suc \<circ> Suc) (find_text blank (l @ s))"
    by (simp add: blank_def crlf_def option.map_comp)
  also have "find_text blank (l @ s) = map_option ((+) (length l)) (find_text blank s)"
    using assms by (intro find_text_skip) (simp_all add: blank_def crlf_def plain_line_def)
  finally show ?thesis
    by (cases "find_text blank s") (simp_all add: crlf_def)
qed

lemma find_blank:
  assumes "plain_line l" "list_all plain_line ls"
  shows "find_text blank (l @ head_lines ls @ blank @ s) = Some (length (l @ head_lines ls))"
proof -
  have "find_text blank (head_lines ls @ blank @ s) = Some (length (head_lines ls))"
    using assms(2)
  proof (induction ls)
    case Nil
    then show ?case by (simp add: head_lines_def find_text_here)
  next
    case (Cons l ls)
    have "head_lines (l # ls) @ blank @ s = crlf @ l @ (head_lines ls @ blank @ s)"
      by (simp add: head_lines_def)
    with Cons show ?case
      by (simp add: find_blank_step head_lines_def)
  qed
  moreover have "hd blank \<notin> set l"
    using assms(1) by (simp add: blank_def crlf_def plain_line_def)
  ultimately show ?thesis
    by (subst find_text_skip) (simp_all add: blank_def crlf_def)
qed

section \<open>A client reads the response\<close>

text \<open>What an HTTP client does with a response: the status line, the declared length of the
  content, and that many bytes after the blank line (RFC 9112).\<close>

definition content_length :: "string list \<Rightarrow> nat option" where
  "content_length ls = (case filter (\<lambda>l. take 16 l = ''Content-Length: '') ls of
      [l] \<Rightarrow> (if list_all is_digit (drop 16 l) then Some (num_of_digits (drop 16 l)) else None)
    | _ \<Rightarrow> None)"

definition client_reads :: "string \<Rightarrow> (string \<times> string) option" where
  "client_reads s = Option.bind (find_text blank s) (\<lambda>n.
     (case map strip_cr (pieces (CHR 0x0A) (take n s)) of
        [] \<Rightarrow> None
      | status # ls \<Rightarrow> Option.bind (content_length ls) (\<lambda>k.
          if length (drop (n + 4) s) = k then Some (status, drop (n + 4) s) else None)))"

lemma strip_cr_plain: "plain_line l \<Longrightarrow> strip_cr l = l"
  unfolding plain_line_def strip_cr_def by (metis last_in_set)

lemma pieces_lines:
  assumes "plain_line l" "list_all plain_line ls"
  shows "map strip_cr (pieces (CHR 0x0A) (l @ head_lines ls)) = l # ls"
  using assms
proof (induction ls arbitrary: l)
  case Nil
  then show ?case
    using strip_cr_plain [of l] by (simp add: head_lines_def pieces_last plain_line_def)
next
  case (Cons m ls)
  have "l @ head_lines (m # ls) = (l @ [CHR 0x0D]) @ CHR 0x0A # (m @ head_lines ls)"
    by (simp add: head_lines_def crlf_def)
  moreover have "CHR 0x0A \<notin> set (l @ [CHR 0x0D])"
    using Cons.prems by (simp add: plain_line_def)
  ultimately have "pieces (CHR 0x0A) (l @ head_lines (m # ls))
      = (l @ [CHR 0x0D]) # pieces (CHR 0x0A) (m @ head_lines ls)"
    by (simp only: pieces_step not_False_eq_True)
  with Cons show ?case by (simp add: strip_cr_def)
qed

lemma client_reads_head:
  assumes "plain_line l" "list_all plain_line ls" "content_length ls = Some (length body)"
  shows "client_reads (l @ head_lines ls @ blank @ body) = Some (l, body)"
proof -
  let ?s = "l @ head_lines ls @ blank @ body"
  have "take (length (l @ head_lines ls)) ?s = l @ head_lines ls"
    "drop (length (l @ head_lines ls) + 4) ?s = body"
    by (simp_all add: blank_def crlf_def)
  with find_blank [OF assms(1,2)] pieces_lines [OF assms(1,2)] assms(3)
  show ?thesis unfolding client_reads_def by simp
qed

lemma not_line_end_digit: "is_digit c \<Longrightarrow> c \<noteq> CHR 0x0D \<and> c \<noteq> CHR 0x0A"
  by (auto simp: is_digit_def)

lemma plain_status: "plain_line (''HTTP/1.1 '' @ to_string code @ '' '' @ status_text code)"
proof -
  have "number_char c \<Longrightarrow> c \<noteq> CHR 0x0D \<and> c \<noteq> CHR 0x0A" for c
    by (auto simp: number_char_def is_digit_def)
  with number_to_string [of code] have "c \<in> set (to_string code) \<Longrightarrow> c \<noteq> CHR 0x0D \<and> c \<noteq> CHR 0x0A" for c
    by (auto simp: list_all_iff)
  then show ?thesis by (auto simp: plain_line_def status_text_def)
qed

lemma plain_length: "plain_line (''Content-Length: '' @ digits_of n)"
  using digits_of_digits [of n] not_line_end_digit by (auto simp: plain_line_def list_all_iff)

lemma take_length_line: "take 16 (''Content-Length: '' @ t) = ''Content-Length: ''"
  "drop 16 (''Content-Length: '' @ t) = t"
  by (simp_all add: numeral_eq_Suc)

lemma json_response_read:
  "map_option client_reads (make_http_response J code payload [])
     = map_option (\<lambda>body. Some (''HTTP/1.1 '' @ to_string code @ '' '' @ status_text code, body))
         (j_dump2 J payload)"
  and picture_response_read:
  "client_reads (make_binary_http_response code picture [])
     = Some (''HTTP/1.1 '' @ to_string code @ '' '' @ status_text code, bytes_text picture)"
proof -
  let ?status = "''HTTP/1.1 '' @ to_string code @ '' '' @ status_text code"
  let ?len = "\<lambda>n. ''Content-Length: '' @ digits_of n"
  let ?json = "\<lambda>n. [''Content-Type: application/json'', ''Access-Control-Allow-Origin: *'',
     ''Access-Control-Allow-Methods: GET, POST, OPTIONS'', ''Access-Control-Allow-Headers: Content-Type'',
     ?len n, ''Connection: close'']"
  let ?png = "\<lambda>n. [''Content-Type: image/png'', ''Access-Control-Allow-Origin: *'', ?len n,
     ''Connection: close'']"
  have len: "content_length (?json n) = Some n" "content_length (?png n) = Some n" for n
    using digits_of_digits [of n] by (simp_all add: content_length_def)
  have plain: "list_all plain_line (?json n)" "list_all plain_line (?png n)" for n
    using plain_length [of n] by (simp_all add: plain_line_def)
  have "make_http_response J code payload []
      = map_option (\<lambda>body. ?status @ head_lines (?json (length body)) @ blank @ body) (j_dump2 J payload)"
    by (simp add: make_http_response_def status_line_def header_lines_def length_lines_def
        head_lines_def blank_def to_string_def)
  moreover have "make_binary_http_response code picture []
      = ?status @ head_lines (?png (length (bytes_text picture))) @ blank @ bytes_text picture"
    by (simp add: make_binary_http_response_def status_line_def header_lines_def length_lines_def
        head_lines_def blank_def to_string_def bytes_text_def)
  ultimately show
    "map_option client_reads (make_http_response J code payload [])
     = map_option (\<lambda>body. Some (''HTTP/1.1 '' @ to_string code @ '' '' @ status_text code, body))
         (j_dump2 J payload)"
    "client_reads (make_binary_http_response code picture [])
     = Some (''HTTP/1.1 '' @ to_string code @ '' '' @ status_text code, bytes_text picture)"
    using client_reads_head [OF plain_status plain(1) len(1)]
      client_reads_head [OF plain_status plain(2) len(2)]
    by (cases "j_dump2 J payload"; simp)+
qed

text \<open>
  Every response is understood: a client that reads the status line, the
  \<open>Content-Length\<close> and that many bytes gets exactly the status and the body, for a JSON payload
  (whatever its text) and for a picture; there is no response only if the payload cannot be
  written as JSON text.
\<close>

lemma responses_delivered:
  "map_option client_reads (make_http_response J code payload [])
     = map_option (\<lambda>body. Some (''HTTP/1.1 '' @ to_string code @ '' '' @ status_text code, body))
         (j_dump2 J payload)
   \<and> client_reads (make_binary_http_response code picture [])
     = Some (''HTTP/1.1 '' @ to_string code @ '' '' @ status_text code, bytes_text picture)"
  by (intro conjI json_response_read picture_response_read)

end
