(* ===== verification/Map_Store.thy ===== *)
theory Map_Store
  imports Db_Client Http Map_Analytics
begin

text \<open>
  The data side of \<open>services/map_query_api/main.cpp\<close>: the city table read from the topology
  file, the coordinates of a row, and the class \<open>MapQueryStore\<close> with the SQL text of every query
  and the JSON it turns the answer into.  Where the C++ code lets an exception of the JSON
  library escape, the model returns None.  The database is a function from statements to
  answers (\<open>Db_Client\<close>).
\<close>

section \<open>Cities and rows\<close>

record city_coordinate =
  cc_latitude :: double
  cc_longitude :: double

type_synonym city_table = "(string, city_coordinate) smap"

text \<open>The two places where the topology file may be; the second argument says which exist.\<close>

definition resolve_topology_path :: "(string \<Rightarrow> bool) \<Rightarrow> string" where
  "resolve_topology_path exists_file =
     (case filter exists_file [''configs/global_topology.json'', ''../configs/global_topology.json''] of
        candidate # _ \<Rightarrow> candidate
      | [] \<Rightarrow> ''configs/global_topology.json'')"

definition parse_number :: "'j json_lib \<Rightarrow> 'j \<Rightarrow> double \<Rightarrow> double option" where
  "parse_number J v fallback =
     (if j_is_number J v then j_get_double J v
      else if j_is_string J v then map_option (\<lambda>s. stod_or s fallback) (j_get_string J v)
      else Some fallback)"

definition load_city :: "'j json_lib \<Rightarrow> string \<Rightarrow> 'j \<Rightarrow> city_table \<Rightarrow> city_table option" where
  "load_city J region_name town coordinates =
     (if \<not> j_contains J town ''name'' \<or> \<not> j_contains J town ''latitude'' \<or> \<not> j_contains J town ''longitude''
      then Some coordinates
      else Option.bind (value_or J j_get_string town ''name'' [])
        (\<lambda>city_name. Option.bind (Option.bind (j_at J town ''latitude'') (\<lambda>v. parse_number J v (Fin 0)))
        (\<lambda>lat. Option.bind (Option.bind (j_at J town ''longitude'') (\<lambda>v. parse_number J v (Fin 0)))
        (\<lambda>lon. Some (smap_update (region_name @ '':'' @ city_name)
            \<lparr>cc_latitude = lat, cc_longitude = lon\<rparr> coordinates)))))"

fun load_cities :: "'j json_lib \<Rightarrow> string \<Rightarrow> 'j list \<Rightarrow> city_table \<Rightarrow> city_table option" where
  "load_cities J region_name [] coordinates = Some coordinates"
| "load_cities J region_name (town # cities) coordinates =
     Option.bind (load_city J region_name town coordinates) (load_cities J region_name cities)"

definition load_region :: "'j json_lib \<Rightarrow> 'j \<Rightarrow> city_table \<Rightarrow> city_table option" where
  "load_region J reg coordinates =
     Option.bind (value_or J j_get_string reg ''name'' []) (\<lambda>region_name.
       (case (if j_contains J reg ''cities'' then j_at J reg ''cities'' else None) of
          None \<Rightarrow> Some coordinates
        | Some cities \<Rightarrow> (if j_is_array J cities
            then load_cities J region_name (j_elems J cities) coordinates else Some coordinates)))"

fun load_regions :: "'j json_lib \<Rightarrow> 'j list \<Rightarrow> city_table \<Rightarrow> city_table option" where
  "load_regions J [] coordinates = Some coordinates"
| "load_regions J (reg # regions) coordinates =
     Option.bind (load_region J reg coordinates) (load_regions J regions)"

text \<open>\<open>loadCityCoordinates\<close>; the argument is the content of the topology file, if it opens.  Any
  exception gives the empty table.\<close>

definition load_city_coordinates :: "'j json_lib \<Rightarrow> string option \<Rightarrow> city_table" where
  "load_city_coordinates J topology_file = (case topology_file of None \<Rightarrow> []
     | Some content \<Rightarrow> (case j_parse J content of None \<Rightarrow> []
       | Some topology \<Rightarrow> (case j_at J topology ''topology'' of None \<Rightarrow> []
         | Some t \<Rightarrow> (case j_at J t ''regions'' of None \<Rightarrow> []
           | Some regions \<Rightarrow> (case load_regions J (j_elems J regions) [] of
               None \<Rightarrow> [] | Some coordinates \<Rightarrow> coordinates)))))"

definition row_number :: "'j json_lib \<Rightarrow> 'j \<Rightarrow> string \<Rightarrow> double option" where
  "row_number J row key = (case j_at J row key of None \<Rightarrow> None
     | Some v \<Rightarrow> (if j_is_number J v then j_get_double J v else None))"

definition row_text :: "'j json_lib \<Rightarrow> 'j \<Rightarrow> string \<Rightarrow> string \<Rightarrow> string option" where
  "row_text J row key d = value_or J j_get_string row key d"

text \<open>\<open>resolveTileCoordinate\<close>: outer None when a member has the wrong type (an exception).\<close>

definition resolve_tile_coordinate ::
  "'j json_lib \<Rightarrow> 'j \<Rightarrow> city_table \<Rightarrow> city_coordinate option option" where
  "resolve_tile_coordinate J row cities =
     (case (row_number J row ''latitude'', row_number J row ''longitude'') of
        (Some lat, Some lon) \<Rightarrow> Some (Some \<lparr>cc_latitude = lat, cc_longitude = lon\<rparr>)
      | _ \<Rightarrow> Option.bind (row_text J row ''tile_id'' []) (\<lambda>tile_id.
          Option.bind (row_text J row ''region'' []) (\<lambda>reg.
            Some (case split_at (CHR '':'') tile_id of
                (_, None) \<Rightarrow> None
              | (prefix, Some city_name) \<Rightarrow>
                  smap_lookup cities ((if reg = [] then prefix else reg) @ '':'' @ city_name)))))"

definition json_number_or :: "'j json_lib \<Rightarrow> 'j \<Rightarrow> string \<Rightarrow> double \<Rightarrow> double" where
  "json_number_or J row key fallback = (case j_at J row key of None \<Rightarrow> fallback
     | Some v \<Rightarrow>
         if j_is_null J v then fallback
         else if j_is_number J v then (case j_get_double J v of Some d \<Rightarrow> d | None \<Rightarrow> fallback)
         else if j_is_string J v then (case j_get_string J v of Some s \<Rightarrow> stod_or s fallback | None \<Rightarrow> fallback)
         else fallback)"

definition point_in_bounds ::
  "double \<Rightarrow> double \<Rightarrow> double option \<Rightarrow> double option \<Rightarrow> double option \<Rightarrow> double option \<Rightarrow> bool" where
  "point_in_bounds lat lon min_lat min_lon max_lat max_lon =
     (if (case min_lat of Some m \<Rightarrow> d_lt lat m | None \<Rightarrow> False) then False
      else if (case max_lat of Some m \<Rightarrow> d_gt lat m | None \<Rightarrow> False) then False
      else if (case min_lon of Some m \<Rightarrow> d_lt lon m | None \<Rightarrow> False) then False
      else if (case max_lon of Some m \<Rightarrow> d_gt lon m | None \<Rightarrow> False) then False
      else True)"

definition route_polyline_for :: "string \<Rightarrow> (double \<times> double) list" where
  "route_polyline_for route_id =
     (if route_id = ''route.blr_metro'' then
        [(lit (129716/10000), lit (775946/10000)), (lit (12952/1000), lit (7761/100)),
         (lit (12915/1000), lit (7764/100)), (lit (1288/100), lit (77675/1000))]
      else if route_id = ''route.hyd_metro'' then
        [(lit (17385/1000), lit (784867/10000)), (lit (1741/100), lit (78455/1000)),
         (lit (1744/100), lit (7842/100))]
      else if route_id = ''route.europe_west_corridor'' then
        [(lit (488566/10000), lit (23522/10000)), (lit (489/10), lit (25/10)),
         (lit (4898/100), lit (265/100))]
      else [])"

section \<open>Statements\<close>

text \<open>A value between quotes, as the statements write it.\<close>

definition quoted :: "string \<Rightarrow> string" where
  "quoted v = [CHR 0x27] @ sql_escape v @ [CHR 0x27]"

lemma quoted_sql_quote: "quoted v = sql_quote v"
  by (simp add: quoted_def sql_quote_def sql_escape_same)

type_synonym bounds = "double option \<times> double option \<times> double option \<times> double option"

text \<open>The optional conditions, in the order min and max latitude, min and max longitude.\<close>

definition opt_condition :: "string \<Rightarrow> double option \<Rightarrow> string" where
  "opt_condition t v = (case v of Some d \<Rightarrow> t @ ostream_double d | None \<Rightarrow> [])"

definition bounds_sql :: "bounds \<Rightarrow> string" where
  "bounds_sql b = (case b of (min_lat, min_lon, max_lat, max_lon) \<Rightarrow>
     opt_condition '' AND latitude >= '' min_lat @ opt_condition '' AND latitude <= '' max_lat
     @ opt_condition '' AND longitude >= '' min_lon @ opt_condition '' AND longitude <= '' max_lon)"

definition latest_sql :: string where
  "latest_sql = ''WITH latest AS (SELECT max(bucket_start) AS bucket_start FROM weather_tile_minute_aggregates''"

text \<open>\<open>SELECT COALESCE(json_agg(row_to_json(x)), '[]'::json)::text FROM (\<close>.\<close>

definition json_rows_sql :: "string \<Rightarrow> string" where
  "json_rows_sql x = ''SELECT COALESCE(json_agg(row_to_json('' @ x @ '')), '' @ quoted ''[]'' @ ''::json)::text FROM (''"

definition layer_expr :: "string \<Rightarrow> string" where
  "layer_expr layer =
     (if layer = ''temperature'' then ''avg_temperature''
      else if layer = ''wind'' then ''avg_wind_speed''
      else if layer = ''pressure'' then ''avg_pressure_hpa''
      else if layer = ''cloud'' then ''avg_cloud_cover''
      else if layer = ''visibility'' then ''min_visibility_km''
      else if layer = ''precipitation'' then ''max_precipitation_mm''
      else ''hazard_score'')"

definition render_tile_sql :: "string \<Rightarrow> string" where
  "render_tile_sql layer = latest_sql @ '') '' @ json_rows_sql ''tile_rows''
     @ '' SELECT tile_id, region, continent, country, latitude, longitude, hazard_score, bucket_start, ''
     @ layer_expr layer @ '' AS layer_value''
     @ '' FROM weather_tile_minute_aggregates WHERE bucket_start = (SELECT bucket_start FROM latest)''
     @ '' ORDER BY hazard_score DESC, tile_id ASC LIMIT 500) tile_rows;''"

definition sql_optional_bounds :: "bounds \<Rightarrow> string" where
  "sql_optional_bounds b = latest_sql @ '') '' @ json_rows_sql ''tile_rows''
     @ '' SELECT tile_id, region, continent, country, latitude, longitude, hazard_score, bucket_start, ''
     @ '' CASE '' @ '' WHEN '' @ quoted [] @ '' = '' @ quoted ''wind'' @ '' THEN avg_wind_speed''
     @ '' WHEN '' @ quoted [] @ '' = '' @ quoted ''visibility'' @ '' THEN COALESCE(min_visibility_km, 0)''
     @ '' WHEN '' @ quoted [] @ '' = '' @ quoted ''precipitation'' @ '' THEN COALESCE(max_precipitation_mm, 0)''
     @ '' ELSE hazard_score END AS layer_value''
     @ '' FROM weather_tile_minute_aggregates WHERE bucket_start = (SELECT bucket_start FROM latest)''
     @ '' AND latitude IS NOT NULL AND longitude IS NOT NULL''
     @ bounds_sql b @ '' ORDER BY hazard_score DESC, tile_id ASC LIMIT 100) tile_rows''"

definition layer_column :: "string \<Rightarrow> string" where
  "layer_column layer =
     (if layer = ''temperature'' then ''avg_temperature AS layer_value''
      else if layer = ''wind'' then ''avg_wind_speed AS layer_value''
      else if layer = ''pressure'' then ''COALESCE(avg_pressure_hpa, 0) AS layer_value''
      else if layer = ''cloud'' then ''COALESCE(avg_cloud_cover, 0) AS layer_value''
      else if layer = ''visibility'' then ''COALESCE(min_visibility_km, 0) AS layer_value''
      else if layer = ''precipitation'' then ''COALESCE(max_precipitation_mm, 0) AS layer_value''
      else ''hazard_score AS layer_value'')"

definition tile_snapshot_sql :: "string \<Rightarrow> bounds \<Rightarrow> string" where
  "tile_snapshot_sql layer b = latest_sql @ '') '' @ json_rows_sql ''tile_rows''
     @ '' SELECT tile_id, region, continent, country, latitude, longitude, hazard_score, primary_hazard, bucket_start, ''
     @ layer_column layer
     @ '' FROM weather_tile_minute_aggregates WHERE bucket_start = (SELECT bucket_start FROM latest)''
     @ '' AND latitude IS NOT NULL AND longitude IS NOT NULL''
     @ bounds_sql b @ '' ORDER BY hazard_score DESC, tile_id ASC LIMIT 100) tile_rows;''"

fun segment_list :: "string list \<Rightarrow> string" where
  "segment_list [] = []"
| "segment_list [s] = quoted s"
| "segment_list (s # t # r) = quoted s @ '', '' @ segment_list (t # r)"

definition route_risk_sql :: "string \<Rightarrow> string list \<Rightarrow> string" where
  "route_risk_sql route_id segment_ids =
     ''WITH latest AS (SELECT max(bucket_start) AS bucket_start FROM route_segment_risk_minute) ''
     @ json_rows_sql ''route_rows''
     @ '' SELECT route_id, segment_id, region, hazard_score, delay_factor, primary_hazard, bucket_start ''
     @ '' FROM route_segment_risk_minute WHERE bucket_start = (SELECT bucket_start FROM latest)''
     @ '' AND route_id = '' @ quoted route_id
     @ (if segment_ids = [] then [] else '' AND segment_id IN ('' @ segment_list segment_ids @ '')'')
     @ '' ORDER BY segment_id ASC) route_rows;''"

definition map_summary_sql :: "string \<Rightarrow> bounds \<Rightarrow> string \<Rightarrow> string" where
  "map_summary_sql layer b as_of = latest_sql @ ''), filtered AS (''
     @ '' SELECT * FROM weather_tile_minute_aggregates WHERE bucket_start = (SELECT bucket_start FROM latest)''
     @ '' AND latitude IS NOT NULL AND longitude IS NOT NULL'' @ bounds_sql b
     @ '') SELECT json_build_object(''
     @ quoted ''layer'' @ '', '' @ quoted layer @ '',''
     @ quoted ''tile_count'' @ '', COALESCE((SELECT count(*) FROM filtered), 0),''
     @ quoted ''avg_temperature'' @ '', (SELECT avg(avg_temperature) FROM filtered),''
     @ quoted ''avg_humidity'' @ '', (SELECT avg(avg_humidity) FROM filtered),''
     @ quoted ''avg_wind_speed'' @ '', (SELECT avg(avg_wind_speed) FROM filtered),''
     @ quoted ''avg_pressure_hpa'' @ '', (SELECT avg(avg_pressure_hpa) FROM filtered),''
     @ quoted ''avg_cloud_cover'' @ '', (SELECT avg(avg_cloud_cover) FROM filtered),''
     @ quoted ''min_visibility_km'' @ '', (SELECT min(min_visibility_km) FROM filtered),''
     @ quoted ''max_precipitation_mm'' @ '', (SELECT max(max_precipitation_mm) FROM filtered),''
     @ quoted ''avg_hazard_score'' @ '', (SELECT avg(hazard_score) FROM filtered),''
     @ quoted ''layer_value'' @ '', (SELECT avg('' @ layer_expr layer @ '') FROM filtered),''
     @ quoted ''source'' @ '', '' @ quoted ''timescale'' @ '',''
     @ quoted ''as_of'' @ '', '' @ quoted as_of @ '')::text;''"

definition baselines_sql :: "string \<Rightarrow> string" where
  "baselines_sql profile_id = json_rows_sql ''b''
     @ '' SELECT hour_of_day, baseline_value FROM personal_historical_baselines''
     @ '' WHERE profile_id = '' @ quoted profile_id @ '' ORDER BY hour_of_day ASC) b;''"

definition comparisons_sql :: "string \<Rightarrow> string" where
  "comparisons_sql profile_id = json_rows_sql ''c''
     @ '' SELECT event_time, live_value, baseline_value, variance, actuation_active''
     @ '' FROM personal_realtime_comparisons''
     @ '' WHERE profile_id = '' @ quoted profile_id @ '' ORDER BY event_time DESC LIMIT 50) c;''"

definition history_cities_sql :: string where
  "history_cities_sql = json_rows_sql ''c'' @ '' SELECT DISTINCT city, region, country, continent''
     @ '' FROM weather_city_minute_aggregates'' @ '' ORDER BY city ASC) c;''"

text \<open>The time conditions: \<open>from\<close> and \<open>to\<close> when they are not empty.\<close>

definition time_condition :: "string \<Rightarrow> string \<Rightarrow> string" where
  "time_condition op v = (if v = [] then []
     else '' AND bucket_start '' @ op @ '' '' @ quoted v @ ''::timestamptz'')"

definition history_bucket :: "string \<Rightarrow> string" where
  "history_bucket interval = (if interval = [] then ''1 hour'' else interval)"

definition history_timeseries_sql :: "string \<Rightarrow> string \<Rightarrow> string \<Rightarrow> string \<Rightarrow> string" where
  "history_timeseries_sql town from_ts to_ts interval = json_rows_sql ''t''
     @ '' SELECT time_bucket('' @ quoted (history_bucket interval) @ '', bucket_start) AS ts,''
     @ '' avg(avg_temperature) AS avg_temperature,''
     @ '' min(min_temperature) AS min_temperature,''
     @ '' max(max_temperature) AS max_temperature,''
     @ '' avg(avg_humidity) AS avg_humidity,''
     @ '' avg(avg_wind_speed) AS avg_wind_speed,''
     @ '' sum(observation_count) AS observation_count''
     @ '' FROM weather_city_minute_aggregates''
     @ '' WHERE city = '' @ quoted town
     @ time_condition ''>='' from_ts @ time_condition ''<='' to_ts
     @ '' GROUP BY ts ORDER BY ts ASC LIMIT 2000) t;''"

text \<open>One aggregate of the summary: a name, the expression, and the same conditions each time.\<close>

definition summary_item :: "string \<Rightarrow> string \<Rightarrow> string \<Rightarrow> string \<Rightarrow> string \<Rightarrow> string" where
  "summary_item name expr town from_ts to_ts = quoted name @ '', (SELECT '' @ expr
     @ '' FROM weather_city_minute_aggregates WHERE city='' @ quoted town
     @ time_condition ''>='' from_ts @ time_condition ''<='' to_ts @ ''),''"

definition history_summary_sql :: "string \<Rightarrow> string \<Rightarrow> string \<Rightarrow> string" where
  "history_summary_sql town from_ts to_ts = ''SELECT json_build_object(''
     @ quoted ''city'' @ '', '' @ quoted town @ '',''
     @ summary_item ''min_temperature'' ''min(min_temperature)'' town from_ts to_ts
     @ summary_item ''max_temperature'' ''max(max_temperature)'' town from_ts to_ts
     @ summary_item ''avg_temperature'' ''avg(avg_temperature)'' town from_ts to_ts
     @ summary_item ''avg_humidity'' ''avg(avg_humidity)'' town from_ts to_ts
     @ summary_item ''avg_wind_speed'' ''avg(avg_wind_speed)'' town from_ts to_ts
     @ summary_item ''observation_count'' ''COALESCE(sum(observation_count), 0)'' town from_ts to_ts
     @ quoted ''source'' @ '', '' @ quoted ''timescale'' @ '')::text;''"

text \<open>The statement of the refresh request, built in the connection handler.\<close>

definition refresh_sql :: "int \<Rightarrow> int \<Rightarrow> int \<Rightarrow> string \<Rightarrow> string \<Rightarrow> string" where
  "refresh_sql z x y layer as_of = ''SELECT encode(refresh_map_tile('' @ to_string z @ '','' @ to_string x
     @ '','' @ to_string y @ '', '' @ quoted layer @ '', ''
     @ (if as_of = [] then ''NULL::timestamptz'' else quoted as_of @ ''::timestamptz'')
     @ ''), '' @ quoted ''base64'' @ '')''"

end
