(* ===== verification/Map_Sql.thy ===== *)
theory Map_Sql
  imports Map_Store
begin

text \<open>
  The statements of the map query service as the database reads them: whatever a request
  carries (layer names, route and segment ids, times, city names), it arrives inside literals,
  unchanged, and the statement stays one statement.
\<close>

lemma opt_condition_pieces:
  assumes "list_all sql_bare t" "count_list t CHR '';'' = 0"
  shows "sql_literals (opt_condition t v @ s) = sql_literals s"
    and "sql_statements (opt_condition t v @ s) = sql_statements s"
  using assms
  by (cases v; simp add: opt_condition_def sql_literals_text sql_statements_text
      number_pieces [OF number_texts(1)])+

lemma bounds_pieces:
  "sql_literals (bounds_sql b @ s) = sql_literals s"
  "sql_statements (bounds_sql b @ s) = sql_statements s"
  by (cases b; simp add: bounds_sql_def opt_condition_pieces sql_bare_def)+

lemma layer_pieces:
  "sql_literals (layer_expr layer @ s) = sql_literals s"
  "sql_statements (layer_expr layer @ s) = sql_statements s"
  "sql_literals (layer_column layer @ s) = sql_literals s"
  "sql_statements (layer_column layer @ s) = sql_statements s"
proof -
  have e: "list_all sql_bare (layer_expr layer)" "count_list (layer_expr layer) CHR '';'' = 0"
    by (simp_all add: layer_expr_def sql_bare_def)
  have c: "list_all sql_bare (layer_column layer)" "count_list (layer_column layer) CHR '';'' = 0"
    by (simp_all add: layer_column_def sql_bare_def)
  show "sql_literals (layer_expr layer @ s) = sql_literals s"
    "sql_statements (layer_expr layer @ s) = sql_statements s"
    "sql_literals (layer_column layer @ s) = sql_literals s"
    "sql_statements (layer_column layer @ s) = sql_statements s"
    using e c by (simp_all add: sql_literals_text sql_statements_text)
qed

lemmas map_pieces = sql_literals_text sql_statements_text sql_quote_pieces
  number_pieces [OF number_texts(3)] bounds_pieces layer_pieces quoted_sql_quote

text \<open>A chunk that always ends in fixed text behaves like fixed text around its literals.\<close>

lemma json_rows_pieces:
  assumes "list_all sql_bare x" "count_list x CHR '';'' = 0"
  shows "sql_literals (json_rows_sql x @ s) = ''[]'' # sql_literals s"
    and "sql_statements (json_rows_sql x @ s) = sql_statements s"
  using assms unfolding json_rows_sql_def append.assoc
  by (simp_all only: map_pieces sql_text_checks)

lemma segment_list_pieces:
  assumes "t \<noteq> []" "hd t \<noteq> CHR 0x27" "ids \<noteq> []"
  shows "sql_literals (segment_list ids @ t @ s) = ids @ sql_literals (t @ s)"
    and "sql_statements (segment_list ids @ t @ s) = sql_statements (t @ s)"
proof -
  have c: "sql_literals ('', '' @ r) = sql_literals r" "sql_statements ('', '' @ r) = sql_statements r" for r
    by (simp_all only: map_pieces sql_text_checks)
  show "sql_literals (segment_list ids @ t @ s) = ids @ sql_literals (t @ s)"
    using assms(3)
  proof (induction ids rule: segment_list.induct)
    case (3 x y r)
    then show ?case using sql_quote_pieces(1) [of "'', ''" x] c(1) by (simp add: quoted_sql_quote)
  qed (use assms in \<open>simp_all add: quoted_sql_quote sql_quote_pieces\<close>)
  show "sql_statements (segment_list ids @ t @ s) = sql_statements (t @ s)"
    using assms(3)
  proof (induction ids rule: segment_list.induct)
    case (3 x y r)
    then show ?case using sql_quote_pieces(2) [of "'', ''" x] c(2) by (simp add: quoted_sql_quote)
  qed (use assms in \<open>simp_all add: quoted_sql_quote sql_quote_pieces\<close>)
qed

definition given :: "string \<Rightarrow> string list" where
  "given v = (if v = [] then [] else [v])"

lemma time_condition_pieces:
  assumes "list_all sql_bare op" "count_list op CHR '';'' = 0"
  shows "sql_literals (time_condition op v @ s) = given v @ sql_literals s"
    and "sql_statements (time_condition op v @ s) = sql_statements s"
  using assms unfolding time_condition_def given_def
  by (cases "v = []"; simp only: if_True if_False append.assoc map_pieces sql_text_checks; simp)+

lemma summary_item_pieces:
  assumes "list_all sql_bare expr" "count_list expr CHR '';'' = 0"
  shows "sql_literals (summary_item name expr town f t @ s) = [name, town] @ given f @ given t @ sql_literals s"
    and "sql_statements (summary_item name expr town f t @ s) = sql_statements s"
proof -
  have tail: "\<exists>c u. time_condition ''>='' f @ time_condition ''<='' t @ ''),'' @ s = c # u \<and> c \<noteq> CHR 0x27"
    by (simp add: time_condition_def)
  then obtain c u where cu: "time_condition ''>='' f @ time_condition ''<='' t @ ''),'' @ s = c # u" "c \<noteq> CHR 0x27"
    by blast
  have "sql_literals (sql_quote town @ c # u) = town # sql_literals (c # u)"
    "sql_statements (sql_quote town @ c # u) = sql_statements (c # u)"
    using cu(2) sql_quote_pieces [of "[c]" town u] by simp_all
  note town = this [folded cu(1)]
  show "sql_literals (summary_item name expr town f t @ s) = [name, town] @ given f @ given t @ sql_literals s"
    "sql_statements (summary_item name expr town f t @ s) = sql_statements s"
    using assms unfolding summary_item_def append.assoc
    by (simp_all only: map_pieces town time_condition_pieces sql_text_checks) simp_all
qed

text \<open>A value whose literal is followed by optional conditions and then by fixed text.\<close>

lemma quote_conditions:
  assumes "t \<noteq> []" "hd t \<noteq> CHR 0x27"
  shows "sql_literals (sql_quote v @ time_condition op1 f @ time_condition op2 g @ t @ s)
      = v # sql_literals (time_condition op1 f @ time_condition op2 g @ t @ s)"
    and "sql_statements (sql_quote v @ time_condition op1 f @ time_condition op2 g @ t @ s)
      = sql_statements (time_condition op1 f @ time_condition op2 g @ t @ s)"
proof -
  have "\<exists>c u. time_condition op1 f @ time_condition op2 g @ t @ s = c # u \<and> c \<noteq> CHR 0x27"
    using assms by (cases t; cases "f = []"; cases "g = []") (simp_all add: time_condition_def)
  then obtain c u where "time_condition op1 f @ time_condition op2 g @ t @ s = c # u" "c \<noteq> CHR 0x27"
    by blast
  then show "sql_literals (sql_quote v @ time_condition op1 f @ time_condition op2 g @ t @ s)
      = v # sql_literals (time_condition op1 f @ time_condition op2 g @ t @ s)"
    "sql_statements (sql_quote v @ time_condition op1 f @ time_condition op2 g @ t @ s)
      = sql_statements (time_condition op1 f @ time_condition op2 g @ t @ s)"
    using sql_quote_pieces [of "[c]" v u] by simp_all
qed

lemma last_piece: "sql_literals t = sql_literals (t @ [])" "sql_statements t = sql_statements (t @ [])"
  by simp_all

lemma tile_statements:
  "sql_literals (render_tile_sql layer) = [''[]'']" "sql_statements (render_tile_sql layer) = 1"
  "sql_literals (tile_snapshot_sql layer b) = [''[]'']" "sql_statements (tile_snapshot_sql layer b) = 1"
  "sql_literals (sql_optional_bounds b) = [''[]'', '''', ''wind'', '''', ''visibility'', '''', ''precipitation'']"
  unfolding render_tile_sql_def tile_snapshot_sql_def sql_optional_bounds_def latest_sql_def append.assoc
  by (subst last_piece, unfold append.assoc, simp only: map_pieces json_rows_pieces sql_text_checks, simp)+

lemma route_statement:
  "sql_literals (route_risk_sql rid ids) = ''[]'' # rid # ids" "sql_statements (route_risk_sql rid ids) = 1"
proof -
  have seg: "sql_literals (segment_list ids @ '')'' @ s) = ids @ sql_literals ('')'' @ s)"
    "sql_statements (segment_list ids @ '')'' @ s) = sql_statements ('')'' @ s)" if "ids \<noteq> []" for s
    using that by (simp_all add: segment_list_pieces del: append_Cons)
  show "sql_literals (route_risk_sql rid ids) = ''[]'' # rid # ids" "sql_statements (route_risk_sql rid ids) = 1"
    unfolding route_risk_sql_def append.assoc
    by (cases "ids = []"; subst last_piece, unfold append.assoc,
        simp only: if_True if_False append_Nil append.assoc map_pieces json_rows_pieces seg sql_text_checks, simp)+
qed

lemma summary_statement:
  "sql_literals (map_summary_sql layer b as_of)
     = [''layer'', layer, ''tile_count'', ''avg_temperature'', ''avg_humidity'', ''avg_wind_speed'',
        ''avg_pressure_hpa'', ''avg_cloud_cover'', ''min_visibility_km'', ''max_precipitation_mm'',
        ''avg_hazard_score'', ''layer_value'', ''source'', ''timescale'', ''as_of'', as_of]"
  "sql_statements (map_summary_sql layer b as_of) = 1"
  unfolding map_summary_sql_def latest_sql_def append.assoc
  by (subst last_piece, unfold append.assoc, simp only: map_pieces sql_text_checks, simp)+

lemma personal_statements:
  "sql_literals (baselines_sql profile) = [''[]'', profile]" "sql_statements (baselines_sql profile) = 1"
  "sql_literals (comparisons_sql profile) = [''[]'', profile]" "sql_statements (comparisons_sql profile) = 1"
  "sql_literals history_cities_sql = [''[]'']" "sql_statements history_cities_sql = 1"
  unfolding baselines_sql_def comparisons_sql_def history_cities_sql_def append.assoc
  by (subst last_piece, unfold append.assoc, simp only: map_pieces json_rows_pieces sql_text_checks, simp)+

lemma timeseries_statement:
  "sql_literals (history_timeseries_sql town f t interval)
     = [''[]'', history_bucket interval, town] @ given f @ given t"
  "sql_statements (history_timeseries_sql town f t interval) = 1"
  unfolding history_timeseries_sql_def append.assoc
  by (subst last_piece, unfold append.assoc,
      simp only: map_pieces json_rows_pieces quote_conditions time_condition_pieces sql_text_checks, simp)+

lemma history_summary_statement:
  "sql_literals (history_summary_sql town f t)
     = [''city'', town] @ concat (map (\<lambda>name. [name, town] @ given f @ given t)
         [''min_temperature'', ''max_temperature'', ''avg_temperature'', ''avg_humidity'',
          ''avg_wind_speed'', ''observation_count'']) @ [''source'', ''timescale'']"
  "sql_statements (history_summary_sql town f t) = 1"
  unfolding history_summary_sql_def append.assoc
  by (subst last_piece, unfold append.assoc,
      simp only: map_pieces summary_item_pieces sql_text_checks, simp)+

lemma refresh_statement:
  "sql_literals (refresh_sql z x y layer as_of) = [layer] @ given as_of @ [''base64'']"
  "sql_statements (refresh_sql z x y layer as_of) = 0"
  unfolding refresh_sql_def given_def append.assoc
  by (cases "as_of = []"; subst last_piece, unfold append.assoc,
      simp only: if_True if_False append.assoc map_pieces sql_text_checks, simp)+

text \<open>
  C23: no request can escape a literal of the query service.  Lexing each statement finds as
  literals exactly its fixed ones and the values of the request, unchanged; layer names only
  choose among fixed columns; and each statement is one statement, whatever the values hold.
\<close>

theorem map_sql_injection_safe:
  "sql_literals (render_tile_sql layer) = [''[]''] \<and> sql_literals (tile_snapshot_sql layer b) = [''[]'']
   \<and> sql_literals (route_risk_sql rid ids) = ''[]'' # rid # ids
   \<and> sql_literals (map_summary_sql layer b as_of)
     = [''layer'', layer, ''tile_count'', ''avg_temperature'', ''avg_humidity'', ''avg_wind_speed'',
          ''avg_pressure_hpa'', ''avg_cloud_cover'', ''min_visibility_km'', ''max_precipitation_mm'',
          ''avg_hazard_score'', ''layer_value'', ''source'', ''timescale'', ''as_of'', as_of]
   \<and> sql_literals (baselines_sql profile) = [''[]'', profile]
   \<and> sql_literals (comparisons_sql profile) = [''[]'', profile]
   \<and> sql_literals (history_timeseries_sql town f t interval)
     = [''[]'', history_bucket interval, town] @ given f @ given t
   \<and> sql_literals (history_summary_sql town f t)
     = [''city'', town] @ concat (map (\<lambda>name. [name, town] @ given f @ given t)
         [''min_temperature'', ''max_temperature'', ''avg_temperature'', ''avg_humidity'',
          ''avg_wind_speed'', ''observation_count'']) @ [''source'', ''timescale'']
   \<and> sql_literals (refresh_sql z x y layer as_of) = [layer] @ given as_of @ [''base64'']
   \<and> map sql_statements [render_tile_sql layer, tile_snapshot_sql layer b, route_risk_sql rid ids,
        map_summary_sql layer b as_of, baselines_sql profile, comparisons_sql profile,
        history_timeseries_sql town f t interval, history_summary_sql town f t]
     = replicate 8 1
   \<and> sql_statements (refresh_sql z x y layer as_of) = 0"
  by (simp only: tile_statements route_statement summary_statement personal_statements
      timeseries_statement history_summary_statement refresh_statement list.map simp_thms)
    (simp add: numeral_eq_Suc)

end
