(* ===== verification/Png.thy ===== *)
theory Png
  imports Prelude
begin

text \<open>
  \<open>encodePngRgba\<close> of \<open>services/map_query_api/main.cpp\<close>: a PNG file with one stored (not
  compressed) zlib stream, its CRC and Adler checksums.  The reference side of the theory is a
  PNG reader that checks every length and checksum, with the bitwise definition of the CRC.
\<close>

type_synonym bytes = "u8 list"

section \<open>The encoder\<close>

definition u32_bytes :: "u32 \<Rightarrow> bytes" where
  "u32_bytes v = [ucast (drop_bit 24 v AND 0xFF), ucast (drop_bit 16 v AND 0xFF),
     ucast (drop_bit 8 v AND 0xFF), ucast (v AND 0xFF)]"

definition append_uint32 :: "bytes \<Rightarrow> u32 \<Rightarrow> bytes" where
  "append_uint32 out v = out @ u32_bytes v"

definition crc_bit :: "u32 \<Rightarrow> u32" where
  "crc_bit crc = (if crc AND 1 \<noteq> 0 then 0xEDB88320 XOR drop_bit 1 crc else drop_bit 1 crc)"

definition crc_table :: "u32 list" where
  "crc_table = map (\<lambda>index. (crc_bit ^^ 8) (of_nat index)) [0..<256]"

definition crc_step :: "u8 \<Rightarrow> u32 \<Rightarrow> u32" where
  "crc_step byte crc = crc_table ! unat ((crc XOR ucast byte) AND 0xFF) XOR drop_bit 8 crc"

definition crc32 :: "bytes \<Rightarrow> u32" where
  "crc32 data = fold crc_step data 0xFFFFFFFF XOR 0xFFFFFFFF"

definition adler_step :: "u8 \<Rightarrow> u32 \<times> u32 \<Rightarrow> u32 \<times> u32" where
  "adler_step byte ab = (let a = (fst ab + ucast byte) mod 65521 in (a, (snd ab + a) mod 65521))"

definition adler32 :: "bytes \<Rightarrow> u32" where
  "adler32 data = (let (a, b) = fold adler_step data (1, 0) in push_bit 16 b OR a)"

definition ascii :: "string \<Rightarrow> bytes" where
  "ascii s = map (\<lambda>c. word_of_int (of_char c)) s"

definition append_chunk :: "bytes \<Rightarrow> string \<Rightarrow> bytes \<Rightarrow> bytes" where
  "append_chunk out type data =
     append_uint32 (append_uint32 out (of_nat (length data)) @ ascii type @ data) (crc32 (ascii type @ data))"

text \<open>The rows, each behind a filter byte 0.  None: the source reads outside \<open>rgba\<close>.\<close>

definition png_row :: "int \<Rightarrow> bytes \<Rightarrow> nat \<Rightarrow> bytes option" where
  "png_row width rgba row = (let w = 4 * nat width in
     if width < 0 \<or> length rgba < row * w + w then None
     else Some (0 # take w (drop (row * w) rgba)))"

fun png_rows :: "int \<Rightarrow> bytes \<Rightarrow> nat list \<Rightarrow> bytes option" where
  "png_rows width rgba [] = Some []"
| "png_rows width rgba (row # rows) = (case png_row width rgba row of None \<Rightarrow> None
     | Some r \<Rightarrow> map_option (\<lambda>rest. r @ rest) (png_rows width rgba rows))"

definition block_header :: "bool \<Rightarrow> u16 \<Rightarrow> bytes" where
  "block_header final len = [if final then 1 else 0,
     ucast (len AND 0xFF), ucast (drop_bit 8 len AND 0xFF),
     ucast (NOT len AND 0xFF), ucast (drop_bit 8 (NOT len) AND 0xFF)]"

function stored_blocks :: "bytes \<Rightarrow> bytes" where
  "stored_blocks raw = (if raw = [] then []
     else (let chunk = take 65535 raw; rest = drop 65535 raw
           in block_header (rest = []) (of_nat (length chunk)) @ chunk @ stored_blocks rest))"
  by pat_completeness auto
termination by (relation "measure length") auto

declare stored_blocks.simps [simp del]

definition zlib_stored :: "bytes \<Rightarrow> bytes" where
  "zlib_stored raw = append_uint32 ([0x78, 0x01] @ stored_blocks raw) (adler32 raw)"

definition png_signature :: bytes where
  "png_signature = [0x89, 0x50, 0x4E, 0x47, 0x0D, 0x0A, 0x1A, 0x0A]"

definition png_header :: "int \<Rightarrow> int \<Rightarrow> bytes" where
  "png_header width height =
     append_uint32 (append_uint32 [] (word_of_int width)) (word_of_int height) @ [8, 6, 0, 0, 0]"

definition encode_png_rgba :: "int \<Rightarrow> int \<Rightarrow> bytes \<Rightarrow> bytes option" where
  "encode_png_rgba width height rgba =
     map_option (\<lambda>raw. append_chunk (append_chunk (append_chunk png_signature
         ''IHDR'' (png_header width height)) ''IDAT'' (zlib_stored raw)) ''IEND'' [])
       (png_rows width rgba [0..<nat height])"

section \<open>A reader of PNG files\<close>

text \<open>The definition of the checksum (ISO 3309, as the PNG standard quotes it): the bits of the
  message, the low bit of a byte first, enter a register that divides by the polynomial
  \<open>x^32 + x^26 + ... + x + 1\<close>.  The register holds the coefficient of \<open>x^31\<close> in its bit 0.\<close>

definition crc_exponents :: "nat list" where
  "crc_exponents = [26, 23, 22, 16, 12, 11, 10, 8, 7, 5, 4, 2, 1, 0]"

definition crc_register :: "bool \<Rightarrow> u32 \<Rightarrow> u32" where
  "crc_register message crc =
     (if bit crc 0 \<noteq> message then fold (\<lambda>e. flip_bit (31 - e)) crc_exponents (drop_bit 1 crc) else drop_bit 1 crc)"

definition message_bits :: "bytes \<Rightarrow> bool list" where
  "message_bits data = concat (map (\<lambda>byte. map (bit byte) [0..<8]) data)"

definition crc_bitwise :: "bytes \<Rightarrow> u32" where
  "crc_bitwise data = NOT (fold crc_register (message_bits data) (NOT 0))"

text \<open>The Adler checksum of RFC 1950 over natural numbers: the plain and the weighted sum.\<close>

definition adler_sum :: "bytes \<Rightarrow> nat" where
  "adler_sum data = (1 + sum_list (map unat data)) mod 65521"

fun adler_weighted :: "nat \<Rightarrow> bytes \<Rightarrow> nat" where
  "adler_weighted a [] = 0"
| "adler_weighted a (x # data) = (a + unat x) + adler_weighted (a + unat x) data"

definition adler_reference :: "bytes \<Rightarrow> nat" where
  "adler_reference data = (adler_weighted 1 data mod 65521) * 65536 + adler_sum data"

definition read_u32 :: "bytes \<Rightarrow> (u32 \<times> bytes) option" where
  "read_u32 bs = (case bs of a # b # c # d # r \<Rightarrow>
       Some (push_bit 24 (ucast a) OR push_bit 16 (ucast b) OR push_bit 8 (ucast c) OR ucast d, r)
     | _ \<Rightarrow> None)"

definition read_chunk :: "string \<Rightarrow> bytes \<Rightarrow> (bytes \<times> bytes) option" where
  "read_chunk type bs = Option.bind (read_u32 bs) (\<lambda>(n, r).
     if length r < 4 + unat n \<or> take 4 r \<noteq> ascii type then None
     else Option.bind (read_u32 (drop (4 + unat n) r)) (\<lambda>(crc, rest).
       if crc = crc_bitwise (take (4 + unat n) r) then Some (take (unat n) (drop 4 r), rest) else None))"

function inflate_stored :: "bytes \<Rightarrow> (bytes \<times> bytes) option" where
  "inflate_stored bs = (case bs of f # l0 # l1 # n0 # n1 # r \<Rightarrow>
      (let len = push_bit 8 (ucast l1) OR ucast l0 :: u16; nlen = push_bit 8 (ucast n1) OR ucast n0 in
       if nlen \<noteq> NOT len \<or> length r < unat len \<or> f \<notin> {0, 1} then None
       else if f = 1 then Some (take (unat len) r, drop (unat len) r)
       else map_option (\<lambda>(d, rest). (take (unat len) r @ d, rest)) (inflate_stored (drop (unat len) r)))
    | _ \<Rightarrow> None)"
  by pat_completeness auto
termination by (relation "measure length") auto

declare inflate_stored.simps [simp del]

definition read_zlib :: "bytes \<Rightarrow> bytes option" where
  "read_zlib bs = (if take 2 bs \<noteq> [0x78, 0x01] then None
     else Option.bind (inflate_stored (drop 2 bs)) (\<lambda>(d, r).
       Option.bind (read_u32 r) (\<lambda>(a, rest).
         if rest = [] \<and> unat a = adler_reference d then Some d else None)))"

text \<open>Rows of \<open>w\<close> bytes behind a filter byte that must be 0.\<close>

fun unfilter :: "nat \<Rightarrow> nat \<Rightarrow> bytes \<Rightarrow> bytes option" where
  "unfilter w 0 bs = (if bs = [] then Some [] else None)"
| "unfilter w (Suc h) (f # bs) =
     (if f = 0 \<and> w \<le> length bs then map_option (\<lambda>rest. take w bs @ rest) (unfilter w h (drop w bs)) else None)"
| "unfilter w (Suc h) [] = None"

definition decode_png :: "bytes \<Rightarrow> (nat \<times> nat \<times> bytes) option" where
  "decode_png bs = (if take 8 bs \<noteq> png_signature then None
     else Option.bind (read_chunk ''IHDR'' (drop 8 bs)) (\<lambda>(h, r1).
       Option.bind (read_u32 h) (\<lambda>(width, h1). Option.bind (read_u32 h1) (\<lambda>(height, h2).
         if h2 \<noteq> [8, 6, 0, 0, 0] then None
         else Option.bind (read_chunk ''IDAT'' r1) (\<lambda>(z, r2). Option.bind (read_chunk ''IEND'' r2) (\<lambda>(e, r3).
           if e \<noteq> [] \<or> r3 \<noteq> [] then None
           else Option.bind (read_zlib z) (\<lambda>raw.
             map_option (\<lambda>p. (unat width, unat height, p)) (unfilter (4 * unat width) (unat height) raw))))))))"

section \<open>The checksums\<close>

lemma crc_bit_alt: "crc_bit x = (if bit x 0 then 0xEDB88320 XOR drop_bit 1 x else drop_bit 1 x)"
  by (simp add: crc_bit_def and_one_eq bit_0 mod_2_eq_odd)

lemma xor_twice: "(x :: 'a::len word) XOR (x XOR y) = y"
  by (simp flip: xor.assoc)

lemma crc_bit_xor: "crc_bit (a XOR b) = crc_bit a XOR crc_bit b"
  by (cases "bit a 0"; cases "bit b 0")
    (simp_all only: crc_bit_alt bit_xor_iff drop_bit_xor xor_twice xor.assoc xor.left_commute
      if_True if_False simp_thms)

lemma crc_bits_xor: "(crc_bit ^^ n) (a XOR b) = (crc_bit ^^ n) a XOR (crc_bit ^^ n) b"
  by (induction n) (simp_all add: crc_bit_xor)

lemma crc_bits_high:
  "(\<And>i. i < n \<Longrightarrow> \<not> bit w i) \<Longrightarrow> (crc_bit ^^ n) w = drop_bit n w"
proof (induction n)
  case (Suc n)
  then have "(crc_bit ^^ n) w = drop_bit n w" by simp
  moreover have "\<not> bit (drop_bit n w) 0" using Suc.prems [of n] by (simp add: bit_drop_bit_eq)
  then have "crc_bit (drop_bit n w) = drop_bit 1 (drop_bit n w)" by (simp only: crc_bit_alt if_False)
  ultimately show ?case by (simp add: drop_bit_drop_bit)
qed simp

lemma low_byte: "0xFF = (mask 8 :: 'a::len word)"
  by (simp add: mask_eq_exp_minus_1)

lemma crc_table_entry: "crc_table ! unat ((w :: u32) AND 0xFF) = (crc_bit ^^ 8) (w AND 0xFF)"
proof -
  have "w AND 0xFF \<le> 0xFF" by (rule word_and_le1)
  then have "unat (w AND 0xFF) < 256" by (simp add: word_le_nat_alt)
  then have "crc_table ! unat (w AND 0xFF) = (crc_bit ^^ 8) (of_nat (unat (w AND 0xFF)))"
    unfolding crc_table_def by (subst nth_map) simp_all
  then show ?thesis by simp
qed

lemma crc_step_bitwise: "crc_step byte crc = (crc_bit ^^ 8) (crc XOR ucast byte)"
proof -
  let ?w = "crc XOR ucast byte :: u32"
  have split: "?w = (?w AND mask 8) XOR (?w AND NOT (mask 8))"
    by (rule bit_word_eqI) (auto simp: bit_simps)
  have low: "\<not> bit (?w AND NOT (mask 8)) i" if "i < 8" for i
    using that by (simp add: bit_simps)
  have "(crc_bit ^^ 8) ?w = (crc_bit ^^ 8) (?w AND mask 8) XOR (crc_bit ^^ 8) (?w AND NOT (mask 8))"
    by (subst split) (rule crc_bits_xor)
  also have "(crc_bit ^^ 8) (?w AND NOT (mask 8)) = drop_bit 8 (?w AND NOT (mask 8))"
    by (rule crc_bits_high) (rule low)
  also have "\<dots> = drop_bit 8 crc"
    by (rule bit_word_eqI) (auto simp: bit_simps dest: bit_imp_le_length)
  finally show ?thesis by (simp only: crc_step_def crc_table_entry) (simp only: low_byte)
qed

text \<open>The register against the shifts of the table.\<close>

lemma flip_bits: "fold (\<lambda>e. flip_bit (31 - e)) crc_exponents w = (0xEDB88320 :: u32) XOR w"
proof -
  have one: "flip_bit n x = push_bit n 1 XOR x" for n and x :: u32
    by (simp add: flip_bit_eq_xor xor.commute)
  have "fold (\<lambda>e. flip_bit (31 - e)) es w = fold (\<lambda>e. (XOR) (push_bit (31 - e) 1)) es 0 XOR w" for es and w :: u32
  proof (induction es arbitrary: w rule: rev_induct)
    case (snoc e es)
    show ?case by (simp only: fold_append fold_simps comp_apply snoc [of w]) (simp only: one xor.assoc)
  qed simp
  moreover have "fold (\<lambda>e. (XOR) (push_bit (31 - e) 1)) crc_exponents (0 :: u32) = 0xEDB88320"
    by (simp add: crc_exponents_def push_bit_eq_mult)
  ultimately show ?thesis by simp
qed

lemma crc_register_bit: "crc_register b crc = crc_bit (crc XOR of_bool b)"
proof -
  have "drop_bit 1 (of_bool b :: u32) = 0" "bit (of_bool b :: u32) 0 = b" by (cases b; simp)+
  then show ?thesis
    by (simp only: crc_register_def crc_bit_alt flip_bits bit_xor_iff drop_bit_xor xor.right_neutral)
qed

lemma crc_register_byte:
  "fold crc_register (map (bit byte) [0..<n]) crc = (crc_bit ^^ n) (crc XOR take_bit n (ucast (byte :: u8)))"
  if "n \<le> 8"
  using that
proof (induction n)
  case (Suc n)
  let ?b = "of_bool (bit byte n) :: u32"
  have "drop_bit n (push_bit n ?b) = ?b"
    by (rule bit_word_eqI) (use Suc.prems in \<open>auto simp: bit_simps\<close>)
  then have shifted: "(crc_bit ^^ n) (push_bit n ?b) = ?b"
    by (subst crc_bits_high) (simp_all add: bit_push_bit_iff)
  have next_bit: "take_bit (Suc n) (ucast byte :: u32) = take_bit n (ucast byte) XOR push_bit n ?b"
    by (rule bit_word_eqI) (use Suc.prems in \<open>auto simp: bit_simps less_Suc_eq\<close>)
  have "fold crc_register (map (bit byte) [0..<Suc n]) crc
      = crc_bit ((crc_bit ^^ n) (crc XOR take_bit n (ucast byte)) XOR ?b)"
  proof -
    have "fold crc_register (map (bit byte) [0..<Suc n]) crc
        = crc_register (bit byte n) (fold crc_register (map (bit byte) [0..<n]) crc)" by simp
    then show ?thesis using Suc by (simp only: crc_register_bit Suc_leD)
  qed
  also have "\<dots> = crc_bit ((crc_bit ^^ n) (crc XOR take_bit (Suc n) (ucast byte)))"
    by (simp only: next_bit crc_bits_xor shifted xor.assoc)
  finally show ?case by simp
qed simp

lemma crc_register_bytes:
  "fold crc_register (message_bits data) crc = fold (\<lambda>byte crc. (crc_bit ^^ 8) (crc XOR ucast byte)) data crc"
proof (induction data arbitrary: crc)
  case (Cons byte data)
  have "take_bit 8 (ucast byte :: u32) = ucast byte"
    by (rule bit_word_eqI) (auto simp: bit_simps dest: bit_imp_le_length)
  with crc_register_byte [of 8 byte crc] Cons show ?case by (simp add: message_bits_def)
qed (simp add: message_bits_def)

lemma crc32_eq: "crc32 data = crc_bitwise data"
proof -
  have "crc_step = (\<lambda>byte crc. (crc_bit ^^ 8) (crc XOR ucast byte))"
    by (intro ext crc_step_bitwise)
  moreover have "NOT w = w XOR 0xFFFFFFFF" for w :: u32
  proof -
    have "(0xFFFFFFFF :: u32) = NOT 0" by simp
    then show ?thesis by (simp only: bit.xor_one_right bit.compl_zero)
  qed
  ultimately show ?thesis by (simp add: crc32_def crc_bitwise_def crc_register_bytes)
qed

text \<open>
  C20: the table-driven checksum of \<open>encodePngRgba\<close> is the CRC-32 of the PNG standard, for every
  input: the remainder that the shift register of the standard polynomial leaves when it is fed the
  message bit by bit.
\<close>

theorem crc32_bitwise: "crc32 data = crc_bitwise data"
  by (rule crc32_eq)

section \<open>Numbers and chunks read back\<close>

lemma byte_word: "ucast (ucast (w AND 0xFF) :: u8) = w AND (0xFF :: 'a::len word)" if "8 \<le> LENGTH('a)"
  unfolding low_byte by (rule bit_word_eqI) (use that in \<open>auto simp: bit_simps\<close>)

lemma u32_pieces:
  "push_bit 24 (drop_bit 24 v AND 0xFF) OR push_bit 16 (drop_bit 16 v AND 0xFF)
      OR push_bit 8 (drop_bit 8 v AND 0xFF) OR (v AND 0xFF) = (v :: u32)"
  unfolding low_byte
proof (rule bit_word_eqI)
  fix n assume "n < LENGTH(32)"
  then consider "n < 8" | "8 \<le> n" "n < 16" | "16 \<le> n" "n < 24" | "24 \<le> n" "n < 32"
    by (auto simp: not_less [symmetric])
  then show "bit (push_bit 24 (drop_bit 24 v AND mask 8) OR push_bit 16 (drop_bit 16 v AND mask 8)
      OR push_bit 8 (drop_bit 8 v AND mask 8) OR (v AND mask 8)) n = bit v n"
    by cases (auto simp: bit_simps)
qed

lemma read_u32_bytes: "read_u32 (u32_bytes v @ r) = Some (v, r)"
  by (simp add: read_u32_def u32_bytes_def byte_word u32_pieces del: push_bit_and)

lemma length_u32_bytes [simp]: "length (u32_bytes v) = 4"
  by (simp add: u32_bytes_def)

lemma u16_bytes:
  "push_bit 8 (ucast (ucast (drop_bit 8 w AND 0xFF) :: u8)) OR ucast (ucast (w AND 0xFF) :: u8) = (w :: u16)"
proof -
  have "push_bit 8 (drop_bit 8 w AND 0xFF) OR (w AND 0xFF) = w"
    unfolding low_byte by (rule bit_word_eqI) (auto simp: bit_simps)
  then show ?thesis by (simp add: byte_word del: push_bit_and)
qed

definition chunk_bytes :: "string \<Rightarrow> bytes \<Rightarrow> bytes" where
  "chunk_bytes type data = append_chunk [] type data"

lemma append_chunk_out: "append_chunk out type data = out @ chunk_bytes type data"
  by (simp add: chunk_bytes_def append_chunk_def append_uint32_def)

lemma read_chunk_bytes:
  assumes "length type = 4" "length data < 2 ^ 32"
  shows "read_chunk type (chunk_bytes type data @ r) = Some (data, r)"
proof -
  let ?n = "of_nat (length data) :: u32"
  have n: "unat ?n = length data" using assms(2) by (simp add: unat_of_nat take_bit_nat_eq_self)
  have l: "length (ascii type) = 4" using assms(1) by (simp add: ascii_def)
  have "chunk_bytes type data @ r
      = u32_bytes ?n @ (ascii type @ data) @ u32_bytes (crc32 (ascii type @ data)) @ r"
    by (simp add: chunk_bytes_def append_chunk_def append_uint32_def)
  moreover have "take (4 + length data) ((ascii type @ data) @ x) = ascii type @ data"
    "drop (4 + length data) ((ascii type @ data) @ x) = x" for x
    using l by simp_all
  ultimately show ?thesis
    using l by (simp only: read_chunk_def read_u32_bytes bind.bind_lunit prod.case n)
      (simp add: read_u32_bytes crc32_eq)
qed

section \<open>The zlib stream\<close>

lemma adler_mod:
  "a mod 65521 = a' mod 65521 \<Longrightarrow> adler_weighted a data mod 65521 = adler_weighted a' data mod 65521"
proof (induction data arbitrary: a a')
  case (Cons x data)
  have step: "(a + unat x) mod 65521 = (a' + unat x) mod 65521"
    using Cons.prems by (rule mod_add_cong) simp
  from Cons.IH [OF step] step show ?case by (auto intro: mod_add_cong)
qed simp

lemma adler_fold:
  assumes "a < 65521" "b < 65521" "fold adler_step data (a, b) = (a', b')"
  shows "a' < 65521 \<and> b' < 65521 \<and> unat a' = (unat a + sum_list (map unat data)) mod 65521
    \<and> unat b' = (unat b + adler_weighted (unat a) data) mod 65521"
  using assms
proof (induction data arbitrary: a b)
  case Nil
  then show ?case by (simp add: word_less_nat_alt)
next
  case (Cons x data)
  let ?a = "(a + ucast x) mod 65521" and ?b = "(b + (a + ucast x) mod 65521) mod 65521"
  have small: "unat x < 256" using unsigned_less [of x] by simp
  then have x: "unat (ucast x :: u32) = unat x" by (simp add: unsigned_ucast_eq take_bit_nat_eq_self)
  from small have ax: "unat (a + ucast x) = unat a + unat x"
    using Cons.prems(1) by (subst unat_add_lem [THEN iffD1]) (simp_all add: x word_less_nat_alt)
  then have a: "unat ?a = (unat a + unat x) mod 65521" by (simp add: unat_mod)
  have "unat ?a < 65521" by (simp add: a)
  then have "unat (b + ?a) = unat b + unat ?a"
    using Cons.prems(2) by (subst unat_add_lem [THEN iffD1]) (simp_all add: word_less_nat_alt)
  then have b: "unat ?b = (unat b + (unat a + unat x) mod 65521) mod 65521" by (simp add: unat_mod ax)
  have less: "?a < 65521" "?b < 65521" using a b by (simp_all add: word_less_nat_alt)
  have "adler_step x (a, b) = (?a, ?b)" by (simp add: adler_step_def Let_def)
  with Cons.prems(3) have "fold adler_step data (?a, ?b) = (a', b')" by simp
  from Cons.IH [OF less this] have ih: "a' < 65521" "b' < 65521"
    "unat a' = (unat ?a + sum_list (map unat data)) mod 65521"
    "unat b' = (unat ?b + adler_weighted (unat ?a) data) mod 65521" by simp_all
  have "adler_weighted (unat ?a) data mod 65521 = adler_weighted (unat a + unat x) data mod 65521"
    by (rule adler_mod) (simp add: a)
  then have "unat b' = (unat b + adler_weighted (unat a) (x # data)) mod 65521"
    using ih(4) by (simp add: b mod_simps) (metis (no_types, opaque_lifting) add.assoc mod_add_right_eq)
  then show ?case using ih by (simp add: a mod_simps add.assoc)
qed

lemma adler32_reference: "unat (adler32 data) = adler_reference data"
proof -
  obtain a b where f: "fold adler_step data (1, 0) = (a, b)" by fastforce
  have ab: "a < 65521" "b < 65521" "unat a = adler_sum data"
    "unat b = adler_weighted 1 data mod 65521"
    using adler_fold [OF _ _ f] by (simp_all add: adler_sum_def)
  have bound: "unat a < 65536" "unat b < 65536" using ab(1,2) by (simp_all add: word_less_nat_alt)
  have "push_bit 16 b AND a = 0"
  proof (rule bit_word_eqI)
    fix n assume "n < LENGTH(32)"
    have "unat (take_bit 16 a) = unat a" using bound(1) by (simp add: unsigned_take_bit_eq take_bit_nat_eq_self)
    then have "a = take_bit 16 a" by (simp only: word_unat_eq_iff)
    then have "n \<ge> 16 \<Longrightarrow> \<not> bit a n" by (metis bit_take_bit_iff not_less)
    then show "bit (push_bit 16 b AND a) n = bit (0 :: u32) n" by (auto simp: bit_simps)
  qed
  then have "push_bit 16 b OR a = push_bit 16 b + a" by (simp add: disjunctive_add_eq_or)
  moreover have "unat (push_bit 16 b) = unat b * 65536"
    using bound(2) by (simp add: push_bit_eq_mult unat_word_ariths(2))
  moreover from this have "unat (push_bit 16 b + a) = unat b * 65536 + unat a"
    using bound by (subst unat_add_lem [THEN iffD1]) simp_all
  ultimately show ?thesis using ab f by (simp add: adler32_def adler_reference_def)
qed

lemma inflate_block:
  assumes "unat len = length chunk"
  shows "inflate_stored (block_header final len @ chunk @ s) = (if final then Some (chunk, s)
     else map_option (\<lambda>(d, rest). (chunk @ d, rest)) (inflate_stored s))"
proof -
  have "NOT len = push_bit 8 (ucast (ucast (drop_bit 8 (NOT len) AND 0xFF) :: u8))
      OR ucast (ucast (NOT len AND 0xFF) :: u8)"
    by (rule u16_bytes [symmetric])
  then show ?thesis
    using assms u16_bytes [of len]
    by (simp only: block_header_def append.simps inflate_stored.simps [of "_ # _"] list.case Let_def)
      simp
qed

lemma inflate_stored_blocks: "raw \<noteq> [] \<Longrightarrow> inflate_stored (stored_blocks raw @ r) = Some (raw, r)"
proof (induction raw rule: stored_blocks.induct)
  case (1 raw)
  let ?chunk = "take 65535 raw" and ?rest = "drop 65535 raw"
  let ?len = "of_nat (length ?chunk) :: u16"
  have n: "unat ?len = length ?chunk" by (simp add: unat_of_nat take_bit_nat_eq_self)
  have "stored_blocks raw @ r = block_header (?rest = []) ?len @ ?chunk @ stored_blocks ?rest @ r"
    using 1(2) by (subst stored_blocks.simps) (simp only: Let_def if_False append.assoc)
  then have "inflate_stored (stored_blocks raw @ r)
     = (if ?rest = [] then Some (?chunk, stored_blocks ?rest @ r)
        else map_option (\<lambda>(d, rest). (?chunk @ d, rest)) (inflate_stored (stored_blocks ?rest @ r)))"
    by (simp only: inflate_block [OF n])
  also have "\<dots> = Some (raw, r)"
  proof (cases "?rest = []")
    case True
    then show ?thesis by (simp add: stored_blocks.simps [of "[]"])
  next
    case False
    with 1 show ?thesis by simp
  qed
  finally show ?case .
qed

lemma stored_blocks_length: "length (stored_blocks raw) \<le> 6 * length raw"
proof (induction raw rule: stored_blocks.induct)
  case (1 raw)
  show ?case
  proof (cases "raw = []")
    case False
    let ?chunk = "take 65535 raw" and ?rest = "drop 65535 raw"
    from False have "1 \<le> length ?chunk" by (cases raw) simp_all
    moreover have "length raw = length ?chunk + length ?rest" by simp
    moreover have "length (stored_blocks raw) = 5 + length ?chunk + length (stored_blocks ?rest)"
      using False by (subst stored_blocks.simps) (simp add: block_header_def Let_def del: length_take)
    moreover have "length (stored_blocks ?rest) \<le> 6 * length ?rest"
      using 1 False by simp
    ultimately show ?thesis by linarith
  qed (simp add: stored_blocks.simps)
qed

lemma read_zlib_stored: "raw \<noteq> [] \<Longrightarrow> read_zlib (zlib_stored raw) = Some raw"
  using read_u32_bytes [of "adler32 raw" "[]"]
  by (simp add: read_zlib_def zlib_stored_def append_uint32_def inflate_stored_blocks adler32_reference)

section \<open>The picture\<close>

lemma png_rows_read:
  assumes "0 \<le> width" "length rgba = h * (4 * nat width)"
  shows "i + k \<le> h \<Longrightarrow> \<exists>raw. png_rows width rgba [i..<i + k] = Some raw
    \<and> length raw = k * (4 * nat width + 1)
    \<and> unfilter (4 * nat width) k raw = Some (take (k * (4 * nat width)) (drop (i * (4 * nat width)) rgba))"
proof (induction k arbitrary: i)
  case (Suc k)
  let ?w = "4 * nat width"
  obtain raw where raw: "png_rows width rgba [Suc i..<Suc i + k] = Some raw"
    "length raw = k * (?w + 1)"
    "unfilter ?w k raw = Some (take (k * ?w) (drop (Suc i * ?w) rgba))"
    using Suc.IH [of "Suc i"] Suc.prems by auto
  have "(i + 1) * ?w \<le> h * ?w" using Suc.prems by (intro mult_le_mono1) simp
  then have room: "i * ?w + ?w \<le> length rgba" using assms(2) by simp
  let ?row = "take ?w (drop (i * ?w) rgba)"
  have len: "length ?row = ?w" using room by simp
  have row: "png_row width rgba i = Some (0 # ?row)"
    using room assms(1) by (simp add: png_row_def Let_def)
  have "[i..<i + Suc k] = i # [Suc i..<Suc i + k]" by (simp add: upt_conv_Cons)
  then have rows: "png_rows width rgba [i..<i + Suc k] = Some ((0 # ?row) @ raw)"
    using raw(1) row by (simp del: upt_Suc)
  have "unfilter ?w (Suc k) ((0 # ?row) @ raw)
      = Some (?row @ take (k * ?w) (drop (Suc i * ?w) rgba))"
    using raw(3) len by simp
  also have "?row @ take (k * ?w) (drop (Suc i * ?w) rgba) = take (Suc k * ?w) (drop (i * ?w) rgba)"
    by (simp add: take_add drop_drop add.commute mult.commute)
  finally show ?case using rows raw(2) len by simp
qed simp

text \<open>
  C21: a picture with as many pixels as its width and height say, of at most \<open>2 ^ 29\<close> bytes,
  is written as a valid PNG file: a reader that checks the signature, the chunk lengths, every
  CRC, the zlib framing and the Adler checksum gets back the same width, height and pixels.
\<close>

theorem png_roundtrip:
  assumes "0 < width" "0 < height" "length rgba = nat height * (4 * nat width)"
    and "nat height * (4 * nat width + 1) \<le> 2 ^ 29"
  shows "Option.bind (encode_png_rgba width height rgba) decode_png
    = Some (nat width, nat height, rgba)"
proof -
  obtain raw where raw: "png_rows width rgba [0..<nat height] = Some raw"
    "length raw = nat height * (4 * nat width + 1)" "unfilter (4 * nat width) (nat height) raw = Some rgba"
    using png_rows_read [of width rgba "nat height" 0 "nat height"] assms by auto
  have ne: "raw \<noteq> []" using raw(2) assms(1,2) by auto
  have "length (zlib_stored raw) \<le> 6 * 2 ^ 29 + 6"
    using stored_blocks_length [of raw] raw(2) assms(4) by (simp add: zlib_stored_def append_uint32_def)
  then have z: "length (zlib_stored raw) < 2 ^ 32" by simp
  have "nat width * 1 \<le> (4 * nat width + 1) * nat height" "nat height * 1 \<le> nat height * (4 * nat width + 1)"
    using assms(1,2) by (intro mult_le_mono; simp)+
  then have small: "nat width \<le> 2 ^ 29" "nat height \<le> 2 ^ 29" using assms(4) by (simp_all add: mult.commute)
  have u: "unat (word_of_int x :: u32) = nat x" if "0 < x" "nat x \<le> 2 ^ 29" for x :: int
    using that by (simp add: unsigned_of_int take_bit_int_eq_self nat_le_iff)
  have hd: "length (png_header width height) < 2 ^ 32" by (simp add: png_header_def append_uint32_def)
  have written: "encode_png_rgba width height rgba = Some (png_signature
      @ chunk_bytes ''IHDR'' (png_header width height) @ chunk_bytes ''IDAT'' (zlib_stored raw)
      @ chunk_bytes ''IEND'' [])"
    by (simp add: encode_png_rgba_def raw(1) append_chunk_out)
  have head: "png_header width height = u32_bytes (word_of_int width) @ u32_bytes (word_of_int height) @ [8, 6, 0, 0, 0]"
    by (simp add: png_header_def append_uint32_def)
  have sig: "length png_signature = 8" by (simp add: png_signature_def)
  have "read_chunk ''IEND'' (chunk_bytes ''IEND'' []) = Some ([], [])"
    using read_chunk_bytes [of "''IEND''" "[]" "[]"] by simp
  then show ?thesis
    using read_chunk_bytes [OF _ hd, of "''IHDR''"] read_chunk_bytes [OF _ z, of "''IDAT''"]
      u [OF assms(1) small(1)] u [OF assms(2) small(2)]
    by (simp add: written decode_png_def sig head read_u32_bytes read_zlib_stored [OF ne] raw(3))
qed

theorem png_roundtrip_witness:
  "Option.bind (encode_png_rgba 1 2 [10, 20, 30, 255, 1, 2, 3, 4]) decode_png
     = Some (nat 1, nat 2, [10, 20, 30, 255, 1, 2, 3, 4])"
  by (rule png_roundtrip) simp_all

end
