(* ===== verification/Map_Snapshots.thy ===== *)
theory Map_Snapshots
  imports Map_Store
begin

text \<open>
  The class \<open>MapQueryStore\<close> of \<open>services/map_query_api/main.cpp\<close>: each query, the JSON built
  from its answer, and the fallback when there is no database.  None is an exception of the
  JSON library that leaves the function (a row that is not an object, a member of the wrong
  type).  \<open>now\<close> is the clock reading \<open>epoch_millis_now()\<close>.
\<close>

record map_store =
  ms_connection :: string
  ms_cities :: city_table

definition map_store_new :: "'j json_lib \<Rightarrow> (string \<Rightarrow> string option) \<Rightarrow> string option \<Rightarrow> map_store" where
  "map_store_new J getenv topology_file =
     \<lparr>ms_connection = read_client_new getenv, ms_cities = load_city_coordinates J topology_file\<rparr>"

definition enabled :: "map_store \<Rightarrow> bool" where
  "enabled st = read_enabled (ms_connection st)"

definition ask :: "'j json_lib \<Rightarrow> map_store \<Rightarrow> database \<Rightarrow> string \<Rightarrow> 'j option" where
  "ask J st db sql = fst (query_json J (ms_connection st) db sql)"

text \<open>The answer when it is an array (\<open>response.has_value() && response->is_array()\<close>).\<close>

definition ask_array :: "'j json_lib \<Rightarrow> map_store \<Rightarrow> database \<Rightarrow> string \<Rightarrow> 'j option" where
  "ask_array J st db sql = (case ask J st db sql of
      Some r \<Rightarrow> (if j_is_array J r then Some r else None) | None \<Rightarrow> None)"

definition ask_object :: "'j json_lib \<Rightarrow> map_store \<Rightarrow> database \<Rightarrow> string \<Rightarrow> 'j option" where
  "ask_object J st db sql = (case ask J st db sql of
      Some r \<Rightarrow> (if j_is_object J r then Some r else None) | None \<Rightarrow> None)"

section \<open>Tiles\<close>

text \<open>\<open>row.contains(k) ? row.value(k, nullptr) : nullptr\<close>: throws unless the member is null.\<close>

definition null_member :: "'j json_lib \<Rightarrow> 'j \<Rightarrow> string \<Rightarrow> 'j option" where
  "null_member J row key = (case j_at J row key of None \<Rightarrow> Some (j_null J)
     | Some v \<Rightarrow> (if j_is_null J v then Some (j_null J) else None))"

definition tile_row_json :: "'j json_lib \<Rightarrow> string \<Rightarrow> 'j \<Rightarrow> 'j option" where
  "tile_row_json J layer row =
     Option.bind (row_text J row ''tile_id'' []) (\<lambda>tile_id.
     Option.bind (row_text J row ''region'' []) (\<lambda>reg.
     Option.bind (row_text J row ''continent'' []) (\<lambda>cont.
     Option.bind (row_text J row ''country'' []) (\<lambda>count.
     Option.bind (null_member J row ''avg_cloud_cover'') (\<lambda>cloud.
     Option.bind (null_member J row ''avg_pressure_hpa'') (\<lambda>press.
     Option.bind (row_text J row ''bucket_start'' []) (\<lambda>bucket.
       Some (j_obj J
         [(''tile_id'', j_str J tile_id), (''region'', j_str J reg), (''continent'', j_str J cont),
          (''country'', j_str J count),
          (''latitude'', j_dbl J (json_number_or J row ''latitude'' (Fin 0))),
          (''longitude'', j_dbl J (json_number_or J row ''longitude'' (Fin 0))),
          (''hazard_score'', j_dbl J (json_number_or J row ''hazard_score'' (Fin 0))),
          (''layer_value'', j_dbl J (json_number_or J row ''layer_value'' (Fin 0))),
          (''avg_cloud_cover'', cloud), (''avg_pressure_hpa'', press),
          (''primary_hazard'', j_str J ''unknown''), (''bucket_start'', j_str J bucket),
          (''layer'', j_str J layer)]))))))))"

text \<open>Some None: no answer from the database, the caller falls back.\<close>

definition tile_snapshot_from_db ::
  "'j json_lib \<Rightarrow> map_store \<Rightarrow> database \<Rightarrow> string \<Rightarrow> bounds \<Rightarrow> 'j option option" where
  "tile_snapshot_from_db J st db layer b =
     (if \<not> enabled st then Some None
      else (case ask_array J st db (tile_snapshot_sql layer b) of
          None \<Rightarrow> Some None
        | Some response \<Rightarrow> map_option (\<lambda>tiles. Some (j_obj J
            [(''layer'', j_str J layer), (''count'', j_int J (int (length tiles))),
             (''tiles'', j_arr J tiles), (''source'', j_str J ''timescale'')]))
            (those (map (tile_row_json J layer) (j_elems J response)))))"

definition fallback_tile_snapshot :: "'j json_lib \<Rightarrow> string \<Rightarrow> string \<Rightarrow> 'j" where
  "fallback_tile_snapshot J layer as_of = j_obj J
     [(''layer'', j_str J layer), (''count'', j_int J 0), (''tiles'', j_arr J []),
      (''source'', j_str J ''live_unavailable''), (''as_of'', j_str J as_of)]"

definition tile_snapshot ::
  "'j json_lib \<Rightarrow> map_store \<Rightarrow> database \<Rightarrow> string \<Rightarrow> bounds \<Rightarrow> string \<Rightarrow> 'j option" where
  "tile_snapshot J st db layer b as_of = (case tile_snapshot_from_db J st db layer b of
      None \<Rightarrow> None
    | Some (Some snapshot) \<Rightarrow> Some (j_set J snapshot ''as_of'' (j_str J as_of))
    | Some None \<Rightarrow> Some (fallback_tile_snapshot J layer as_of))"

section \<open>Routes\<close>

definition segment_row_json :: "'j json_lib \<Rightarrow> 'j \<Rightarrow> 'j option" where
  "segment_row_json J row =
     Option.bind (row_text J row ''segment_id'' []) (\<lambda>seg.
     Option.bind (row_text J row ''region'' []) (\<lambda>reg.
     Option.bind (row_text J row ''primary_hazard'' ''unknown'') (\<lambda>hazard.
     Option.bind (row_text J row ''bucket_start'' []) (\<lambda>bucket.
       Some (j_obj J
         [(''segment_id'', j_str J seg), (''region'', j_str J reg),
          (''hazard_score'', j_dbl J (json_number_or J row ''hazard_score'' (Fin 0))),
          (''delay_factor'', j_dbl J (json_number_or J row ''delay_factor'' (Fin 1))),
          (''primary_hazard'', j_str J hazard), (''bucket_start'', j_str J bucket)])))))"

definition d_total :: "double list \<Rightarrow> double" where
  "d_total ds = fold (\<lambda>d acc. d_add acc d) ds (Fin 0)"

definition route_risk_from_db ::
  "'j json_lib \<Rightarrow> map_store \<Rightarrow> database \<Rightarrow> string \<Rightarrow> string list \<Rightarrow> 'j option option" where
  "route_risk_from_db J st db route_id segment_ids =
     (if \<not> enabled st then Some None
      else (case ask_array J st db (route_risk_sql route_id segment_ids) of
          None \<Rightarrow> Some None
        | Some response \<Rightarrow> map_option (\<lambda>segments.
            let rows = j_elems J response;
                hazard_sum = d_total (map (\<lambda>row. json_number_or J row ''hazard_score'' (Fin 0)) rows);
                delay_sum = d_total (map (\<lambda>row. json_number_or J row ''delay_factor'' (Fin 1)) rows);
                n = of_size (max 1 (length segments))
            in Some (j_obj J
              [(''route_id'', j_str J route_id), (''segment_count'', j_int J (int (length segments))),
               (''route_hazard_score'', j_dbl J (d_div hazard_sum n)),
               (''route_delay_factor'', j_dbl J (d_div delay_sum n)),
               (''projected_eta_delta_minutes'',
                  j_dbl J (d_mul (d_sub (d_div delay_sum n) (Fin 1)) (lit 60))),
               (''segments'', j_arr J segments), (''source'', j_str J ''timescale'')]))
            (those (map (segment_row_json J) (j_elems J response)))))"

definition fallback_route_risk :: "'j json_lib \<Rightarrow> string \<Rightarrow> string \<Rightarrow> 'j" where
  "fallback_route_risk J route_id as_of = j_obj J
     [(''route_id'', j_str J route_id), (''segment_count'', j_int J 0),
      (''route_hazard_score'', j_dbl J (Fin 0)), (''route_delay_factor'', j_dbl J (Fin 1)),
      (''projected_eta_delta_minutes'', j_dbl J (Fin 0)), (''segments'', j_arr J []),
      (''source'', j_str J ''live_unavailable''), (''route_polyline'', j_arr J []),
      (''as_of'', j_str J as_of)]"

definition polyline_json :: "'j json_lib \<Rightarrow> string \<Rightarrow> 'j" where
  "polyline_json J route_id =
     j_arr J (map (\<lambda>(lat, lon). j_arr J [j_dbl J lat, j_dbl J lon]) (route_polyline_for route_id))"

definition route_risk_snapshot ::
  "'j json_lib \<Rightarrow> map_store \<Rightarrow> database \<Rightarrow> string \<Rightarrow> string list \<Rightarrow> string \<Rightarrow> 'j option" where
  "route_risk_snapshot J st db route_id segment_ids as_of =
     (case route_risk_from_db J st db route_id segment_ids of
        None \<Rightarrow> None
      | Some (Some snapshot) \<Rightarrow> Some (j_set J
          (j_set J snapshot ''route_polyline'' (polyline_json J route_id)) ''as_of'' (j_str J as_of))
      | Some None \<Rightarrow> Some (fallback_route_risk J route_id as_of))"

section \<open>The map summary\<close>

definition map_summary_from_db ::
  "'j json_lib \<Rightarrow> map_store \<Rightarrow> database \<Rightarrow> string \<Rightarrow> bounds \<Rightarrow> string \<Rightarrow> 'j option" where
  "map_summary_from_db J st db layer b as_of =
     (if \<not> enabled st then None else ask_object J st db (map_summary_sql layer b as_of))"

definition fallback_map_summary :: "'j json_lib \<Rightarrow> string \<Rightarrow> 'j" where
  "fallback_map_summary J layer = j_obj J
     [(''layer'', j_str J layer), (''tile_count'', j_int J 0), (''avg_temperature'', j_null J),
      (''avg_humidity'', j_null J), (''avg_wind_speed'', j_null J), (''avg_pressure_hpa'', j_null J),
      (''avg_cloud_cover'', j_null J), (''min_visibility_km'', j_null J),
      (''max_precipitation_mm'', j_null J), (''avg_hazard_score'', j_null J),
      (''layer_value'', j_null J), (''source'', j_str J ''live_unavailable'')]"

section \<open>The personal comparison\<close>

definition fallback_personal_comparison :: "'j json_lib \<Rightarrow> int \<Rightarrow> string \<Rightarrow> 'j" where
  "fallback_personal_comparison J now profile_id =
     (let crop = profile_id = ''crop_moisture'';
          base = (if crop then lit 50 else lit 3);
          baselines = map (\<lambda>i. j_obj J [(''hour_of_day'', j_int J i), (''baseline_value'', j_dbl J base)]) [0..23];
          comparisons = map (\<lambda>i.
            let live = d_add (if crop then lit 48 else lit (5/2)) (of_long (i mod 3)) in j_obj J
              [(''event_time'', j_int J (now - i * 60000)), (''live_value'', j_dbl J live),
               (''baseline_value'', j_dbl J base), (''variance'', j_dbl J (d_abs (d_sub live base))),
               (''actuation_active'', j_bool J False)]) [0..9]
      in j_obj J [(''profile_id'', j_str J profile_id), (''baselines'', j_arr J baselines),
         (''comparisons'', j_arr J comparisons), (''source'', j_str J ''live_unavailable'')])"

definition personal_comparison_snapshot ::
  "'j json_lib \<Rightarrow> map_store \<Rightarrow> database \<Rightarrow> int \<Rightarrow> string \<Rightarrow> 'j" where
  "personal_comparison_snapshot J st db now profile_id =
     (if \<not> enabled st then fallback_personal_comparison J now profile_id
      else (let baselines = ask_array J st db (baselines_sql profile_id);
                comparisons = ask_array J st db (comparisons_sql profile_id)
        in j_set J (j_set J (j_set J (j_set J (j_obj J [])
             ''profile_id'' (j_str J profile_id))
             ''baselines'' (case baselines of Some r \<Rightarrow> r | None \<Rightarrow> j_arr J []))
             ''comparisons'' (case comparisons of Some r \<Rightarrow> r | None \<Rightarrow> j_arr J []))
             ''source'' (j_str J ''timescale'')))"

section \<open>History\<close>

definition fallback_history_cities :: "'j json_lib \<Rightarrow> 'j" where
  "fallback_history_cities J = j_obj J
     [(''cities'', j_arr J (map (\<lambda>name. j_obj J [(''city'', j_str J name), (''region'', j_str J ''india''),
          (''country'', j_str J ''India''), (''continent'', j_str J ''Asia'')])
        [''Bangalore'', ''Chennai'', ''Delhi'', ''Hyderabad'', ''Kochi'', ''Mumbai''])),
      (''source'', j_str J ''live_unavailable'')]"

definition history_cities :: "'j json_lib \<Rightarrow> map_store \<Rightarrow> database \<Rightarrow> 'j" where
  "history_cities J st db =
     (if \<not> enabled st then fallback_history_cities J
      else (case ask_array J st db history_cities_sql of
          Some r \<Rightarrow> j_obj J [(''cities'', r), (''source'', j_str J ''timescale'')]
        | None \<Rightarrow> fallback_history_cities J))"

text \<open>One synthetic hour; \<open>i % 8\<close> and the like are remainders of non-negative integers.\<close>

definition fallback_hour :: "'j json_lib \<Rightarrow> int \<Rightarrow> int \<Rightarrow> 'j" where
  "fallback_hour J now i =
     (let temp = d_add (d_add (lit 22) (d_mul (of_long (i mod 8)) (lit (3/2))))
                   (d_mul (of_long ((i * 7) mod 5)) (lit (4/10)))
      in j_obj J
        [(''ts'', j_int J (now - i * 3600000)), (''avg_temperature'', j_dbl J temp),
         (''min_temperature'', j_dbl J (d_sub temp (lit 2))), (''max_temperature'', j_dbl J (d_add temp (lit 3))),
         (''avg_humidity'', j_dbl J (d_add (lit 55) (d_mul (of_long (i mod 6)) (lit 3)))),
         (''avg_wind_speed'', j_dbl J (d_add (lit 8) (d_mul (of_long (i mod 4)) (lit (5/2))))),
         (''observation_count'', j_int J (15 + i mod 10))])"

definition fallback_history_timeseries :: "'j json_lib \<Rightarrow> int \<Rightarrow> string \<Rightarrow> 'j" where
  "fallback_history_timeseries J now town = j_obj J
     [(''city'', j_str J town), (''interval'', j_str J ''1 hour''),
      (''data'', j_arr J (map (fallback_hour J now) (rev [0..23]))),
      (''source'', j_str J ''live_unavailable'')]"

definition history_timeseries ::
  "'j json_lib \<Rightarrow> map_store \<Rightarrow> database \<Rightarrow> int \<Rightarrow> string \<Rightarrow> string \<Rightarrow> string \<Rightarrow> string \<Rightarrow> 'j" where
  "history_timeseries J st db now town from_ts to_ts interval =
     (if \<not> enabled st then fallback_history_timeseries J now town
      else (case ask_array J st db (history_timeseries_sql town from_ts to_ts interval) of
          Some r \<Rightarrow> j_obj J [(''city'', j_str J town), (''interval'', j_str J (history_bucket interval)),
             (''data'', r), (''source'', j_str J ''timescale'')]
        | None \<Rightarrow> fallback_history_timeseries J now town))"

definition fallback_history_summary :: "'j json_lib \<Rightarrow> string \<Rightarrow> 'j" where
  "fallback_history_summary J town = j_obj J
     [(''city'', j_str J town), (''min_temperature'', j_dbl J (lit (185/10))),
      (''max_temperature'', j_dbl J (lit (362/10))), (''avg_temperature'', j_dbl J (lit (273/10))),
      (''avg_humidity'', j_dbl J (lit (621/10))), (''avg_wind_speed'', j_dbl J (lit (124/10))),
      (''observation_count'', j_int J 360), (''source'', j_str J ''live_unavailable'')]"

definition history_summary ::
  "'j json_lib \<Rightarrow> map_store \<Rightarrow> database \<Rightarrow> string \<Rightarrow> string \<Rightarrow> string \<Rightarrow> 'j" where
  "history_summary J st db town from_ts to_ts =
     (if \<not> enabled st then fallback_history_summary J town
      else (case ask_object J st db (history_summary_sql town from_ts to_ts) of
          Some r \<Rightarrow> r | None \<Rightarrow> fallback_history_summary J town))"

end
