(* ===== verification/Heat_Tile.thy ===== *)
theory Heat_Tile
  imports Png Map_Snapshots
begin

text \<open>
  The heat-map pictures of \<open>services/map_query_api/main.cpp\<close>: \<open>renderHeatTilePng\<close> and the
  functions it uses, and \<open>MapQueryStore::renderTilePng\<close>.  The functions of the C mathematics
  library are parameters, collected in the record \<open>libm\<close>; the arithmetic around them is that of
  \<open>Binary64\<close>.  A conversion of a value that does not fit (a NaN coordinate) and an overflow of
  \<open>int\<close> arithmetic are undefined in C++ and None here, as is an exception of the JSON library.
\<close>

record libm =
  m_pow :: "double \<Rightarrow> double \<Rightarrow> double"
  m_atan :: "double \<Rightarrow> double"
  m_sinh :: "double \<Rightarrow> double"
  m_log :: "double \<Rightarrow> double"
  m_tan :: "double \<Rightarrow> double"
  m_cos :: "double \<Rightarrow> double"
  m_exp :: "double \<Rightarrow> double"

definition m_pi :: double where
  "m_pi = lit (314159265358979323846 / 10 ^ 20)"

definition tile_size :: nat where "tile_size = 256"

fun d_ceil :: "double \<Rightarrow> double" where
  "d_ceil (Fin a) = Fin (of_int \<lceil>a\<rceil>)" | "d_ceil x = x"

text \<open>\<open>std::round\<close>: halfway cases away from zero.\<close>

fun d_round :: "double \<Rightarrow> double" where
  "d_round (Fin a) = Fin (if 0 \<le> a then of_int \<lfloor>a + 1/2\<rfloor> else of_int \<lceil>a - 1/2\<rceil>)"
| "d_round x = x"

text \<open>\<open>static_cast<unsigned char>\<close> of a double: undefined when the truncated value does not fit.\<close>

definition to_byte :: "double \<Rightarrow> u8 option" where
  "to_byte d = (case to_int d of Some i \<Rightarrow> (if 0 \<le> i \<and> i < 256 then Some (word_of_int i) else None)
     | None \<Rightarrow> None)"

section \<open>Geometry\<close>

record tile_bounds =
  tb_min_latitude :: double
  tb_min_longitude :: double
  tb_max_latitude :: double
  tb_max_longitude :: double

definition tile_y_to_lat :: "libm \<Rightarrow> double \<Rightarrow> int \<Rightarrow> double" where
  "tile_y_to_lat M n tile_y =
     (let lat_rad = m_atan M (m_sinh M (d_mul m_pi (d_sub (Fin 1) (d_div (d_mul (lit 2) (of_long tile_y)) n))))
      in d_div (d_mul lat_rad (lit 180)) m_pi)"

text \<open>\<open>y + 1\<close> is computed as an \<open>int\<close>: None when it overflows.\<close>

definition tile_bounds_of :: "libm \<Rightarrow> int \<Rightarrow> int \<Rightarrow> int \<Rightarrow> tile_bounds option" where
  "tile_bounds_of M z x y = (if \<not> int_range (y + 1) then None
     else (let n = m_pow M (lit 2) (of_long z) in
     Some \<lparr>tb_min_latitude = tile_y_to_lat M n (y + 1),
      tb_min_longitude = d_sub (d_mul (d_div (of_long x) n) (lit 360)) (lit 180),
      tb_max_latitude = tile_y_to_lat M n y,
      tb_max_longitude = d_sub (d_mul (d_div (d_add (of_long x) (Fin 1)) n) (lit 360)) (lit 180)\<rparr>))"

definition clamp01 :: "double \<Rightarrow> double" where
  "clamp01 v = d_max (Fin 0) (d_min (Fin 1) v)"

definition heat_clamp :: "double \<Rightarrow> double" where
  "heat_clamp v = d_max (lit (8/100)) (d_min (Fin 1) v)"

definition heat_intensity :: "string \<Rightarrow> double \<Rightarrow> double" where
  "heat_intensity layer v =
     (if layer = ''visibility'' then heat_clamp (d_sub (Fin 1) (d_div (d_min v (lit 20)) (lit 20)))
      else if layer = ''precipitation'' then heat_clamp (d_div v (lit 50))
      else if layer = ''wind'' then heat_clamp (d_div v (lit 100))
      else if layer = ''cloud'' then heat_clamp (d_div v (lit 100))
      else if layer = ''pressure'' then heat_clamp (d_div (d_abs (d_sub v (lit 1013))) (lit 50))
      else heat_clamp (d_div v (lit 100)))"

definition mercator_pixel :: "libm \<Rightarrow> city_coordinate \<Rightarrow> int \<Rightarrow> double \<times> double" where
  "mercator_pixel M c z =
     (let n = m_pow M (lit 2) (of_long z);
          lat_rad = d_div (d_mul (cc_latitude c) m_pi) (lit 180);
          px = d_mul (d_mul (d_div (d_add (cc_longitude c) (lit 180)) (lit 360)) n) (of_size tile_size);
          py = d_mul (d_mul (d_div (d_sub (Fin 1)
                 (d_div (m_log M (d_add (m_tan M lat_rad) (d_div (Fin 1) (m_cos M lat_rad)))) m_pi)) (lit 2)) n)
               (of_size tile_size)
      in (px, py))"

section \<open>The picture\<close>

record heat_point =
  hp_x :: double
  hp_y :: double
  hp_intensity :: double

definition tile_origin :: "libm \<Rightarrow> int \<Rightarrow> int \<Rightarrow> double" where
  "tile_origin M z i = (let n = m_pow M (lit 2) (of_long z) in
     d_mul (d_mul (d_div (of_long i) n) (of_size tile_size)) n)"

definition outside_margin :: "double \<Rightarrow> bool" where
  "outside_margin v \<longleftrightarrow> d_lt v (lit (-80)) \<or> d_gt v (d_add (of_size tile_size) (lit 80))"

text \<open>The point of one row: Some None when the row is skipped.\<close>

definition heat_point_of ::
  "libm \<Rightarrow> 'j json_lib \<Rightarrow> city_table \<Rightarrow> string \<Rightarrow> int \<Rightarrow> int \<Rightarrow> int \<Rightarrow> 'j \<Rightarrow> heat_point option option" where
  "heat_point_of M J cities layer z x y row =
     (case resolve_tile_coordinate J row cities of
        None \<Rightarrow> None
      | Some None \<Rightarrow> Some None
      | Some (Some c) \<Rightarrow>
          if \<not> point_in_bounds (cc_latitude c) (cc_longitude c) None None None None then Some None
          else (let (px, py) = mercator_pixel M c z;
                    local_x = d_sub px (tile_origin M z x);
                    local_y = d_sub py (tile_origin M z y)
            in if outside_margin local_x \<or> outside_margin local_y then Some None
               else Some (Some \<lparr>hp_x = local_x, hp_y = local_y,
                 hp_intensity = heat_intensity layer
                   (json_number_or J row ''layer_value'' (json_number_or J row ''hazard_score'' (Fin 0)))\<rparr>)))"

definition heat_points ::
  "libm \<Rightarrow> 'j json_lib \<Rightarrow> city_table \<Rightarrow> string \<Rightarrow> int \<Rightarrow> int \<Rightarrow> int \<Rightarrow> 'j list \<Rightarrow> heat_point list option" where
  "heat_points M J cities layer z x y rows =
     map_option (\<lambda>ps. concat (map (\<lambda>p. case p of Some q \<Rightarrow> [q] | None \<Rightarrow> []) ps))
       (those (map (heat_point_of M J cities layer z x y) rows))"

text \<open>The rows (or columns) a point reaches: \<open>max(0, floor(v - 84))\<close> to \<open>min(255, ceil(v + 84))\<close>.\<close>

definition heat_range :: "double \<Rightarrow> (int \<times> int) option" where
  "heat_range v = (case (to_int (d_floor (d_sub v (lit 84))), to_int (d_ceil (d_add v (lit 84)))) of
      (Some lo, Some hi) \<Rightarrow> Some (max 0 lo, min (int tile_size - 1) hi) | _ \<Rightarrow> None)"

definition heat_cell :: "libm \<Rightarrow> heat_point \<Rightarrow> int \<Rightarrow> int \<Rightarrow> double list \<times> double list \<Rightarrow> double list \<times> double list" where
  "heat_cell M p py px aw =
     (let dx = d_sub (of_long px) (hp_x p);
          dy = d_sub (of_long py) (hp_y p);
          distance2 = d_add (d_mul dx dx) (d_mul dy dy)
      in if d_gt distance2 (lit (84 * 84)) then aw
         else (let kernel = m_exp M (d_div (d_neg distance2) (d_mul (lit 2) (d_mul (lit 28) (lit 28))));
                   i = nat py * tile_size + nat px
           in ((fst aw)[i := d_add (fst aw ! i) (d_mul (hp_intensity p) kernel)],
               (snd aw)[i := d_add (snd aw ! i) kernel])))"

definition heat_add :: "libm \<Rightarrow> heat_point \<Rightarrow> double list \<times> double list \<Rightarrow> (double list \<times> double list) option" where
  "heat_add M p aw = (case (heat_range (hp_x p), heat_range (hp_y p)) of
      (Some (min_x, max_x), Some (min_y, max_y)) \<Rightarrow>
        Some (fold (\<lambda>py. fold (heat_cell M p py) [min_x..max_x]) [min_y..max_y] aw)
    | _ \<Rightarrow> None)"

fun heat_accumulate :: "libm \<Rightarrow> heat_point list \<Rightarrow> double list \<times> double list \<Rightarrow> (double list \<times> double list) option" where
  "heat_accumulate M [] aw = Some aw"
| "heat_accumulate M (p # ps) aw = Option.bind (heat_add M p aw) (heat_accumulate M ps)"

definition heat_cells :: nat where "heat_cells = tile_size * tile_size"

definition heat_zero :: "double list \<times> double list" where
  "heat_zero = (replicate heat_cells (Fin 0), replicate heat_cells (Fin 0))"

definition heat_value :: "double list \<times> double list \<Rightarrow> nat \<Rightarrow> double" where
  "heat_value aw i = (if d_gt (snd aw ! i) (Fin 0) then d_div (fst aw ! i) (snd aw ! i) else Fin 0)"

definition heat_max :: "double list \<times> double list \<Rightarrow> double" where
  "heat_max aw = fold (\<lambda>i m. if d_gt (snd aw ! i) (Fin 0) then d_max m (heat_value aw i) else m)
     [0..<heat_cells] (Fin 0)"

text \<open>The four bytes of a cell; they are zero from the start and stay so where nothing is drawn.\<close>

definition heat_pixel :: "double \<Rightarrow> double \<Rightarrow> bytes option" where
  "heat_pixel max_value v =
     (let normalized = clamp01 (d_div v max_value) in
      if d_le normalized (Fin 0) then Some [0, 0, 0, 0]
      else those (map to_byte
        [d_round (d_mul (lit 255) normalized),
         d_round (d_mul (lit 255) (d_min (Fin 1) (d_mul normalized (lit (135/100))))),
         d_round (d_mul (lit 255) (d_sub (Fin 1) normalized)),
         d_round (d_add (lit 40) (d_mul normalized (lit 200)))]))"

definition empty_rgba :: bytes where
  "empty_rgba = replicate (heat_cells * 4) 0"

definition heat_rgba :: "double list \<times> double list \<Rightarrow> bytes option" where
  "heat_rgba aw = (if d_le (heat_max aw) (Fin 0) then Some empty_rgba
     else map_option concat (those (map (\<lambda>i. heat_pixel (heat_max aw) (heat_value aw i)) [0..<heat_cells])))"

definition encode_tile :: "bytes \<Rightarrow> bytes option" where
  "encode_tile rgba = encode_png_rgba (int tile_size) (int tile_size) rgba"

text \<open>The bounds computed first are not used; their computation can overflow.\<close>

definition render_heat_tile_png ::
  "libm \<Rightarrow> 'j json_lib \<Rightarrow> 'j list \<Rightarrow> city_table \<Rightarrow> string \<Rightarrow> int \<Rightarrow> int \<Rightarrow> int \<Rightarrow> bytes option" where
  "render_heat_tile_png M J rows cities layer z x y =
     Option.bind (tile_bounds_of M z x y) (\<lambda>bounds.
     Option.bind (heat_points M J cities layer z x y rows) (\<lambda>points.
       if points = [] then encode_tile empty_rgba
       else Option.bind (heat_accumulate M points heat_zero) (\<lambda>aw.
         Option.bind (heat_rgba aw) encode_tile)))"

text \<open>\<open>renderTilePng\<close>: Some None when the database is disabled or has no answer.\<close>

definition render_tile_png ::
  "libm \<Rightarrow> 'j json_lib \<Rightarrow> map_store \<Rightarrow> database \<Rightarrow> string \<Rightarrow> int \<Rightarrow> int \<Rightarrow> int \<Rightarrow> bytes option option" where
  "render_tile_png M J st db layer z x y =
     (if \<not> enabled st then Some None
      else (case ask_array J st db (render_tile_sql layer) of
          None \<Rightarrow> Some None
        | Some response \<Rightarrow> map_option Some
            (render_heat_tile_png M J (j_elems J response) (ms_cities st) layer z x y)))"

end
