(* ===== verification/Map_Results.thy ===== *)
theory Map_Results
  imports Map_Snapshots
begin

text \<open>
  What the snapshots of the query service promise: which source they name, the shape of the
  tile snapshot, and the averages of a route.
\<close>

section \<open>Sums and averages\<close>

lemma representable_of_nat:
  assumes "n < 2 ^ 53"
  shows "representable (of_nat n)"
proof (cases "n = 0")
  case False
  let ?x = "of_nat n :: rat"
  have pos: "0 < ?x" using False by simp
  have "(2::rat) powi expo ?x \<le> ?x" using expo_bounds(1) [OF pos] .
  also have big: "?x < 2 powi 53"
  proof -
    have "?x < of_nat (2 ^ 53)" using assms by (simp only: of_nat_less_iff)
    also have "(of_nat (2 ^ 53) :: rat) = 2 powi 53" by (simp only: of_nat_power of_nat_numeral power_int_numeral)
    finally show ?thesis .
  qed
  finally have e: "expo ?x < 53" by (rule powi_less)
  define k where "k = nat (- ulp_exp ?x)"
  have u: "ulp_exp ?x \<le> 0" using e by (simp add: ulp_exp_def)
  then have "?x / 2 powi ulp_exp ?x = of_int (int n * 2 ^ k)"
    by (simp add: k_def power_int_def field_simps)
  then have "round_mag ?x = ?x" using pos by (rule round_mag_exact [rotated])
  moreover have "?x < max_mag"
  proof -
    have "(2::rat) ^ 53 < 2 ^ 1024" by (rule power_strict_increasing) simp_all
    moreover have "?x < 2 ^ 53" using big by (simp only: power_int_numeral)
    ultimately show ?thesis unfolding max_mag_def by (rule less_trans [rotated])
  qed
  ultimately show ?thesis by (simp add: representable_def round_rat_def)
qed simp

lemma round64_of_nat: "n < 2 ^ 53 \<Longrightarrow> round64 (of_nat n) = Fin (of_nat n)"
  by (intro representable_round64 representable_of_nat)

lemma d_in_Fin: "d_in a b (Fin r) \<longleftrightarrow> a \<le> r \<and> r \<le> b"
  by (simp add: d_in_def)

lemma total_in:
  "list_all (d_in (of_nat p) (of_nat q)) ds \<Longrightarrow> length ds * q < 2 ^ 53 \<Longrightarrow> p \<le> q \<Longrightarrow>
   d_in (of_nat (length ds * p)) (of_nat (length ds * q)) (d_total ds)"
proof (induction ds rule: rev_induct)
  case Nil
  then show ?case by (simp add: d_total_def d_in_def)
next
  case (snoc d ds)
  have "length ds * q \<le> length (ds @ [d]) * q" by simp
  moreover have "length (ds @ [d]) * p \<le> length (ds @ [d]) * q"
    using snoc.prems(3) by (rule mult_le_mono2)
  ultimately have bounds: "length ds * q < 2 ^ 53" "length (ds @ [d]) * p < 2 ^ 53"
    using snoc.prems(2) by linarith+
  have ds: "d_in (of_nat (length ds * p)) (of_nat (length ds * q)) (d_total ds)"
    using snoc.IH snoc.prems bounds(1) by simp
  have d: "d_in (of_nat p) (of_nat q) d" using snoc.prems(1) by simp
  have sums: "of_nat (length ds * p) + of_nat p = (of_nat (length (ds @ [d]) * p) :: rat)"
    "of_nat (length ds * q) + of_nat q = (of_nat (length (ds @ [d]) * q) :: rat)"
    by (simp_all add: algebra_simps)
  have "d_in (of_nat (length (ds @ [d]) * p)) (of_nat (length (ds @ [d]) * q)) (d_add (d_total ds) d)"
    by (rule d_in_add [OF ds d]; unfold sums; rule round64_of_nat; rule bounds(2) snoc.prems(2))
  then show ?case by (simp add: d_total_def)
qed

lemma average_in:
  assumes "list_all (d_in (of_nat p) (of_nat q)) ds" "length ds * q < 2 ^ 53" "p \<le> q" "ds \<noteq> []"
    and "0 < q"
  shows "d_in (of_nat p) (of_nat q) (d_div (d_total ds) (of_size (length ds)))"
proof -
  let ?n = "length ds"
  have n: "0 < ?n" "?n < 2 ^ 53"
  proof -
    show pos: "0 < ?n" using assms(4) by simp
    have "1 \<le> q" using assms(5) by simp
    then have "?n * 1 \<le> ?n * q" by (rule mult_le_mono2)
    then show "?n < 2 ^ 53" using assms(2) by linarith
  qed
  obtain r where r: "d_total ds = Fin r" "of_nat (?n * p) \<le> r" "r \<le> of_nat (?n * q)"
    using total_in [OF assms(1-3)] by (rule d_inE)
  have q: "p < 2 ^ 53" "q < 2 ^ 53"
  proof -
    have "1 \<le> ?n" using n(1) by linarith
    then have "1 * q \<le> ?n * q" by (rule mult_le_mono1)
    then show "q < 2 ^ 53" using assms(2) by linarith
    with assms(3) show "p < 2 ^ 53" by simp
  qed
  have "of_nat p \<le> r / of_nat ?n" "r / of_nat ?n \<le> of_nat q"
    using r(2,3) n(1) by (simp_all add: field_simps)
  then have "d_in (of_nat p) (of_nat q) (round64 (r / of_nat ?n))"
    using q by (intro d_in_round64 representable_of_nat)
  moreover have "of_size ?n = Fin (of_nat ?n)" using n(2) by (simp add: of_size_def round64_of_nat)
  ultimately show ?thesis using n(1) by (simp add: d_div_def r(1))
qed

lemma those_length: "those xs = Some ys \<Longrightarrow> length ys = length xs"
  by (induction xs arbitrary: ys) (auto split: option.splits)

lemma those_set: "those (map f xs) = Some ys \<Longrightarrow> y \<in> set ys \<Longrightarrow> \<exists>x. f x = Some y"
  by (induction xs arbitrary: ys) (auto split: option.splits)

section \<open>Routes\<close>

definition hazards_of :: "'j json_lib \<Rightarrow> 'j list \<Rightarrow> double list" where
  "hazards_of J rows = map (\<lambda>row. json_number_or J row ''hazard_score'' (Fin 0)) rows"

definition delays_of :: "'j json_lib \<Rightarrow> 'j list \<Rightarrow> double list" where
  "delays_of J rows = map (\<lambda>row. json_number_or J row ''delay_factor'' (Fin 1)) rows"

lemma minutes_in:
  assumes "d_in (of_nat p) (of_nat q) d" "1 \<le> p" "p \<le> q" "60 * q < 2 ^ 53"
  shows "d_in (of_nat (60 * (p - 1))) (of_nat (60 * (q - 1))) (d_mul (d_sub d (Fin 1)) (lit 60))"
proof -
  obtain r where r: "d = Fin r" "of_nat p \<le> r" "r \<le> of_nat q" using assms(1) by (rule d_inE)
  have one: "of_nat (p - 1) = (of_nat p - 1 :: rat)" "of_nat (q - 1) = (of_nat q - 1 :: rat)"
    using assms(2,3) by (simp_all add: of_nat_diff)
  have less: "p - 1 < 2 ^ 53" "q - 1 < 2 ^ 53" "60 * (p - 1) < 2 ^ 53" "60 * (q - 1) < 2 ^ 53"
    using assms(3,4) by auto
  have "d_in (of_nat (p - 1)) (of_nat (q - 1)) (round64 (r + - 1))"
    using r(2,3) by (intro d_in_round64 representable_of_nat less) (simp_all add: one [unfolded One_nat_def])
  then obtain t where t: "d_sub d (Fin 1) = Fin t" "of_nat (p - 1) \<le> t" "t \<le> of_nat (q - 1)"
    by (auto simp: r(1) d_sub_def d_in_def)
  have "lit 60 = Fin 60" using round64_of_nat [of 60] by (simp add: lit_def)
  moreover have "d_in (of_nat (60 * (p - 1))) (of_nat (60 * (q - 1))) (round64 (t * 60))"
    using t(2,3) by (intro d_in_round64 representable_of_nat less) simp_all
  ultimately show ?thesis by (simp add: t(1) d_mul_def)
qed

text \<open>
  C24: the figures of a route.  When the database has segments for the route, whole numbers that
  bound their hazards (the writer stores 0 to 100) and their delay factors (1 to 2) bound the
  averages reported, and the projected delay is between 60 minutes times the bounds less one; sums
  and quotients are rounded as the machine does.  When the database answers with
  no segment at all, the same code reports a delay factor of 0 and a trip 60 minutes shorter
  (the fallback without a database reports 1 and 0).
\<close>

theorem route_figures:
  assumes "json_laws J" "route_risk_from_db J st db rid ids = Some (Some j)"
    and "ask_array J st db (route_risk_sql rid ids) = Some response"
    and "list_all (d_in (of_nat p) (of_nat q)) (hazards_of J (j_elems J response))" "p \<le> q" "0 < q"
    and "list_all (d_in (of_nat p') (of_nat q')) (delays_of J (j_elems J response))" "1 \<le> p'" "p' \<le> q'"
    and "length (j_elems J response) * max q (60 * q') < 2 ^ 53"
  shows "\<exists>h d eta. j_at J j ''segment_count'' = Some (j_int J (int (length (j_elems J response))))
    \<and> j_at J j ''route_hazard_score'' = Some (j_dbl J h)
    \<and> j_at J j ''route_delay_factor'' = Some (j_dbl J d)
    \<and> j_at J j ''projected_eta_delta_minutes'' = Some (j_dbl J eta)
    \<and> (if j_elems J response = [] then h = Fin 0 \<and> d = Fin 0 \<and> eta = Fin (- 60)
       else d_in (of_nat p) (of_nat q) h \<and> d_in (of_nat p') (of_nat q') d
         \<and> d_in (of_nat (60 * (p' - 1))) (of_nat (60 * (q' - 1))) eta)"
proof -
  let ?rows = "j_elems J response"
  obtain segments where seg: "those (map (segment_row_json J) ?rows) = Some segments"
    using assms(2,3) by (auto simp: route_risk_from_db_def split: if_splits)
  have len: "length segments = length ?rows" using those_length [OF seg] by simp
  let ?n = "of_size (max 1 (length ?rows))"
  let ?h = "d_div (d_total (hazards_of J ?rows)) ?n"
  let ?d = "d_div (d_total (delays_of J ?rows)) ?n"
  let ?eta = "d_mul (d_sub ?d (Fin 1)) (lit 60)"
  have j: "j = j_obj J [(''route_id'', j_str J rid), (''segment_count'', j_int J (int (length ?rows))),
      (''route_hazard_score'', j_dbl J ?h), (''route_delay_factor'', j_dbl J ?d),
      (''projected_eta_delta_minutes'', j_dbl J ?eta),
      (''segments'', j_arr J segments), (''source'', j_str J ''timescale'')]"
    using assms(2,3) seg len
    by (simp add: route_risk_from_db_def hazards_of_def delays_of_def Let_def split: if_splits)
  have "j_at J j ''segment_count'' = Some (j_int J (int (length ?rows)))"
    "j_at J j ''route_hazard_score'' = Some (j_dbl J ?h)" "j_at J j ''route_delay_factor'' = Some (j_dbl J ?d)"
    "j_at J j ''projected_eta_delta_minutes'' = Some (j_dbl J ?eta)"
    by (simp_all add: j json_at_obj [OF assms(1)])
  moreover have "if ?rows = [] then ?h = Fin 0 \<and> ?d = Fin 0 \<and> ?eta = Fin (- 60)
       else d_in (of_nat p) (of_nat q) ?h \<and> d_in (of_nat p') (of_nat q') ?d
         \<and> d_in (of_nat (60 * (p' - 1))) (of_nat (60 * (q' - 1))) ?eta"
  proof (cases "?rows = []")
    case True
    have "?n = Fin 1" using True by (simp add: of_size_def)
    moreover have "d_mul (d_sub (Fin 0) (Fin 1)) (lit 60) = Fin (- 60)" by code_simp
    ultimately show ?thesis using True
      by (simp add: hazards_of_def delays_of_def d_total_def d_div_def)
  next
    case False
    then have m: "max 1 (length ?rows) = length ?rows" by (cases ?rows) simp_all
    have hd: "length (hazards_of J ?rows) = length ?rows" "length (delays_of J ?rows) = length ?rows"
      "hazards_of J ?rows \<noteq> []" "delays_of J ?rows \<noteq> []"
      using False by (simp_all add: hazards_of_def delays_of_def)
    let ?len = "length ?rows"
    have "?len * q \<le> ?len * max q (60 * q')" "?len * q' \<le> ?len * max q (60 * q')"
      by (rule mult_le_mono2; simp)+
    then have small: "?len * q < 2 ^ 53" "?len * q' < 2 ^ 53" using assms(10) by linarith+
    have "1 \<le> ?len" using False by (cases ?rows) simp_all
    then have "1 * max q (60 * q') \<le> ?len * max q (60 * q')" by (rule mult_le_mono1)
    then have minutes: "60 * q' < 2 ^ 53" using assms(10) by linarith
    have h: "d_in (of_nat p) (of_nat q) ?h"
      using average_in [of p q "hazards_of J ?rows"] assms(4-6) small(1) hd by (simp add: m [simplified])
    have d: "d_in (of_nat p') (of_nat q') ?d"
      using average_in [of p' q' "delays_of J ?rows"] assms(7-9) small(2) hd by (simp add: m [simplified])
    from h d minutes_in [OF d assms(8,9) minutes] False show ?thesis by simp
  qed
  ultimately show ?thesis by blast
qed

text \<open>A library whose \<open>parse\<close> knows one answer of the database, and that database.\<close>

definition demo_answer :: demo where
  "demo_answer = DArr [DObj [(''segment_id'', DStr ''s1''), (''hazard_score'', DDbl (Fin (145/2))),
     (''delay_factor'', DDbl (Fin (3/2)))]]"

definition demo_answers :: "demo json_lib" where
  "demo_answers = demo_json\<lparr>j_parse := \<lambda>s. Some demo_answer\<rparr>"

definition demo_db :: database where
  "demo_db sql = (Conn_ok, Some \<lparr>pa_tuples_ok = True, pa_ntuples = 1, pa_nfields = 1,
     pa_value = Some ''[...]''\<rparr>)"

definition demo_store :: map_store where
  "demo_store = \<lparr>ms_connection = ''db'', ms_cities = []\<rparr>"

lemma demo_ask:
  "ask demo_answers demo_store demo_db sql = Some demo_answer"
  "ask_array demo_answers demo_store demo_db sql = Some demo_answer"
  by (simp_all add: ask_array_def ask_def query_json_def pq_query_def demo_db_def demo_store_def
      demo_answers_def demo_json_def demo_answer_def)

lemma demo_enabled: "enabled demo_store"
  by (simp add: enabled_def read_enabled_def demo_store_def)

lemma demo_answers_laws: "json_laws demo_answers"
  by (simp add: demo_answers_def)

lemma demo_rows: "j_elems demo_answers demo_answer = [DObj [(''segment_id'', DStr ''s1''),
    (''hazard_score'', DDbl (Fin (145/2))), (''delay_factor'', DDbl (Fin (3/2)))]]"
  by (simp add: demo_answers_def demo_json_def demo_answer_def)

lemma demo_figures:
  "hazards_of demo_answers (j_elems demo_answers demo_answer) = [Fin (145/2)]"
  "delays_of demo_answers (j_elems demo_answers demo_answer) = [Fin (3/2)]"
  unfolding demo_rows
  by (simp_all add: hazards_of_def delays_of_def json_number_or_def demo_answers_def demo_json_def)

theorem route_figures_witness:
  "\<exists>j h d eta. route_risk_from_db demo_answers demo_store demo_db ''r'' [''s1''] = Some (Some j)
    \<and> j_at demo_answers j ''route_hazard_score'' = Some (j_dbl demo_answers h) \<and> d_in 0 100 h
    \<and> j_at demo_answers j ''route_delay_factor'' = Some (j_dbl demo_answers d) \<and> d_in 1 2 d
    \<and> j_at demo_answers j ''projected_eta_delta_minutes'' = Some (j_dbl demo_answers eta) \<and> d_in 0 60 eta"
proof -
  let ?J = demo_answers and ?rows = "j_elems demo_answers demo_answer"
  have "those (map (segment_row_json ?J) ?rows) \<noteq> None"
    unfolding demo_rows
    by (simp add: segment_row_json_def row_text_def value_or_def demo_answers_def demo_json_def)
  then obtain j where j: "route_risk_from_db ?J demo_store demo_db ''r'' [''s1''] = Some (Some j)"
    by (auto simp: route_risk_from_db_def demo_ask demo_enabled Let_def)
  have "list_all (d_in (of_nat 0) (of_nat 100)) (hazards_of ?J ?rows)"
    "list_all (d_in (of_nat 1) (of_nat 2)) (delays_of ?J ?rows)"
    "length ?rows * max 100 (60 * 2) < 2 ^ 53" "?rows \<noteq> []"
    by (simp_all add: demo_figures d_in_Fin) (simp_all add: demo_rows)
  with route_figures [OF demo_answers_laws j demo_ask(2), of 0 100 1 2] j show ?thesis by auto
qed

section \<open>The shape of the answers\<close>

text \<open>
  C25: the tile snapshot is always the same kind of value: an object with the layer asked for,
  the time asked for, an array of tiles and its length; every tile is an object for that layer
  with numbers for its coordinates and scores; the source is the database, or no tile is given.
\<close>

theorem tile_snapshot_type:
  assumes "json_laws J" "tile_snapshot J st db layer b as_of = Some j"
  shows "\<exists>tiles src. j_is_object J j \<and> j_at J j ''layer'' = Some (j_str J layer)
    \<and> j_at J j ''as_of'' = Some (j_str J as_of)
    \<and> j_at J j ''tiles'' = Some (j_arr J tiles) \<and> j_at J j ''count'' = Some (j_int J (int (length tiles)))
    \<and> j_at J j ''source'' = Some (j_str J src)
    \<and> (src = ''timescale'' \<or> src = ''live_unavailable'' \<and> tiles = [])
    \<and> list_all (\<lambda>t. j_is_object J t \<and> j_at J t ''layer'' = Some (j_str J layer)
        \<and> list_all (\<lambda>k. \<exists>v. j_at J t k = Some (j_dbl J v))
            [''latitude'', ''longitude'', ''hazard_score'', ''layer_value'']
        \<and> list_all (\<lambda>k. \<exists>v. j_at J t k = Some (j_str J v))
            [''tile_id'', ''region'', ''continent'', ''country'', ''bucket_start'', ''primary_hazard'']) tiles"
proof -
  note J = assms(1)
  have tile: "j_is_object J t \<and> j_at J t ''layer'' = Some (j_str J layer)
        \<and> list_all (\<lambda>k. \<exists>v. j_at J t k = Some (j_dbl J v))
            [''latitude'', ''longitude'', ''hazard_score'', ''layer_value'']
        \<and> list_all (\<lambda>k. \<exists>v. j_at J t k = Some (j_str J v))
            [''tile_id'', ''region'', ''continent'', ''country'', ''bucket_start'', ''primary_hazard'']"
    if "tile_row_json J layer row = Some t" for row t
    using that
    by (auto simp: tile_row_json_def bind_eq_Some_conv json_obj_object [OF J] json_at_obj [OF J])
  show ?thesis
  proof (cases "tile_snapshot_from_db J st db layer b")
    case None
    with assms(2) show ?thesis by (simp add: tile_snapshot_def)
  next
    case (Some s)
    show ?thesis
    proof (cases s)
      case None
      with Some assms(2) have "j = fallback_tile_snapshot J layer as_of" by (simp add: tile_snapshot_def)
      then show ?thesis
        by (intro exI [of _ "[]"] exI [of _ "''live_unavailable''"])
          (simp add: fallback_tile_snapshot_def json_obj_object [OF J] json_at_obj [OF J])
    next
      case (Some snap)
      with \<open>tile_snapshot_from_db J st db layer b = Some s\<close> obtain tiles rows where t:
        "those (map (tile_row_json J layer) rows) = Some tiles"
        "snap = j_obj J [(''layer'', j_str J layer), (''count'', j_int J (int (length tiles))),
             (''tiles'', j_arr J tiles), (''source'', j_str J ''timescale'')]"
        by (auto simp: tile_snapshot_from_db_def split: if_splits option.splits)
      have "j = j_set J snap ''as_of'' (j_str J as_of)"
        using Some \<open>tile_snapshot_from_db J st db layer b = Some s\<close> assms(2) by (simp add: tile_snapshot_def)
      moreover have "list_all (\<lambda>t. \<exists>row. tile_row_json J layer row = Some t) tiles"
        using those_set [OF t(1)] by (auto simp: list_all_iff)
      ultimately show ?thesis
        using tile
        by (intro exI [of _ tiles] exI [of _ "''timescale''"])
          (auto simp: t(2) json_obj_object [OF J] json_at_obj [OF J] json_at_set [OF J]
            json_set_object [OF J] elim!: list.pred_mono_strong)
    qed
  qed
qed

theorem tile_snapshot_type_witness:
  "\<exists>j. tile_snapshot demo_answers demo_store demo_db ''wind'' (None, None, None, None) ''now'' = Some j
    \<and> j_is_object demo_answers j \<and> j_at demo_answers j ''layer'' = Some (j_str demo_answers ''wind'')"
proof -
  let ?J = demo_answers and ?b = "(None, None, None, None)"
  have "those (map (tile_row_json ?J ''wind'') (j_elems ?J demo_answer)) \<noteq> None"
    unfolding demo_rows
    by (simp add: tile_row_json_def row_text_def null_member_def value_or_def demo_answers_def demo_json_def)
  then obtain j where j: "tile_snapshot ?J demo_store demo_db ''wind'' ?b ''now'' = Some j"
    by (auto simp: tile_snapshot_def tile_snapshot_from_db_def demo_ask demo_enabled)
  from tile_snapshot_type [OF demo_answers_laws j] j show ?thesis by blast
qed

text \<open>
  Without a configured database no request of the query service fails and none asks the
  database: every answer is the fallback and says so in its source; no picture is rendered.
\<close>

lemma answers_without_database:
  assumes "json_laws J" "ms_connection st = []"
  shows "map_option (\<lambda>j. j_at J j ''source'') (tile_snapshot J st db layer b as_of) = Some (Some (j_str J ''live_unavailable''))
    \<and> map_option (\<lambda>j. j_at J j ''source'') (route_risk_snapshot J st db rid ids as_of) = Some (Some (j_str J ''live_unavailable''))
    \<and> map_summary_from_db J st db layer b as_of = None
    \<and> j_at J (fallback_map_summary J layer) ''source'' = Some (j_str J ''live_unavailable'')
    \<and> list_all (\<lambda>j. j_at J j ''source'' = Some (j_str J ''live_unavailable''))
        [personal_comparison_snapshot J st db now profile, history_cities J st db,
         history_timeseries J st db now town f t interval, history_summary J st db town f t]
    \<and> query_json J (ms_connection st) db sql = (None, [])"
  using assms(2)
  by (simp add: tile_snapshot_def tile_snapshot_from_db_def fallback_tile_snapshot_def
      route_risk_snapshot_def route_risk_from_db_def fallback_route_risk_def
      map_summary_from_db_def fallback_map_summary_def
      personal_comparison_snapshot_def fallback_personal_comparison_def
      history_cities_def fallback_history_cities_def history_timeseries_def fallback_history_timeseries_def
      history_summary_def fallback_history_summary_def enabled_def read_enabled_def
      query_json_def pq_query_def Let_def json_at_obj [OF assms(1)])

end
