(* ===== verification/Heat_Pictures.thy ===== *)
theory Heat_Pictures
  imports Heat_Tile Map_Results
begin

text \<open>
  The pictures of \<open>renderHeatTilePng\<close>: when one is produced it is a valid PNG of the right
  size with colours in range, and the only rows that make the code undefined are those whose
  projection is not a number.
\<close>

lemma heat_lits:
  "lit 84 = Fin 84" "lit 80 = Fin 80" "lit (-80) = Fin (-80)" "of_size tile_size = Fin 256"
  "d_add (Fin 256) (Fin 80) = Fin 336" "lit 255 = Fin 255" "lit 200 = Fin 200" "lit 40 = Fin 40"
  "lit (2/25) = Fin (5764607523034235 / 72057594037927936)" "round64 336 = Fin 336"
  "lit (27/20) = Fin (3039929748475085 / 2251799813685248)"
  by code_simp+

section \<open>Bounds of the pieces\<close>

lemma heat_intensity_in: "d_in (5764607523034235 / 72057594037927936) 1 (heat_intensity layer v)"
proof -
  have "d_in (5764607523034235 / 72057594037927936) 1 (heat_clamp w)" for w
    by (cases w) (auto simp: heat_clamp_def heat_lits d_in_Fin d_max_def d_min_def)
  then show ?thesis by (simp add: heat_intensity_def)
qed

lemma inside_margin: "\<not> outside_margin v \<Longrightarrow> \<not> is_nan v \<Longrightarrow> d_in (- 80) 336 v"
  by (cases v) (auto simp: outside_margin_def heat_lits d_in_def)

lemma to_int_in: "d_in lo hi v \<Longrightarrow> - (2 ^ 31) < lo \<Longrightarrow> hi < 2 ^ 31 - 1 \<Longrightarrow>
  to_int (d_floor v) \<noteq> None \<and> to_int (d_ceil v) \<noteq> None"
proof -
  assume "d_in lo hi v" "- (2 ^ 31) < lo" "hi < 2 ^ 31 - 1"
  then obtain r where r: "v = Fin r" "- (2 ^ 31) < r" "r < 2 ^ 31 - 1" by (auto simp: d_in_def)
  then have "- 2147483648 < r" "r < 2147483647" by simp_all
  then have "- (2 ^ 31) \<le> \<lfloor>r\<rfloor>" "\<lfloor>r\<rfloor> < 2 ^ 31" "- (2 ^ 31) \<le> \<lceil>r\<rceil>" "\<lceil>r\<rceil> < 2 ^ 31"
    by (simp_all add: le_floor_iff floor_less_iff le_ceiling_iff ceiling_less_iff)
  then show ?thesis by (simp add: r(1) int_range_def)
qed

lemma round64_close:
  "r \<in> {- 80..336} \<Longrightarrow> d_in (- 164) 252 (d_sub (Fin r) (Fin 84)) \<and> d_in 4 420 (d_add (Fin r) (Fin 84))"
proof -
  assume r: "r \<in> {- 80..336}"
  have "representable (- 164)" using round64_representable [of "- 164"] by code_simp
  then show ?thesis
    using r d_in_round64 [of "- 164" 252 "r + - 84"] d_in_round64 [of 4 420 "r + 84"]
      representable_of_nat [of 252] representable_of_nat [of 4] representable_of_nat [of 420]
    by (simp add: d_sub_def)
qed

lemma heat_range_None:
  assumes "\<not> outside_margin v"
  shows "heat_range v = None \<longleftrightarrow> is_nan v"
proof (cases "is_nan v")
  case True
  then show ?thesis by (cases v) (simp_all add: heat_range_def d_sub_def heat_lits)
next
  case False
  then obtain r where r: "v = Fin r" "r \<in> {- 80..336}"
    using inside_margin [OF assms] by (auto simp: d_in_def)
  from round64_close [OF r(2)] have "to_int (d_floor (d_sub v (Fin 84))) \<noteq> None"
    "to_int (d_ceil (d_add v (Fin 84))) \<noteq> None"
    using to_int_in [of "- 164" 252] to_int_in [of 4 420] by (simp_all add: r(1))
  with False show ?thesis by (auto simp: heat_range_def heat_lits)
qed

lemma heat_accumulate_None:
  assumes "list_all (\<lambda>p. \<not> outside_margin (hp_x p) \<and> \<not> outside_margin (hp_y p)) ps"
  shows "heat_accumulate M ps aw = None \<longleftrightarrow> list_ex (\<lambda>p. is_nan (hp_x p) \<or> is_nan (hp_y p)) ps"
  using assms
proof (induction ps arbitrary: aw)
  case (Cons p ps)
  have "heat_add M p aw = None \<longleftrightarrow> is_nan (hp_x p) \<or> is_nan (hp_y p)"
    using heat_range_None [of "hp_x p"] heat_range_None [of "hp_y p"] Cons.prems
    by (auto simp: heat_add_def split: option.splits)
  then show ?case using Cons by (cases "heat_add M p aw") simp_all
qed simp

section \<open>Colours\<close>

definition pixel_ok :: "bytes \<Rightarrow> bool" where
  "pixel_ok px \<longleftrightarrow> px = [0, 0, 0, 0] \<or> (\<exists>r g b a. px = [r, g, b, a] \<and> 40 \<le> a \<and> a \<le> 240)"

lemma to_byte_round:
  assumes "d_in lo hi v" "of_nat m \<le> lo" "hi \<le> of_nat n" "n < 256"
  shows "\<exists>w. to_byte (d_round v) = Some w \<and> of_nat m \<le> w \<and> w \<le> of_nat n"
proof -
  obtain r where r: "v = Fin r" "of_nat m \<le> r" "r \<le> of_nat n"
    using assms by (auto simp: d_in_def)
  let ?i = "\<lfloor>r + 1/2\<rfloor>"
  have i: "int m \<le> ?i" "?i \<le> int n"
    using r(2,3) by (simp_all add: le_floor_iff floor_le_iff)
  have "0 \<le> r" using r(2) by (rule order_trans [rotated]) simp
  moreover have "?i < 256" using i(2) assms(4) by linarith
  ultimately have "to_byte (d_round v) = Some (word_of_int ?i)"
    using i assms(4) by (simp add: r(1) to_byte_def int_range_def)
  moreover have "0 \<le> ?i" using i(1) by linarith
  then have "word_of_int ?i = (of_nat (nat ?i) :: u8)" by (simp only: of_nat_nat)
  moreover have "of_nat m \<le> (of_nat (nat ?i) :: u8)" "(of_nat (nat ?i) :: u8) \<le> of_nat n"
    using i assms(4) by (simp_all add: word_le_nat_alt unat_of_nat take_bit_nat_eq_self)
  ultimately show ?thesis by metis
qed

lemma heat_pixel_ok: "\<exists>px. heat_pixel mx v = Some px \<and> pixel_ok px \<and> length px = 4"
proof -
  define n where "n = clamp01 (d_div v mx)"
  have n: "d_in 0 1 n" unfolding n_def clamp01_def by (rule clamp01_in)
  then obtain q where q: "n = Fin q" "0 \<le> q" "q \<le> 1" by (rule d_inE)
  show ?thesis
  proof (cases "d_le n (Fin 0)")
    case True
    then show ?thesis by (simp add: heat_pixel_def n_def [symmetric] pixel_ok_def Let_def)
  next
    case False
    have full: "d_in 0 255 (d_mul (lit 255) w)" if "d_in 0 1 w" for w
      using that round64_of_nat [of 255] by (intro d_in_mul [of 255 _ 1]) (simp_all add: heat_lits d_in_Fin)
    have g: "d_in 0 1 (d_min (Fin 1) (d_mul n (lit (135/100))))"
    proof -
      have "round64 (1 * (3039929748475085 / 2251799813685248)) = Fin (3039929748475085 / 2251799813685248)"
        using heat_lits(11) by (simp add: lit_def round64_again)
      then have "d_in 0 (3039929748475085 / 2251799813685248) (d_mul n (lit (135/100)))"
        using n by (intro d_in_mul [of 1 _ "3039929748475085 / 2251799813685248"])
          (simp_all add: heat_lits d_in_Fin)
      then show ?thesis by (auto simp: d_in_def d_min_def)
    qed
    have b: "d_in 0 1 (d_sub (Fin 1) n)"
      using q d_in_round64 [of 0 1 "1 + - q"] by (simp add: d_sub_def)
    have a: "d_in 40 240 (d_add (lit 40) (d_mul n (lit 200)))"
    proof -
      have "d_in 0 200 (d_mul n (lit 200))"
        using n round64_of_nat [of 200] by (intro d_in_mul [of 1 _ 200]) (simp_all add: heat_lits d_in_Fin)
      moreover have "d_in 40 40 (lit 40)" by (simp add: heat_lits d_in_Fin)
      ultimately show ?thesis
        using round64_of_nat [of 40] round64_of_nat [of 240] by (intro d_in_add [of 40 40 _ 0 200]) simp_all
    qed
    obtain wr wg wb wa where w: "to_byte (d_round (d_mul (lit 255) n)) = Some wr"
      "to_byte (d_round (d_mul (lit 255) (d_min (Fin 1) (d_mul n (lit (135/100)))))) = Some wg"
      "to_byte (d_round (d_mul (lit 255) (d_sub (Fin 1) n))) = Some wb"
      "to_byte (d_round (d_add (lit 40) (d_mul n (lit 200)))) = Some wa" "40 \<le> wa" "wa \<le> 240"
      using to_byte_round [OF full [OF n], of 0 255] to_byte_round [OF full [OF g], of 0 255]
        to_byte_round [OF full [OF b], of 0 255] to_byte_round [OF a, of 40 240] by auto
    have "heat_pixel mx v = Some [wr, wg, wb, wa]"
      unfolding heat_pixel_def Let_def n_def [symmetric] list.map w using False by simp
    moreover have "pixel_ok [wr, wg, wb, wa]" using w(5,6) by (simp add: pixel_ok_def)
    ultimately show ?thesis by simp
  qed
qed

lemma those_total:
  "(\<And>x. \<exists>y. f x = Some y \<and> P y) \<Longrightarrow> \<exists>ys. those (map f xs) = Some ys \<and> list_all P ys \<and> length ys = length xs"
proof (induction xs)
  case (Cons x xs)
  then obtain y ys where "f x = Some y" "P y" "those (map f xs) = Some ys" "list_all P ys"
    "length ys = length xs" by metis
  then show ?case by simp
qed simp

lemma heat_rgba_ok:
  "\<exists>px. heat_rgba aw = Some (concat px) \<and> length px = heat_cells \<and> list_all (\<lambda>p. pixel_ok p \<and> length p = 4) px"
proof (cases "d_le (heat_max aw) (Fin 0)")
  case True
  have "concat (replicate n [0, 0, 0, 0]) = (replicate (n * 4) 0 :: bytes)" for n
    by (induction n) (simp_all add: numeral_eq_Suc)
  then show ?thesis using True
    by (intro exI [of _ "replicate heat_cells [0, 0, 0, 0]"])
      (simp add: heat_rgba_def empty_rgba_def list_all_iff pixel_ok_def)
next
  case False
  obtain px where "those (map (\<lambda>i. heat_pixel (heat_max aw) (heat_value aw i)) [0..<heat_cells]) = Some px"
    "list_all (\<lambda>p. pixel_ok p \<and> length p = 4) px" "length px = length [0..<heat_cells]"
    using those_total [of "\<lambda>i. heat_pixel (heat_max aw) (heat_value aw i)"
        "\<lambda>p. pixel_ok p \<and> length p = 4" "[0..<heat_cells]"] heat_pixel_ok by blast
  then show ?thesis using False by (auto simp: heat_rgba_def)
qed

lemma concat_quads: "list_all (\<lambda>p. pixel_ok p \<and> length p = 4) px \<Longrightarrow> length (concat px) = length px * 4"
  by (induction px) simp_all

lemma encode_tile_ok:
  assumes "length px = heat_cells" "list_all (\<lambda>p. pixel_ok p \<and> length p = 4) px"
  shows "Option.bind (encode_tile (concat px)) decode_png = Some (256, 256, concat px)"
  using png_roundtrip [of "int tile_size" "int tile_size" "concat px"] concat_quads [OF assms(2)] assms(1)
  by (simp add: encode_tile_def tile_size_def heat_cells_def)

lemma encode_empty_ok: "Option.bind (encode_tile empty_rgba) decode_png = Some (256, 256, empty_rgba)"
  using png_roundtrip [of "int tile_size" "int tile_size" empty_rgba]
  by (simp add: encode_tile_def tile_size_def heat_cells_def empty_rgba_def)

lemma heat_point_margin:
  assumes "heat_point_of M J cities layer z x y row = Some (Some p)"
  shows "\<not> outside_margin (hp_x p) \<and> \<not> outside_margin (hp_y p)
    \<and> d_in (5764607523034235 / 72057594037927936) 1 (hp_intensity p)"
  using assms heat_intensity_in
  by (auto simp: heat_point_of_def Let_def split: option.splits prod.splits if_splits)

lemma heat_points_margin:
  assumes "heat_points M J cities layer z x y rows = Some ps"
  shows "list_all (\<lambda>p. \<not> outside_margin (hp_x p) \<and> \<not> outside_margin (hp_y p)
    \<and> d_in (5764607523034235 / 72057594037927936) 1 (hp_intensity p)) ps"
proof -
  obtain qs where qs: "those (map (heat_point_of M J cities layer z x y) rows) = Some qs"
    "ps = concat (map (\<lambda>p. case p of Some q \<Rightarrow> [q] | None \<Rightarrow> []) qs)"
    using assms by (auto simp: heat_points_def)
  have "\<exists>row. heat_point_of M J cities layer z x y row = Some (Some p)" if "p \<in> set ps" for p
    using that those_set [OF qs(1)] by (fastforce simp: qs(2) split: option.splits)
  then show ?thesis using heat_point_margin by (fastforce simp: list_all_iff)
qed

lemma tile_bounds_defined: "int_range (y + 1) \<Longrightarrow> \<exists>b. tile_bounds_of M z x y = Some b"
  by (simp add: tile_bounds_of_def Let_def)

text \<open>
  C26: the heat tile.  Once the rows are read, every point has an intensity between 0.08 and 1.
  The code is undefined in exactly two cases: \<open>y\<close> is the largest \<open>int\<close>, so that the bounds of the
  tile overflow, or the projection of some point is not a number (a latitude beyond the poles), which
  the margin test lets through to the conversion to a pixel index.  Otherwise a picture is
  always produced, a PNG reader gets 256 by 256 pixels from it, and each of them is untouched
  (all zero) or has an opacity between 40 and 240.
\<close>

theorem heat_tile_picture:
  assumes "heat_points M J cities layer z x y rows = Some ps"
  shows "list_all (\<lambda>p. d_in (5764607523034235 / 72057594037927936) 1 (hp_intensity p)) ps
    \<and> (if \<not> int_range (y + 1) \<or> list_ex (\<lambda>p. is_nan (hp_x p) \<or> is_nan (hp_y p)) ps
       then render_heat_tile_png M J rows cities layer z x y = None
       else (\<exists>px. Option.bind (render_heat_tile_png M J rows cities layer z x y) decode_png
           = Some (256, 256, concat px)
         \<and> length px = 256 * 256 \<and> list_all (\<lambda>p. pixel_ok p \<and> length p = 4) px))"
proof -
  note margin = heat_points_margin [OF assms]
  have inside: "list_all (\<lambda>p. \<not> outside_margin (hp_x p) \<and> \<not> outside_margin (hp_y p)) ps"
    using margin by (auto elim: list.pred_mono_strong)
  have cells: "heat_cells = 256 * 256" by (simp add: heat_cells_def tile_size_def)
  have picture: "if list_ex (\<lambda>p. is_nan (hp_x p) \<or> is_nan (hp_y p)) ps
       then render_heat_tile_png M J rows cities layer z x y = None
       else (\<exists>px. Option.bind (render_heat_tile_png M J rows cities layer z x y) decode_png
           = Some (256, 256, concat px)
         \<and> length px = heat_cells \<and> list_all (\<lambda>p. pixel_ok p \<and> length p = 4) px)"
    if small: "int_range (y + 1)"
  proof (cases "ps = []")
    case True
    obtain b where bounds: "tile_bounds_of M z x y = Some b" using tile_bounds_defined [OF small] by blast
    from True have render: "render_heat_tile_png M J rows cities layer z x y = encode_tile empty_rgba"
      by (simp add: render_heat_tile_png_def bounds assms)
    have "concat (replicate n [0, 0, 0, 0]) = (replicate (n * 4) 0 :: bytes)" for n
      by (induction n) (simp_all add: numeral_eq_Suc)
    then have "empty_rgba = concat (replicate heat_cells [0, 0, 0, 0])" by (simp add: empty_rgba_def)
    moreover have "list_all (\<lambda>p. pixel_ok p \<and> length p = 4) (replicate heat_cells [0, 0, 0, 0])"
      by (simp add: list_all_iff pixel_ok_def)
    ultimately show ?thesis
      using True encode_empty_ok unfolding render
      by (auto intro!: exI [of _ "replicate heat_cells [0, 0, 0, 0]"])
  next
    case False
    obtain b where bounds: "tile_bounds_of M z x y = Some b" using tile_bounds_defined [OF small] by blast
    show ?thesis
    proof (cases "heat_accumulate M ps heat_zero")
      case None
      then show ?thesis using False heat_accumulate_None [OF inside, of M heat_zero]
        by (simp add: render_heat_tile_png_def bounds assms)
    next
      case (Some aw)
      obtain px where px: "heat_rgba aw = Some (concat px)" "length px = heat_cells"
        "list_all (\<lambda>p. pixel_ok p \<and> length p = 4) px" using heat_rgba_ok by blast
      have "render_heat_tile_png M J rows cities layer z x y = encode_tile (concat px)"
        using False by (simp add: render_heat_tile_png_def bounds assms Some px(1))
      then show ?thesis
        using Some heat_accumulate_None [OF inside, of M heat_zero] encode_tile_ok [OF px(2,3)] px(2,3)
        by auto
    qed
  qed
  have "render_heat_tile_png M J rows cities layer z x y = None" if "\<not> int_range (y + 1)"
    using that by (simp add: render_heat_tile_png_def tile_bounds_of_def)
  moreover have "list_all (\<lambda>p. d_in (5764607523034235 / 72057594037927936) 1 (hp_intensity p)) ps"
    using margin by (auto elim: list.pred_mono_strong)
  ultimately show ?thesis using picture unfolding cells by (cases "int_range (y + 1)") simp_all
qed

definition demo_libm :: libm where
  "demo_libm = \<lparr>m_pow = \<lambda>a b. Fin 1, m_atan = id, m_sinh = id, m_log = \<lambda>a. Fin 0, m_tan = \<lambda>a. Fin 0,
     m_cos = \<lambda>a. Fin 1, m_exp = \<lambda>a. Fin 1\<rparr>"

definition demo_row :: demo where
  "demo_row = DObj [(''latitude'', DDbl (Fin 0)), (''longitude'', DDbl (Fin 0)), (''layer_value'', DDbl (Fin 50))]"

lemma demo_resolve: "resolve_tile_coordinate demo_json demo_row []
    = Some (Some \<lparr>cc_latitude = Fin 0, cc_longitude = Fin 0\<rparr>)"
  by (simp add: resolve_tile_coordinate_def row_number_def demo_json_def demo_row_def)

lemma demo_pi: "m_pi = Fin (884279719003555 / 281474976710656)"
  unfolding m_pi_def by code_simp

lemma demo_pixel: "mercator_pixel demo_libm \<lparr>cc_latitude = Fin 0, cc_longitude = Fin 0\<rparr> 0 = (Fin 128, Fin 128)"
proof -
  have "d_mul (d_mul (d_div (d_add (Fin 0) (lit 180)) (lit 360)) (Fin 1)) (of_size tile_size) = Fin 128"
    by code_simp
  moreover have "d_mul (d_mul (d_div (d_sub (Fin 1) (d_div (Fin 0) m_pi)) (lit 2)) (Fin 1)) (of_size tile_size) = Fin 128"
    unfolding demo_pi by code_simp
  ultimately show ?thesis by (simp add: mercator_pixel_def demo_libm_def Let_def)
qed

lemma demo_origin: "tile_origin demo_libm 0 0 = Fin 0"
proof -
  have "d_mul (d_mul (d_div (of_long 0) (Fin 1)) (of_size tile_size)) (Fin 1) = Fin 0" by code_simp
  then show ?thesis by (simp add: tile_origin_def demo_libm_def Let_def)
qed

lemma demo_inside: "d_sub (Fin 128) (Fin 0) = Fin 128" "\<not> outside_margin (Fin 128)"
  by code_simp+

lemma demo_value: "heat_intensity ''wind''
    (json_number_or demo_json demo_row ''layer_value'' (json_number_or demo_json demo_row ''hazard_score'' (Fin 0)))
    = Fin (1/2)"
proof -
  have "heat_clamp (d_div (Fin 50) (lit 100)) = Fin (1/2)" by code_simp
  then show ?thesis
    by (simp add: heat_intensity_def json_number_or_def demo_json_def demo_row_def)
qed

theorem heat_tile_picture_witness:
  "\<exists>px. Option.bind (render_heat_tile_png demo_libm demo_json [demo_row] [] ''wind'' 0 0 0) decode_png
     = Some (256, 256, concat px) \<and> length px = 256 * 256"
proof -
  let ?p = "\<lparr>hp_x = Fin 128, hp_y = Fin 128, hp_intensity = Fin (1/2)\<rparr>"
  have "heat_point_of demo_libm demo_json [] ''wind'' 0 0 0 demo_row = Some (Some ?p)"
    unfolding heat_point_of_def demo_resolve option.case demo_pixel prod.case Let_def demo_origin
    by (simp add: point_in_bounds_def demo_inside demo_value)
  then have "heat_points demo_libm demo_json [] ''wind'' 0 0 0 [demo_row] = Some [?p]"
    by (simp add: heat_points_def)
  from heat_tile_picture [OF this] show ?thesis by (auto simp: int_range_def)
qed

end
