(* ===== verification/Http_Requests.thy ===== *)
theory Http_Requests
  imports Http
begin

text \<open>
  The decoders of the query service against reference encoders: base64 (RFC 4648), percent
  encoding (RFC 3986), a whole request as a client writes it, and what \<open>readBody\<close> reads.
\<close>

section \<open>Base64\<close>

definition base64_char :: "u8 \<Rightarrow> char" where
  "base64_char w = base64_chars ! unat w"

definition base64_quad :: "u8 \<Rightarrow> u8 \<Rightarrow> u8 \<Rightarrow> string" where
  "base64_quad a b c = map base64_char
     [drop_bit 2 a, push_bit 4 (a AND 3) OR drop_bit 4 b,
      push_bit 2 (b AND 15) OR drop_bit 6 c, c AND 63]"

fun base64_encode :: "u8 list \<Rightarrow> string" where
  "base64_encode (a # b # c # s) = base64_quad a b c @ base64_encode s"
| "base64_encode [a, b] = take 3 (base64_quad a b 0) @ ''=''"
| "base64_encode [a] = take 2 (base64_quad a 0 0) @ ''==''"
| "base64_encode [] = []"

lemma base64_table:
  "n < 64 \<Longrightarrow> base64_index (base64_chars ! n) = of_nat n \<and> is_base64 (base64_chars ! n)
     \<and> base64_chars ! n \<noteq> CHR ''=''"
proof -
  have "list_all (\<lambda>n. base64_index (base64_chars ! n) = of_nat n \<and> is_base64 (base64_chars ! n)
     \<and> base64_chars ! n \<noteq> CHR ''='') [0..<64]"
    by code_simp
  then show "n < 64 \<Longrightarrow> ?thesis" by (simp add: list_all_iff)
qed

lemma base64_char [simp]:
  assumes "w < 64"
  shows "base64_index (base64_char w) = w" "is_base64 (base64_char w)" "base64_char w \<noteq> CHR ''=''"
proof -
  have "unat w < 64" using assms by (simp add: word_less_nat_alt)
  from base64_table [OF this] show "base64_index (base64_char w) = w" "is_base64 (base64_char w)"
    "base64_char w \<noteq> CHR ''=''"
    by (simp_all add: base64_char_def)
qed

lemma bits8: "(\<And>n. n \<in> {0, 1, 2, 3, 4, 5, 6, 7} \<Longrightarrow> bit a n = bit b n) \<Longrightarrow> a = (b :: u8)"
  by (rule bit_word_eqI) (auto simp: less_Suc_eq numeral_eq_Suc)

lemma below64: "w < 64" if "\<not> bit w 6" "\<not> bit w 7" for w :: u8
proof -
  have "w = w AND 63" by (rule bits8) (use that in \<open>auto simp: bit_simps\<close>)
  also have "\<dots> \<le> 63" by (rule word_and_le1)
  finally show ?thesis by (simp add: word_le_nat_alt word_less_nat_alt)
qed

lemma high_bit: "8 \<le> n \<Longrightarrow> \<not> bit (w :: u8) n"
  using bit_imp_le_length [of w n] by auto

lemma sextets:
  fixes a b c :: u8
  shows "drop_bit 2 a < 64" "push_bit 4 (a AND 3) OR drop_bit 4 b < 64"
    "push_bit 2 (b AND 15) OR drop_bit 6 c < 64" "c AND 63 < 64"
  by (rule below64; simp add: bit_simps high_bit)+

lemma triple_pieces:
  fixes a b c :: u8
  shows "push_bit 2 (drop_bit 2 a) + drop_bit 4 ((push_bit 4 (a AND 3) OR drop_bit 4 b) AND 0x30) = a"
    "push_bit 4 ((push_bit 4 (a AND 3) OR drop_bit 4 b) AND 0xF)
      + drop_bit 2 ((push_bit 2 (b AND 15) OR drop_bit 6 c) AND 0x3C) = b"
    "push_bit 6 ((push_bit 2 (b AND 15) OR drop_bit 6 c) AND 0x3) + (c AND 63) = c"
  by (subst disjunctive_add_eq_or; rule bits8;
      auto simp: bit_simps simp del: add_2_eq_Suc add_2_eq_Suc')+

lemma triple_quad:
  "base64_triple (drop_bit 2 a) (push_bit 4 (a AND 3) OR drop_bit 4 b)
     (push_bit 2 (b AND 15) OR drop_bit 6 c) (c AND 63) = [a, b, c]"
  "take 2 (base64_triple (drop_bit 2 a) (push_bit 4 (a AND 3) OR drop_bit 4 b)
     (push_bit 2 (b AND 15) OR drop_bit 6 0) d) = [a, b]"
  "take 1 (base64_triple (drop_bit 2 a) (push_bit 4 (a AND 3) OR drop_bit 4 0) e d) = [a]"
  unfolding base64_triple_def by (simp_all only: triple_pieces) simp_all

text \<open>The decoder without its counters.\<close>

fun base64_scan :: "string \<Rightarrow> string \<Rightarrow> u8 list" where
  "base64_scan quad (c # s) =
     (if c \<noteq> CHR ''='' \<and> is_base64 c then
        (let quad' = quad @ [c] in
         if length quad' = 4
         then base64_triple (base64_index (quad' ! 0)) (base64_index (quad' ! 1))
                (base64_index (quad' ! 2)) (base64_index (quad' ! 3)) @ base64_scan [] s
         else base64_scan quad' s)
      else base64_tail quad)"
| "base64_scan quad [] = base64_tail quad"

lemma base64_loop_scan:
  "0 \<le> pos \<Longrightarrow> pos + int (length s) < 2 ^ 31 \<Longrightarrow>
   base64_loop (int (length s)) pos quad s = Some (base64_scan quad s)"
  by (induction quad s arbitrary: pos rule: base64_scan.induct) (simp_all add: Let_def)

lemma base64_decode_scan: "length s < 2 ^ 31 \<Longrightarrow> base64_decode s = Some (base64_scan [] s)"
proof -
  assume *: "length s < 2 ^ 31"
  then have "0 + int (length s) < 2 ^ 31" by simp
  then show ?thesis using base64_loop_scan [of 0 s "[]"] size_as_int_small [OF *]
    by (simp add: base64_decode_def)
qed

text \<open>A length that is a multiple of 4 GiB reads as 0.\<close>

lemma base64_decode_wrapped: "2 ^ 32 dvd length s \<Longrightarrow> base64_decode s = Some []"
proof -
  assume "2 ^ 32 dvd length s"
  then have "size_as_int (length s) = 0" by (rule size_as_int_wrapped)
  then show ?thesis unfolding base64_decode_def by (cases s) (simp_all add: base64_tail_def)
qed

lemma base64_scan_quad:
  assumes "w < 64" "x < 64"
  shows "y < 64 \<Longrightarrow> z < 64 \<Longrightarrow> base64_scan [] (map base64_char [w, x, y, z] @ s)
      = base64_triple w x y z @ base64_scan [] s"
    "y < 64 \<Longrightarrow> base64_scan [] (map base64_char [w, x, y] @ ''='') = take 2 (base64_triple w x y 255)"
    "base64_scan [] (map base64_char [w, x] @ ''=='') = take 1 (base64_triple w x 255 255)"
proof -
  have nul: "base64_index (CHR 0x00) = 255" by code_simp
  show "y < 64 \<Longrightarrow> z < 64 \<Longrightarrow> base64_scan [] (map base64_char [w, x, y, z] @ s)
      = base64_triple w x y z @ base64_scan [] s"
    "y < 64 \<Longrightarrow> base64_scan [] (map base64_char [w, x, y] @ ''='') = take 2 (base64_triple w x y 255)"
    "base64_scan [] (map base64_char [w, x] @ ''=='') = take 1 (base64_triple w x 255 255)"
    using assms nul by (simp_all add: Let_def numeral_2_eq_2 base64_tail_def)
qed

lemma base64_scan_encode: "base64_scan [] (base64_encode bytes) = bytes"
proof (induction bytes rule: base64_encode.induct)
  case (1 a b c s)
  then show ?case
    by (simp only: base64_encode.simps base64_quad_def base64_scan_quad sextets triple_quad append.simps)
next
  case (2 a b)
  have "base64_encode [a, b] = map base64_char
      [drop_bit 2 a, push_bit 4 (a AND 3) OR drop_bit 4 b, push_bit 2 (b AND 15) OR drop_bit 6 0] @ ''=''"
    by (simp add: base64_quad_def)
  then show ?case by (simp only: base64_scan_quad sextets triple_quad)
next
  case (3 a)
  have "base64_encode [a] = map base64_char
      [drop_bit 2 a, push_bit 4 (a AND 3) OR drop_bit 4 0] @ ''==''"
    by (simp add: base64_quad_def)
  then show ?case by (simp only: base64_scan_quad sextets triple_quad)
qed (simp add: base64_tail_def)

text \<open>
  C18: \<open>base64_decode\<close> is the inverse of the standard base64 encoding, padding included: any
  byte sequence whose encoding is below 2 GiB, so that its length is an \<open>int\<close>, comes back
  unchanged.  The bound is needed: the length goes through \<open>static_cast<int>\<close>, and a text whose
  length is a multiple of 4 GiB decodes to nothing, whatever it holds.
\<close>

theorem base64_decodes:
  "(length (base64_encode bytes) < 2 ^ 31 \<longrightarrow> base64_decode (base64_encode bytes) = Some bytes)
   \<and> (2 ^ 32 dvd length s \<longrightarrow> base64_decode s = Some [])"
  using base64_decode_scan [of "base64_encode bytes"] base64_scan_encode [of bytes] base64_decode_wrapped [of s]
  by simp

theorem base64_decodes_witness:
  "base64_decode (base64_encode [0, 16, 131, 255, 7]) = Some [0, 16, 131, 255, 7]
   \<and> base64_decode (replicate (2 ^ 32) (CHR ''A'')) = Some []"
  using base64_decodes [of "[0, 16, 131, 255, 7]" "replicate (2 ^ 32) (CHR ''A'')"]
  by (simp add: base64_quad_def)

section \<open>Requests\<close>

definition unreserved :: "char \<Rightarrow> bool" where
  "unreserved c \<longleftrightarrow> is_alnum c \<or> c \<in> set ''-._~''"

definition hex_char :: "int \<Rightarrow> char" where
  "hex_char d = (if d < 10 then char_of (48 + d) else char_of (55 + d))"

definition percent_char :: "char \<Rightarrow> string" where
  "percent_char c = (if unreserved c then [c]
     else [CHR 0x25, hex_char (code_of c div 16), hex_char (code_of c mod 16)])"

definition percent_encode :: "string \<Rightarrow> string" where
  "percent_encode s = concat (map percent_char s)"

definition query_text :: "(string \<times> string) list \<Rightarrow> string" where
  "query_text params = join (CHR ''&'')
     (map (\<lambda>(k, v). percent_encode k @ CHR ''='' # percent_encode v) params)"

definition request_uri :: "string \<Rightarrow> (string \<times> string) list \<Rightarrow> string" where
  "request_uri path params = path @ (if params = [] then [] else CHR ''?'' # query_text params)"

definition request_head :: "string \<Rightarrow> string \<Rightarrow> (string \<times> string) list \<Rightarrow> string list \<Rightarrow> string" where
  "request_head meth path params headers =
     (meth @ '' '' @ request_uri path params @ '' HTTP/1.1'') @ head_lines headers @ blank"

text \<open>A word: not empty, no white space.\<close>

definition word_text :: "string \<Rightarrow> bool" where
  "word_text w \<longleftrightarrow> w \<noteq> [] \<and> list_all (\<lambda>c. \<not> is_space c) w"

lemma code_of_range: "0 \<le> code_of c" "code_of c < 256"
proof -
  have "code_of c = int (of_char c)" by (simp only: code_of_def of_nat_of_char)
  moreover have "(of_char c :: nat) < 256" by (rule nat_of_char_less_256)
  ultimately show "0 \<le> code_of c" "code_of c < 256" by simp_all
qed

lemma code_of_char_of [simp]: "0 \<le> d \<Longrightarrow> d < 256 \<Longrightarrow> code_of (char_of d) = d"
  by (simp add: code_of_def)

lemma hex_value_hex_char [simp]: "0 \<le> d \<Longrightarrow> d < 16 \<Longrightarrow> hex_value (hex_char d) = Some d"
  by (simp add: hex_value_def hex_char_def)

lemma char_of_code [simp]: "char_of (code_of c) = c"
  by (simp add: code_of_def)

lemma url_decode_char: "url_decode (percent_char c @ r) = c # url_decode r"
proof (cases "unreserved c")
  case True
  then have "c \<noteq> CHR 0x25" "c \<noteq> CHR ''+''"
    by (auto simp: unreserved_def is_alnum_def code_of_def)
  with True show ?thesis by (simp add: percent_char_def)
next
  case False
  have "code_of c div 16 * 16 + code_of c mod 16 = code_of c" by simp
  with False code_of_range [of c] show ?thesis
    by (simp add: percent_char_def hex_value_hex_char)
qed

lemma url_decode_percent: "url_decode (percent_encode s) = s"
  by (induction s) (simp_all add: percent_encode_def url_decode_char)

lemma hex_char_alnum: "0 \<le> d \<Longrightarrow> d < 16 \<Longrightarrow> is_alnum (hex_char d)"
  by (simp add: is_alnum_def hex_char_def)

lemma hex_range: "0 \<le> code_of c div 16" "code_of c div 16 < 16" "0 \<le> code_of c mod 16"
    "code_of c mod 16 < 16"
  using code_of_range [of c] by simp_all

lemma percent_encode_chars:
  "c \<in> set (percent_encode s) \<Longrightarrow> unreserved c \<or> c = CHR 0x25"
  by (auto simp: percent_encode_def percent_char_def unreserved_def hex_char_alnum hex_range
      split: if_splits)

lemma percent_encode_plain:
  assumes "c \<in> set (percent_encode s)"
  shows "\<not> is_space c" "c \<noteq> CHR ''=''" "c \<noteq> CHR ''&''" "c \<noteq> CHR ''?''"
  using percent_encode_chars [OF assms]
  by (auto simp: unreserved_def is_alnum_def is_space_def code_of_def)

lemma parse_query_text:
  "parse_query (query_text params) = fold (\<lambda>(k, v). smap_update (trim k) (trim v)) params []"
proof -
  let ?pair = "\<lambda>(k, v). percent_encode k @ CHR ''='' # percent_encode v"
  have "list_all (\<lambda>a. CHR ''&'' \<notin> set a \<and> a \<noteq> []) (map ?pair params)"
    using percent_encode_plain(3) by (fastforce simp: list_all_iff)
  then have "parse_query (query_text params) = fold query_pair (map ?pair params) []"
    by (simp add: parse_query_def query_text_def pieces_join)
  moreover have "query_pair (?pair p) = (\<lambda>(k, v). smap_update (trim k) (trim v)) p" for p
  proof (cases p)
    case (Pair k v)
    have "CHR ''='' \<notin> set (percent_encode k)" using percent_encode_plain(2) by blast
    with Pair show ?thesis by (auto simp: query_pair_def split_at_Some url_decode_percent)
  qed
  ultimately show ?thesis by (simp add: fold_map comp_def)
qed

lemma join_chars: "x \<in> set (join c as) \<Longrightarrow> x = c \<or> (\<exists>a\<in>set as. x \<in> set a)"
  by (induction c as rule: join.induct) auto

lemma uri_word:
  assumes "word_text path"
  shows "word_text (request_uri path params)"
proof -
  have "\<not> is_space x" if "x \<in> set (query_text params)" for x
    using that join_chars [of x] percent_encode_plain(1)
    unfolding query_text_def by (fastforce simp: is_space_def code_of_def)
  with assms show ?thesis
    by (auto simp: word_text_def request_uri_def list_all_iff is_space_def code_of_def)
qed

lemma next_token_word:
  assumes "word_text w" "is_space c"
  shows "next_token (w @ c # r) = (w, c # r)" "next_token (CHR '' '' # w @ c # r) = (w, c # r)"
proof -
  have w: "dropWhile is_space (w @ c # r) = w @ c # r"
    using assms by (cases w) (simp_all add: word_text_def)
  show "next_token (w @ c # r) = (w, c # r)"
    using assms w by (simp add: next_token_def takeWhile_append_stop dropWhile_append_stop word_text_def)
  moreover have "is_space (CHR '' '')" by (simp add: is_space_def code_of_def)
  ultimately show "next_token (CHR '' '' # w @ c # r) = (w, c # r)"
    by (simp add: next_token_def)
qed

lemma word_plain: "word_text w \<Longrightarrow> CHR 0x0D \<notin> set w \<and> CHR 0x0A \<notin> set w"
  by (auto simp: word_text_def list_all_iff is_space_def code_of_def)

lemma get_line_head:
  assumes "plain_line l" "list_all plain_line ls"
  shows "map_option (strip_cr \<circ> fst) (get_line (l @ head_lines ls)) = Some l"
proof -
  from pieces_lines [OF assms] have p: "map strip_cr (pieces (CHR 0x0A) (l @ head_lines ls)) = l # ls" .
  have "l @ head_lines ls \<noteq> []" using assms by (simp add: plain_line_def)
  moreover obtain a r where ar: "split_at (CHR 0x0A) (l @ head_lines ls) = (a, r)" by fastforce
  ultimately have "pieces (CHR 0x0A) (l @ head_lines ls)
      = a # (case r of None \<Rightarrow> [] | Some r \<Rightarrow> pieces (CHR 0x0A) r)"
    by (subst pieces.simps) (simp split: option.splits)
  with p have "strip_cr a = l" by simp
  with ar \<open>l @ head_lines ls \<noteq> []\<close> show ?thesis
    by (cases r) (simp_all add: get_line_def)
qed

lemma cut_blank: "take (length h) (h @ blank @ s) = h" "drop (length h + 4) (h @ blank @ s) = s"
  by (simp_all add: blank_def crlf_def)

lemma parse_request_text:
  assumes "word_text meth" "word_text path" "CHR ''?'' \<notin> set path" "list_all plain_line headers"
  shows "parse_http_request J (request_head meth path params headers @ seen)
    = Some \<lparr>rq_method = meth, rq_path = path,
        rq_query = fold (\<lambda>(k, v). smap_update (trim k) (trim v)) params [],
        rq_body = parse_body J seen\<rparr>"
    and "find_text blank (request_head meth path params headers @ seen)
      = Some (length (request_head meth path params headers) - 4)"
    and "4 \<le> length (request_head meth path params headers)"
proof -
  let ?uri = "request_uri path params"
  let ?line = "meth @ '' '' @ ?uri @ '' HTTP/1.1''"
  let ?text = "request_head meth path params headers @ seen"
  have uri: "word_text ?uri" by (rule uri_word [OF assms(2)])
  have line: "plain_line ?line"
    using word_plain [OF assms(1)] word_plain [OF uri] by (simp add: plain_line_def)
  have whole: "?text = ?line @ head_lines headers @ blank @ seen"
    by (simp add: request_head_def)
  have found: "find_text blank ?text = Some (length (?line @ head_lines headers))"
    unfolding whole by (rule find_blank [OF line assms(4)])
  have len: "length (request_head meth path params headers) = length (?line @ head_lines headers) + 4"
    by (simp add: request_head_def blank_def crlf_def)
  show "find_text blank ?text = Some (length (request_head meth path params headers) - 4)"
    "4 \<le> length (request_head meth path params headers)"
    using found len by simp_all
  have cut: "take (length (?line @ head_lines headers)) ?text = ?line @ head_lines headers"
    "drop (length (?line @ head_lines headers) + 4) ?text = seen"
    using cut_blank [of "?line @ head_lines headers" seen] unfolding whole by (simp_all only: append.assoc)
  obtain t where t: "get_line (?line @ head_lines headers) = Some t" "strip_cr (fst t) = ?line"
    using get_line_head [OF line assms(4)] by auto
  have sp: "is_space (CHR '' '')" by (simp add: is_space_def code_of_def)
  have tok: "next_token ?line = (meth, '' '' @ ?uri @ '' HTTP/1.1'')"
    "next_token ('' '' @ ?uri @ '' HTTP/1.1'') = (?uri, '' HTTP/1.1'')"
    using next_token_word(1) [OF assms(1) sp, of "?uri @ '' HTTP/1.1''"]
      next_token_word(2) [OF uri sp, of "''HTTP/1.1''"] by simp_all
  have ne: "meth \<noteq> []" "?uri \<noteq> []" using assms(1) uri by (simp_all add: word_text_def)
  have q: "(case split_at (CHR ''?'') ?uri of (p, q) \<Rightarrow> (p, case q of None \<Rightarrow> [] | Some s \<Rightarrow> parse_query s))
      = (path, fold (\<lambda>(k, v). smap_update (trim k) (trim v)) params [])"
    using assms(3) by (simp add: request_uri_def split_at_None split_at_Some parse_query_text)
  obtain q' where q': "split_at (CHR ''?'') ?uri = (path, q')"
    "(case q' of None \<Rightarrow> [] | Some s \<Rightarrow> parse_query s)
       = fold (\<lambda>(k, v). smap_update (trim k) (trim v)) params []"
    using q by (cases "split_at (CHR ''?'') ?uri") auto
  obtain l r where "t = (l, r)" by (cases t)
  with t have t': "get_line (?line @ head_lines headers) = Some (l, r)" "strip_cr l = ?line" by simp_all
  show "parse_http_request J ?text = Some \<lparr>rq_method = meth, rq_path = path,
        rq_query = fold (\<lambda>(k, v). smap_update (trim k) (trim v)) params [],
        rq_body = parse_body J seen\<rparr>"
    unfolding parse_http_request_def blank_def [symmetric]
    by (simp only: found option.case cut t' prod.case Let_def tok ne q' simp_thms if_False)
qed

section \<open>Segments\<close>

lemma find_text_prefix:
  "find_text t (a @ b) = Some n \<Longrightarrow> t \<noteq> [] \<Longrightarrow>
   find_text t a = (if n + length t \<le> length a then Some n else None)"
proof (induction a arbitrary: n)
  case (Cons c a)
  show ?case
  proof (cases "take (length t) (c # a @ b) = t")
    case True
    show ?thesis
    proof (cases "length t \<le> length (c # a)")
      case True
      then have "take (length t) (c # a) = t"
        using \<open>take (length t) (c # a @ b) = t\<close> take_append [of "length t" "c # a" b] by simp
      with True Cons.prems \<open>take (length t) (c # a @ b) = t\<close> show ?thesis by simp
    next
      case False
      with Cons.prems \<open>take (length t) (c # a @ b) = t\<close> have "n = 0" by simp
      have "find_text t (c # a) = None"
        unfolding find_text_None using False
        by (metis length_append le_add1 le_add2 le_trans)
      with False \<open>n = 0\<close> show ?thesis by simp
    qed
  next
    case False
    with Cons.prems obtain m where m: "find_text t (a @ b) = Some m" "n = Suc m" by auto
    have "take (length t) (c # a) \<noteq> t"
    proof
      assume e: "take (length t) (c # a) = t"
      then have "length t \<le> length (c # a)" by (metis length_take min.absorb_iff2 min.commute)
      then have "take (length t) ((c # a) @ b) = take (length t) (c # a)" by (simp del: append_Cons)
      with e have "take (length t) (c # a @ b) = t" by simp
      with False show False by simp
    qed
    with Cons.IH [OF m(1) Cons.prems(2)] show ?thesis by (simp add: m(2))
  qed
qed simp

lemma read_body_stops:
  assumes "find_text blank full = Some n"
  shows "buf @ concat ds = full \<Longrightarrow> list_all (\<lambda>d. d \<noteq> []) ds \<Longrightarrow> length buf < n + 4 \<Longrightarrow>
    \<exists>k. read_body buf (map Received ds @ rs) = Some (0, take k full) \<and> n + 4 \<le> k \<and> k \<le> length full"
proof (induction ds arbitrary: buf)
  case Nil
  from find_text_prefix [of blank full "[]" n] assms have "n + 4 \<le> length full"
    by (simp add: blank_def crlf_def split: if_splits)
  with Nil show ?case by simp
next
  case (Cons d ds)
  have full: "(buf @ d) @ concat ds = full" using Cons.prems by simp
  have pre: "find_text blank (buf @ d) = (if n + 4 \<le> length (buf @ d) then Some n else None)"
    using find_text_prefix [of blank "buf @ d" "concat ds" n] assms full
    by (simp add: blank_def crlf_def)
  show ?case
  proof (cases "n + 4 \<le> length (buf @ d)")
    case True
    then have "read_body buf (map Received (d # ds) @ rs) = Some (0, buf @ d)"
      using Cons.prems pre by (simp add: blank_def)
    moreover have "buf @ d = take (length (buf @ d)) full" using full by (metis append_eq_conv_conj)
    moreover have "length (buf @ d) \<le> length full" using full by (metis length_append le_add1)
    ultimately show ?thesis using True by metis
  next
    case False
    then have "read_body buf (map Received (d # ds) @ rs) = read_body (buf @ d) (map Received ds @ rs)"
      using Cons.prems pre by (simp add: blank_def)
    moreover have "length (buf @ d) < n + 4" using False by simp
    ultimately show ?thesis using Cons.IH [OF full] Cons.prems(2) by simp
  qed
qed

text \<open>
  C19: a request that a client writes (method, path, percent-encoded query parameters, headers,
  body) is understood however the connection cuts it into segments: the method, the path and
  every parameter arrive (trimmed, the last value of a repeated key winning).  The body is only
  what came together with the end of the headers: if a segment ends there, the request is
  handled as if it had no body.
\<close>

theorem request_received:
  assumes "word_text meth" "word_text path" "CHR ''?'' \<notin> set path" "list_all plain_line headers"
    and "list_all (\<lambda>d. d \<noteq> []) ds"
    and "concat ds = request_head meth path params headers @ body"
  shows "\<exists>seen rest. body = seen @ rest
    \<and> read_body [] (map Received ds @ rs) = Some (0, request_head meth path params headers @ seen)
    \<and> parse_http_request J (request_head meth path params headers @ seen)
      = Some \<lparr>rq_method = meth, rq_path = path,
          rq_query = fold (\<lambda>(k, v). smap_update (trim k) (trim v)) params [],
          rq_body = parse_body J seen\<rparr>
    \<and> ((\<exists>i. concat (take i ds) = request_head meth path params headers) \<longrightarrow> seen = [])"
proof -
  let ?head = "request_head meth path params headers"
  note parsed = parse_request_text [OF assms(1-4)]
  have "4 \<le> length ?head" by (rule parsed(3))
  then have len: "length ?head - 4 + 4 = length ?head" "?head \<noteq> []" by auto
  obtain k where k: "read_body [] (map Received ds @ rs) = Some (0, take k (?head @ body))"
    "length ?head \<le> k" "k \<le> length (?head @ body)"
    using read_body_stops [OF parsed(2) [of params body], of "[]" ds rs] assms(5,6) len by auto
  let ?seen = "take (k - length ?head) body"
  have read: "read_body [] (map Received ds @ rs) = Some (0, ?head @ ?seen)"
    using k by simp
  have "?seen = []" if border: "concat (take i ds) = ?head" for i
  proof -
    have head: "find_text blank ?head = Some (length ?head - 4)" using parsed(2) [of params "[]"] by simp
    have "list_all (\<lambda>d. d \<noteq> []) (take i ds)"
      using assms(5) by (auto simp: list_all_iff dest: in_set_takeD)
    then obtain m where "read_body [] (map Received (take i ds) @ map Received (drop i ds) @ rs)
        = Some (0, take m ?head)"
      using read_body_stops [OF head, of "[]" "take i ds"] border len by auto
    moreover have "map Received (take i ds) @ map Received (drop i ds) @ rs = map Received ds @ rs"
      by (metis append.assoc append_take_drop_id map_append)
    ultimately have "?head @ ?seen = take m ?head" using read by simp
    then have "length (?head @ ?seen) \<le> length ?head" by (metis length_take min.cobounded1)
    then show ?thesis by (auto simp: min_def split: if_splits)
  qed
  then show ?thesis
    using read parsed(1) [of J params ?seen] append_take_drop_id [of "k - length ?head" body] by metis
qed

theorem request_received_witness:
  "read_body [] [Received (request_head ''POST'' ''/v1/routes/risk'' [(''at'', ''a b'')] [''Host: x'']),
      Received ''{}''] = Some (0, request_head ''POST'' ''/v1/routes/risk'' [(''at'', ''a b'')] [''Host: x''])
   \<and> map_option rq_query (parse_http_request demo_json
        (request_head ''POST'' ''/v1/routes/risk'' [(''at'', ''a b'')] [''Host: x'']))
     = Some [(''at'', ''a b'')]"
proof -
  let ?head = "request_head ''POST'' ''/v1/routes/risk'' [(''at'', ''a b'')] [''Host: x'']"
  have pre: "word_text ''POST''" "word_text ''/v1/routes/risk''" "list_all plain_line [''Host: x'']"
    "fold (\<lambda>(k, v). smap_update (trim k) (trim v)) [(''at'', ''a b'')] [] = [(''at'', ''a b'')]"
    by code_simp+
  have ne: "list_all (\<lambda>d. d \<noteq> []) [?head, ''{}'']" by (simp add: request_head_def)
  have all: "concat [?head, ''{}''] = ?head @ ''{}''" by simp
  have border: "concat (take 1 [?head, ''{}'']) = ?head" by simp
  have "CHR ''?'' \<notin> set ''/v1/routes/risk''" by simp
  from request_received [OF pre(1,2) this pre(3) ne all, of "[]" demo_json]
  obtain seen where s: "read_body [] (map Received [?head, ''{}''] @ []) = Some (0, ?head @ seen)"
    "parse_http_request demo_json (?head @ seen) = Some \<lparr>rq_method = ''POST'',
       rq_path = ''/v1/routes/risk'', rq_query = [(''at'', ''a b'')], rq_body = parse_body demo_json seen\<rparr>"
    "(\<exists>i. concat (take i [?head, ''{}'']) = ?head) \<longrightarrow> seen = []"
    unfolding pre(4) by blast
  from s(3) border have "seen = []" by blast
  with s(1,2) show ?thesis
    by (simp only: append_Nil2 list.map append.simps option.map http_request.select_convs simp_thms)
qed

end
