(* ===== verification/Map_Server.thy ===== *)
theory Map_Server
  imports Heat_Tile Http_Requests
begin

text \<open>
  The connection handler and the main program of \<open>services/map_query_api/main.cpp\<close>.  A reply
  is a JSON value with its status code or a picture; \<open>Crash\<close> is an exception that leaves the
  thread function (the C++ runtime then ends the process), \<open>Undefined\<close> a computation the
  language gives no meaning to.
\<close>

datatype 'j reply = Json_reply int 'j | Picture bytes | Crash | Undefined

definition error_json :: "'j json_lib \<Rightarrow> string \<Rightarrow> 'j" where
  "error_json J what = j_obj J [(''error'', j_str J what)]"

definition query_or :: "query \<Rightarrow> string \<Rightarrow> string \<Rightarrow> string" where
  "query_or q key d = (case smap_lookup q key of Some v \<Rightarrow> v | None \<Rightarrow> d)"

definition starts_with :: "string \<Rightarrow> string \<Rightarrow> bool" where
  "starts_with t s \<longleftrightarrow> take (length t) s = t"

definition crash_or :: "int \<Rightarrow> 'j option \<Rightarrow> 'j reply" where
  "crash_or code content = (case content of Some p \<Rightarrow> Json_reply code p | None \<Rightarrow> Crash)"

section \<open>Tiles\<close>

text \<open>The three numbers, read one after the other; None when \<open>stoi\<close> throws.\<close>

definition tile_numbers :: "string \<Rightarrow> string \<Rightarrow> string \<Rightarrow> (int \<times> int \<times> int) option" where
  "tile_numbers z x y = (case (stoi z, stoi x, stoi y) of
      (Inr zi, Inr xi, Inr yi) \<Rightarrow> Some (zi, xi, yi) | _ \<Rightarrow> None)"

text \<open>\<open>renderTilePng\<close> inside the try block: an exception of a row is caught.  The bounds come before
  the rows, and their overflow is no exception.\<close>

definition render_throws ::
  "libm \<Rightarrow> 'j json_lib \<Rightarrow> map_store \<Rightarrow> database \<Rightarrow> string \<Rightarrow> int \<Rightarrow> int \<Rightarrow> int \<Rightarrow> bool" where
  "render_throws M J st db layer z x y \<longleftrightarrow> enabled st \<and>
     (case ask_array J st db (render_tile_sql layer) of None \<Rightarrow> False
      | Some response \<Rightarrow> tile_bounds_of M z x y \<noteq> None
          \<and> heat_points M J (ms_cities st) layer z x y (j_elems J response) = None)"

definition tile_png_reply ::
  "libm \<Rightarrow> 'j json_lib \<Rightarrow> map_store \<Rightarrow> database \<Rightarrow> string \<Rightarrow> string \<Rightarrow> string \<Rightarrow> string \<Rightarrow> 'j reply" where
  "tile_png_reply M J st db layer zt xt yt =
     (case tile_numbers zt xt yt of
        None \<Rightarrow> Json_reply 400 (error_json J ''invalid z/x/y'')
      | Some (z, x, y) \<Rightarrow>
          if render_throws M J st db layer z x y then Json_reply 400 (error_json J ''invalid z/x/y'')
          else (case render_tile_png M J st db layer z x y of
              None \<Rightarrow> Undefined
            | Some (Some picture) \<Rightarrow> Picture picture
            | Some None \<Rightarrow> (case encode_tile empty_rgba of Some p \<Rightarrow> Picture p | None \<Rightarrow> Undefined)))"

definition tiles_png_query ::
  "libm \<Rightarrow> 'j json_lib \<Rightarrow> map_store \<Rightarrow> database \<Rightarrow> query \<Rightarrow> 'j reply" where
  "tiles_png_query M J st db q =
     (case (smap_lookup q ''z'', smap_lookup q ''x'', smap_lookup q ''y'') of
        (Some z, Some x, Some y) \<Rightarrow> tile_png_reply M J st db (query_or q ''layer'' ''hazard'') z x y
      | _ \<Rightarrow> Json_reply 400 (error_json J ''missing z/x/y''))"

definition tiles_png_path ::
  "libm \<Rightarrow> 'j json_lib \<Rightarrow> map_store \<Rightarrow> database \<Rightarrow> string \<Rightarrow> query \<Rightarrow> 'j reply" where
  "tiles_png_path M J st db path q =
     (case split_path (drop (length ''/v1/map/tiles/png/'') path) of
        z # x # y # _ \<Rightarrow> tile_png_reply M J st db (query_or q ''layer'' ''hazard'') z x y
      | _ \<Rightarrow> Json_reply 400 (error_json J ''missing z/x/y''))"

definition tiles_refresh :: "'j json_lib \<Rightarrow> map_store \<Rightarrow> database \<Rightarrow> query \<Rightarrow> 'j reply" where
  "tiles_refresh J st db q =
     (case (smap_lookup q ''z'', smap_lookup q ''x'', smap_lookup q ''y'') of
        (Some zt, Some xt, Some yt) \<Rightarrow> (case tile_numbers zt xt yt of
            None \<Rightarrow> Json_reply 400 (error_json J ''invalid z/x/y'')
          | Some (z, x, y) \<Rightarrow>
              if \<not> enabled st then Json_reply 404 (error_json J ''timescale not configured'')
              else (case fst (query_scalar (ms_connection st) db
                  (refresh_sql z x y (query_or q ''layer'' ''hazard'') (query_or q ''at'' []))) of
                  Some res \<Rightarrow> Json_reply 200 (j_obj J [(''ok'', j_bool J True),
                    (''tile_base64_len'', j_int J (size_as_int (length res)))])
                | None \<Rightarrow> Json_reply 500 (error_json J ''refresh failed'')))
      | _ \<Rightarrow> Json_reply 400 (error_json J ''missing z/x/y''))"

text \<open>The bounding box parameter \<open>minLon,minLat,maxLon,maxLat\<close>: None when a number is refused; no
  bounds when there are not exactly four parts.\<close>

definition parse_bbox :: "query \<Rightarrow> bounds option" where
  "parse_bbox q = (case smap_lookup q ''bbox'' of
      None \<Rightarrow> Some (None, None, None, None)
    | Some v \<Rightarrow> (case split_csv v of
        [a, b, c, d] \<Rightarrow> (case (stod a, stod b, stod c, stod d) of
            (Inr min_lon, Inr min_lat, Inr max_lon, Inr max_lat) \<Rightarrow>
              Some (Some min_lat, Some min_lon, Some max_lat, Some max_lon)
          | _ \<Rightarrow> None)
      | _ \<Rightarrow> Some (None, None, None, None)))"

definition map_tiles :: "'j json_lib \<Rightarrow> map_store \<Rightarrow> database \<Rightarrow> query \<Rightarrow> 'j reply" where
  "map_tiles J st db q = (case parse_bbox q of
      None \<Rightarrow> Json_reply 400 (error_json J ''invalid bbox format'')
    | Some b \<Rightarrow> crash_or 200
        (tile_snapshot J st db (query_or q ''layer'' ''hazard'') b (query_or q ''at'' [])))"

definition map_summary :: "'j json_lib \<Rightarrow> map_store \<Rightarrow> database \<Rightarrow> query \<Rightarrow> 'j reply" where
  "map_summary J st db q = (case parse_bbox q of
      None \<Rightarrow> Json_reply 400 (error_json J ''invalid bbox format'')
    | Some b \<Rightarrow> (let layer = query_or q ''layer'' ''hazard'' in
        Json_reply 200 (case map_summary_from_db J st db layer b (query_or q ''at'' []) of
            Some summary \<Rightarrow> summary | None \<Rightarrow> fallback_map_summary J layer)))"

section \<open>Routes and history\<close>

definition body_segments :: "'j json_lib \<Rightarrow> 'j \<Rightarrow> string list" where
  "body_segments J body = (case j_at J body ''segment_ids'' of
      None \<Rightarrow> []
    | Some a \<Rightarrow> if j_is_array J a
        then concat (map (\<lambda>s. if j_is_string J s then (case j_get_string J s of Some t \<Rightarrow> [t] | None \<Rightarrow> []) else [])
          (j_elems J a))
        else [])"

definition routes_risk :: "'j json_lib \<Rightarrow> map_store \<Rightarrow> database \<Rightarrow> 'j \<Rightarrow> 'j reply" where
  "routes_risk J st db body =
     (if \<not> j_is_object J body then Json_reply 400 (error_json J ''expected json body'')
      else (case (value_or J j_get_string body ''route_id'' ''route.unknown'', value_or J j_get_string body ''at'' []) of
          (Some route_id, Some as_of) \<Rightarrow>
            (let ids = body_segments J body;
                 ids' = (if ids = [] then [route_id @ ''.segment_1'', route_id @ ''.segment_2''] else ids)
             in crash_or 200 (route_risk_snapshot J st db route_id ids' as_of))
        | _ \<Rightarrow> Crash))"

text \<open>The dispatch of \<open>handleConnection\<close> on the method and the path.\<close>

definition dispatch ::
  "libm \<Rightarrow> 'j json_lib \<Rightarrow> map_store \<Rightarrow> database \<Rightarrow> int \<Rightarrow> 'j http_request \<Rightarrow> 'j reply" where
  "dispatch M J st db now rq =
     (let meth = rq_method rq; path = rq_path rq; q = rq_query rq in
      if meth = ''OPTIONS'' then Json_reply 200 (j_obj J [])
      else if (meth = ''GET'' \<or> meth = ''HEAD'') \<and> path = ''/v1/health'' then
        Json_reply 200 (j_obj J [(''status'', j_str J ''ok''), (''service'', j_str J ''map_query_api'')])
      else if meth = ''GET'' \<and> path = ''/v1/map/tiles/png'' then tiles_png_query M J st db q
      else if meth = ''GET'' \<and> starts_with ''/v1/map/tiles/png/'' path then tiles_png_path M J st db path q
      else if meth = ''POST'' \<and> path = ''/v1/map/tiles/refresh'' then tiles_refresh J st db q
      else if meth = ''GET'' \<and> path = ''/v1/map/tiles'' then map_tiles J st db q
      else if meth = ''GET'' \<and> path = ''/v1/map/summary'' then map_summary J st db q
      else if meth = ''GET'' \<and> path = ''/v1/personal/comparison'' then
        Json_reply 200 (personal_comparison_snapshot J st db now (query_or q ''profile_id'' ''crop_moisture''))
      else if meth = ''POST'' \<and> path = ''/v1/routes/risk'' then routes_risk J st db (rq_body rq)
      else if meth = ''GET'' \<and> path = ''/v1/history/cities'' then Json_reply 200 (history_cities J st db)
      else if meth = ''GET'' \<and> path = ''/v1/history/timeseries'' then
        Json_reply 200 (history_timeseries J st db now (query_or q ''city'' ''Bangalore'') (query_or q ''from'' [])
          (query_or q ''to'' []) (query_or q ''interval'' []))
      else if meth = ''GET'' \<and> path = ''/v1/history/summary'' then
        Json_reply 200 (history_summary J st db (query_or q ''city'' ''Bangalore'') (query_or q ''from'' [])
          (query_or q ''to'' []))
      else Json_reply 404 (error_json J ''not found''))"

text \<open>What becomes of a connection: it waits for more data, is closed without an answer, gets one
  response and is closed, or takes the process down.\<close>

datatype reaction = Waiting | Closed | Responds string | Terminates | Undefined_behaviour

definition send_reply :: "'j json_lib \<Rightarrow> 'j reply \<Rightarrow> reaction" where
  "send_reply J r = (case r of
      Json_reply code content \<Rightarrow> (case make_http_response J code content [] of
          Some t \<Rightarrow> Responds t | None \<Rightarrow> Terminates)
    | Picture p \<Rightarrow> Responds (make_binary_http_response 200 p [])
    | Crash \<Rightarrow> Terminates
    | Undefined \<Rightarrow> Undefined_behaviour)"

definition handle_connection ::
  "libm \<Rightarrow> 'j json_lib \<Rightarrow> map_store \<Rightarrow> database \<Rightarrow> int \<Rightarrow> recv_result list \<Rightarrow> reaction" where
  "handle_connection M J st db now received =
     (case read_body [] received of
        None \<Rightarrow> Waiting
      | Some (result, request_text) \<Rightarrow>
          if result < 0 then Closed
          else (case parse_http_request J request_text of
              None \<Rightarrow> send_reply J (Json_reply 400 (error_json J ''invalid http request''))
            | Some rq \<Rightarrow> send_reply J (dispatch M J st db now rq)))"

text \<open>The calls made, and whether the process goes on.  \<open>sent\<close> is the result of \<open>send\<close>, None when the
  client has closed the connection: \<open>SIGPIPE\<close> is not handled and ends the process.\<close>

definition connection_calls :: "int \<Rightarrow> int option \<Rightarrow> reaction \<Rightarrow> sys_call list \<times> bool" where
  "connection_calls fd sent r = (case r of
      Responds t \<Rightarrow> (case sent of
          None \<Rightarrow> ([Sys_send fd t], False) | Some n \<Rightarrow> ([Sys_send fd t, Sys_close fd], True))
    | Closed \<Rightarrow> ([Sys_close fd], True)
    | Waiting \<Rightarrow> ([], True)
    | _ \<Rightarrow> ([], False))"

section \<open>The main program\<close>

text \<open>\<open>main\<close>: the port, and the listening socket or the exit code with the calls made.\<close>

definition server_port :: "string list \<Rightarrow> parse_error + int" where
  "server_port args = (case args of [] \<Rightarrow> Inr 8080 | port # _ \<Rightarrow> stoi port)"

definition htons :: "int \<Rightarrow> u16" where
  "htons port = word_of_int port"

definition server_setup :: "int \<Rightarrow> int \<Rightarrow> int \<Rightarrow> (int + int) \<times> sys_call list" where
  "server_setup socket_result bind_result listen_result =
     (if socket_result < 0 then (Inl 1, [])
      else if bind_result < 0 then (Inl 1, [Sys_close socket_result])
      else if listen_result < 0 then (Inl 1, [Sys_close socket_result])
      else (Inr socket_result, []))"

text \<open>The accept loop: each turn sees the flag, the result of \<open>poll\<close> and of \<open>accept\<close>, and starts a
  thread for an accepted connection.  The result lists the connections handed to threads and
  the calls made after the loop; None: the loop is still running.\<close>

fun server_loop :: "int \<Rightarrow> (bool \<times> int \<times> int) list \<Rightarrow> int list \<times> sys_call list option" where
  "server_loop fd [] = ([], None)"
| "server_loop fd ((running, poll_result, accepted) # turns) =
     (if \<not> running then ([], Some [Sys_close fd])
      else if poll_result \<le> 0 \<or> accepted < 0 then server_loop fd turns
      else (let (fds, calls) = server_loop fd turns in (accepted # fds, calls)))"

section \<open>Properties\<close>

text \<open>What every HTTP answer of the service looks like to a client.\<close>

definition well_formed_answer :: "reaction \<Rightarrow> bool" where
  "well_formed_answer r \<longleftrightarrow> (case r of Responds t \<Rightarrow> client_reads t \<noteq> None | _ \<Rightarrow> True)"

lemma send_reply_well_formed: "well_formed_answer (send_reply J r)"
proof (cases r)
  case (Json_reply code content)
  have "map_option client_reads (make_http_response J code content [])
      = map_option (\<lambda>body. Some (''HTTP/1.1 '' @ to_string code @ '' '' @ status_text code, body)) (j_dump2 J content)"
    by (rule json_response_read)
  then show ?thesis
    by (cases "make_http_response J code content []"; cases "j_dump2 J content")
      (simp_all add: Json_reply send_reply_def well_formed_answer_def)
next
  case (Picture p)
  then show ?thesis by (simp add: send_reply_def well_formed_answer_def picture_response_read)
qed (simp_all add: send_reply_def well_formed_answer_def)

text \<open>A member of the request body that is present and not text.\<close>

definition not_text :: "'j json_lib \<Rightarrow> 'j \<Rightarrow> string \<Rightarrow> bool" where
  "not_text J body key \<longleftrightarrow> (\<exists>v. j_at J body key = Some v \<and> j_get_string J v = None)"

lemma encode_empty_tile: "\<exists>p. encode_tile empty_rgba = Some p"
proof -
  have "Option.bind (encode_tile empty_rgba) decode_png \<noteq> None"
    using png_roundtrip [of "int tile_size" "int tile_size" empty_rgba]
    by (simp add: encode_tile_def tile_size_def heat_cells_def empty_rgba_def)
  then show ?thesis by (cases "encode_tile empty_rgba") simp_all
qed

definition sane :: "'j reply \<Rightarrow> bool" where
  "sane r \<longleftrightarrow> (case r of Json_reply _ _ \<Rightarrow> True | Picture _ \<Rightarrow> True | _ \<Rightarrow> False)"

lemma sane_simps [simp]: "sane (Json_reply c p)" "sane (Picture b)" "\<not> sane Crash" "\<not> sane Undefined"
  by (simp_all add: sane_def)

text \<open>A property of the replies of all branches is a property of the dispatch.\<close>

lemma dispatch_cases:
  assumes "\<And>c p. P (Json_reply c p)" "\<And>q. P (tiles_png_query M J st db q)"
    and "\<And>path q. P (tiles_png_path M J st db path q)" "\<And>q. P (tiles_refresh J st db q)"
    and "\<And>q. P (map_tiles J st db q)" "\<And>q. P (map_summary J st db q)"
    and "rq_method rq = ''POST'' \<Longrightarrow> rq_path rq = ''/v1/routes/risk'' \<Longrightarrow> P (routes_risk J st db (rq_body rq))"
  shows "P (dispatch M J st db now rq)"
proof (cases "rq_method rq = ''POST'' \<and> rq_path rq = ''/v1/routes/risk''")
  case True
  then have "dispatch M J st db now rq = routes_risk J st db (rq_body rq)"
    by (simp add: dispatch_def)
  with True assms(7) show ?thesis by simp
next
  case False
  then show ?thesis
    unfolding dispatch_def Let_def
    by (simp only: if_distrib [of P] assms(1-6) if_False simp_thms if_cancel)
qed

text \<open>Without a database the only request that crashes is the route query with a bad member.\<close>

lemma dispatch_sane:
  assumes "ms_connection st = []"
  shows "sane (dispatch M J st db now rq) \<longleftrightarrow>
     \<not> (rq_method rq = ''POST'' \<and> rq_path rq = ''/v1/routes/risk'' \<and> j_is_object J (rq_body rq)
        \<and> (not_text J (rq_body rq) ''route_id'' \<or> not_text J (rq_body rq) ''at''))"
proof -
  have off: "\<not> enabled st" using assms by (simp add: enabled_def read_enabled_def)
  have png: "sane (tile_png_reply M J st db layer zt xt yt)" for layer zt xt yt
    using encode_empty_tile off
    by (auto simp: tile_png_reply_def render_throws_def render_tile_png_def split: option.splits)
  have q: "sane (tiles_png_query M J st db q)" "sane (tiles_png_path M J st db path q)"
    "sane (tiles_refresh J st db q)" for q path
    using png off
    by (auto simp: tiles_png_query_def tiles_png_path_def tiles_refresh_def split: option.splits list.splits)
  have m: "sane (map_tiles J st db q)" "sane (map_summary J st db q)" for q
    using off
    by (auto simp: map_tiles_def map_summary_def crash_or_def tile_snapshot_def tile_snapshot_from_db_def
        Let_def split: option.splits)
  have route: "sane (routes_risk J st db body) \<longleftrightarrow>
      \<not> (j_is_object J body \<and> (not_text J body ''route_id'' \<or> not_text J body ''at''))" for body
    using off
    by (auto simp: routes_risk_def crash_or_def route_risk_snapshot_def route_risk_from_db_def value_or_def
        not_text_def Let_def split: option.splits)
  show ?thesis
  proof (cases "rq_method rq = ''POST'' \<and> rq_path rq = ''/v1/routes/risk''")
    case True
    then have "dispatch M J st db now rq = routes_risk J st db (rq_body rq)"
      by (simp add: dispatch_def)
    with True route show ?thesis by simp
  next
    case False
    have "sane (dispatch M J st db now rq)"
      by (rule dispatch_cases) (use False q m in auto)
    with False show ?thesis by blast
  qed
qed

lemma calls: "snd (connection_calls fd sent r) =
    (r \<noteq> Terminates \<and> r \<noteq> Undefined_behaviour \<and> \<not> (sent = None \<and> (\<exists>t. r = Responds t)))"
  by (cases r; cases sent) (simp_all add: connection_calls_def)

text \<open>
  C27: how a connection ends.  Whatever arrives, an answer that is sent is a complete HTTP
  response.  Without a database nothing is undefined, and an exception takes the process down exactly
  when a complete \<open>POST /v1/routes/risk\<close> carries a JSON object whose \<open>route_id\<close> or \<open>at\<close> is not text, or
  when the JSON payload of the reply cannot be printed (\<open>dump\<close> throws on a text that is not UTF-8,
  such as the layer of \<open>GET /v1/map/tiles?layer=%FF\<close>); every other complete request is answered.
  Apart from that the process goes down exactly when an answer is sent to a client that has closed.
\<close>

theorem connection_outcome:
  assumes "ms_connection st = []"
  shows "well_formed_answer (handle_connection M J st db now received)
    \<and> handle_connection M J st db now received \<noteq> Undefined_behaviour
    \<and> (handle_connection M J st db now received = Waiting) = (read_body [] received = None)
    \<and> (handle_connection M J st db now received = Terminates)
      = (\<exists>request_text. read_body [] received = Some (0, request_text)
          \<and> (case parse_http_request J request_text of
               None \<Rightarrow> j_dump2 J (error_json J ''invalid http request'') = None
             | Some rq \<Rightarrow>
                 rq_method rq = ''POST'' \<and> rq_path rq = ''/v1/routes/risk'' \<and> j_is_object J (rq_body rq)
                   \<and> (not_text J (rq_body rq) ''route_id'' \<or> not_text J (rq_body rq) ''at'')
                 \<or> (\<exists>code content. dispatch M J st db now rq = Json_reply code content \<and> j_dump2 J content = None)))
    \<and> snd (connection_calls fd sent (handle_connection M J st db now received))
      = (handle_connection M J st db now received \<noteq> Terminates
         \<and> \<not> (sent = None \<and> (\<exists>t. handle_connection M J st db now received = Responds t)))"
proof -
  have code: "c = 0 \<or> c = -1" if "read_body buf received = Some (c, t)" for buf c t
    using that by (induction buf received rule: read_body.induct) (auto split: if_splits)
  have reply: "(send_reply J r = Terminates) = (r = Crash \<or> (\<exists>c p. r = Json_reply c p \<and> j_dump2 J p = None))"
    "(send_reply J r = Undefined_behaviour) = (r = Undefined)" "send_reply J r \<noteq> Waiting" "send_reply J r \<noteq> Closed" for r
    by (cases r; simp add: send_reply_def make_http_response_def split: option.splits)+
  have insane: "dispatch M J st db now rq \<noteq> Undefined" for rq
  proof -
    have off: "\<not> enabled st" using assms(1) by (simp add: enabled_def read_enabled_def)
    have png: "tile_png_reply M J st db layer zt xt yt \<noteq> Undefined" for layer zt xt yt
      using encode_empty_tile off
      by (auto simp: tile_png_reply_def render_throws_def render_tile_png_def split: option.splits)
    show ?thesis
      by (rule dispatch_cases)
        (auto simp: png tiles_png_query_def tiles_png_path_def tiles_refresh_def map_tiles_def
          map_summary_def routes_risk_def crash_or_def Let_def split: option.split list.split prod.split)
  qed
  have crash: "(dispatch M J st db now rq = Crash) = (\<not> sane (dispatch M J st db now rq))" for rq
    using insane by (cases "dispatch M J st db now rq") (auto simp: sane_def)
  show ?thesis
  proof (cases "read_body [] received")
    case None
    then show ?thesis by (simp add: handle_connection_def well_formed_answer_def calls)
  next
    case (Some ct)
    obtain c t where ct: "ct = (c, t)" by (cases ct)
    show ?thesis
    proof (cases "c < 0")
      case True
      then show ?thesis using Some by (simp add: ct handle_connection_def well_formed_answer_def calls)
    next
      case False
      then have "c = 0" using code [of "[]" c t] Some ct by auto
      show ?thesis
      proof (cases "parse_http_request J t")
        case None
        then have "handle_connection M J st db now received
            = send_reply J (Json_reply 400 (error_json J ''invalid http request''))"
          using Some \<open>c = 0\<close> by (simp add: ct handle_connection_def)
        then show ?thesis using Some None reply \<open>c = 0\<close> send_reply_well_formed [of J] by (simp add: ct calls)
      next
        case (Some rq)
        then have "handle_connection M J st db now received = send_reply J (dispatch M J st db now rq)"
          using \<open>read_body [] received = Some ct\<close> \<open>c = 0\<close> by (simp add: ct handle_connection_def)
        then show ?thesis
          using \<open>read_body [] received = Some ct\<close> Some reply \<open>c = 0\<close> send_reply_well_formed [of J] insane [of rq]
            crash [of rq] dispatch_sane [OF assms(1), of M J db now rq]
          by (auto simp: ct calls)
      qed
    qed
  qed
qed

definition demo_body :: "demo json_lib" where
  "demo_body = demo_json\<lparr>j_parse := \<lambda>s. Some (DObj [(''route_id'', DInt 1)])\<rparr>"

theorem connection_outcome_witness:
  "\<forall>M. handle_connection M demo_body \<lparr>ms_connection = [], ms_cities = []\<rparr> (\<lambda>s. (Conn_ok, None)) 0
     [Received (request_head ''POST'' ''/v1/routes/risk'' [] [] @ ''{...}'')] = Terminates"
proof (rule allI)
  fix M
  let ?st = "\<lparr>ms_connection = [], ms_cities = []\<rparr>" and ?db = "\<lambda>s :: string. (Conn_ok, None :: pq_answer option)"
  let ?seen = "request_head ''POST'' ''/v1/routes/risk'' [] [] @ ''{...}''"
  have pre: "word_text ''POST''" "word_text ''/v1/routes/risk''" by code_simp+
  note parsed = parse_request_text [OF pre, where headers = "[]" and params = "[]"]
  have "find_text blank ?seen \<noteq> None" using parsed(2) [where seen = "''{...}''"] by simp
  moreover have "?seen \<noteq> []" by (simp add: request_head_def)
  ultimately have read: "read_body [] [Received ?seen] = Some (0, ?seen)" by (simp add: blank_def)
  have body: "parse_body demo_body ''{...}'' = DObj [(''route_id'', DInt 1)]"
    by (simp add: parse_body_def demo_body_def)
  have rq: "parse_http_request demo_body ?seen = Some \<lparr>rq_method = ''POST'', rq_path = ''/v1/routes/risk'',
      rq_query = [], rq_body = DObj [(''route_id'', DInt 1)]\<rparr>"
    using parsed(1) [where J = demo_body and seen = "''{...}''"] body by simp
  note out = connection_outcome [where st = ?st and J = demo_body and db = ?db and now = 0 and M = M and received = "[Received ?seen]"]
  have bad: "j_is_object demo_body (DObj [(''route_id'', DInt 1)])"
    "not_text demo_body (DObj [(''route_id'', DInt 1)]) ''route_id''"
    by (simp_all add: demo_body_def demo_json_def not_text_def)
  from out read rq bad show "handle_connection M demo_body \<lparr>ms_connection = [], ms_cities = []\<rparr> (\<lambda>s. (Conn_ok, None)) 0
     [Received (request_head ''POST'' ''/v1/routes/risk'' [] [] @ ''{...}'')] = Terminates" by simp
qed

end
