(* ===== verification/Tcp_Socket.thy ===== *)
theory Tcp_Socket
  imports Metrics
begin

text \<open>
  \<open>common/socket/TCPSocket.cpp\<close>: the socket wrapper every service uses.  A message is a line:
  \<open>sendMessage\<close> appends a newline, \<open>receiveMessage\<close> reads byte by byte up to the newline, and
  before each byte it waits until the descriptor is readable, a timer fires or a wake-up
  descriptor is written.  What the system answers to each call is an argument; every operation
  returns, with its result, the descriptors it closes and reads.
\<close>

record tcp_socket =
  socket_fd :: int
  client_fd :: int

definition tcp_socket_new :: tcp_socket where
  "tcp_socket_new = \<lparr>socket_fd = -1, client_fd = -1\<rparr>"

datatype fd_call = Fd_close int | Fd_read int

definition close_connection :: "tcp_socket \<Rightarrow> tcp_socket \<times> fd_call list" where
  "close_connection s = (\<lparr>socket_fd = -1, client_fd = -1\<rparr>,
     (if client_fd s \<noteq> -1 then [Fd_close (client_fd s)] else []) @
     (if socket_fd s \<noteq> -1 then [Fd_close (socket_fd s)] else []))"

definition set_socket_fd :: "int \<Rightarrow> tcp_socket \<Rightarrow> tcp_socket" where
  "set_socket_fd fd s = s\<lparr>socket_fd := fd\<rparr>"

text \<open>\<open>int fd = (clientFd != -1) ? clientFd : socketFd;\<close>\<close>

definition active_fd :: "tcp_socket \<Rightarrow> int" where
  "active_fd s = (if client_fd s \<noteq> -1 then client_fd s else socket_fd s)"

section \<open>Options, servers and clients\<close>

text \<open>The results of the two checked \<open>setsockopt\<close> calls; those of the buffer sizes and of
  \<open>TCP_NODELAY\<close> are not looked at.\<close>

definition configure_socket_options :: "bool \<Rightarrow> int \<Rightarrow> int \<Rightarrow> bool" where
  "configure_socket_options server_socket reuse_addr reuse_port =
     (if reuse_addr < 0 then False
      else if server_socket \<and> reuse_port < 0 then False
      else True)"

record setup_answers =
  sa_socket :: int
  sa_reuse_addr :: int
  sa_reuse_port :: int
  sa_bind :: int
  sa_listen :: int
  sa_inet_pton :: int
  sa_connect :: int

definition create_server :: "setup_answers \<Rightarrow> tcp_socket \<Rightarrow> bool \<times> tcp_socket \<times> fd_call list" where
  "create_server os s0 =
     (let s = s0\<lparr>socket_fd := sa_socket os\<rparr> in
      if sa_socket os < 0 then (False, s, [])
      else if \<not> configure_socket_options True (sa_reuse_addr os) (sa_reuse_port os) then
        (False, close_connection s)
      else if sa_bind os < 0 then (False, s, [])
      else if sa_listen os < 0 then (False, s, [])
      else (True, s, []))"

definition connect_to_server :: "setup_answers \<Rightarrow> tcp_socket \<Rightarrow> bool \<times> tcp_socket \<times> fd_call list" where
  "connect_to_server os s0 =
     (let (s1, closed) = close_connection s0;
          s = s1\<lparr>socket_fd := sa_socket os\<rparr> in
      if sa_socket os < 0 then (False, s, closed)
      else if \<not> configure_socket_options False (sa_reuse_addr os) (sa_reuse_port os) then
        (let (s', c) = close_connection s in (False, s', closed @ c))
      else if sa_inet_pton os \<le> 0 then (False, s, closed)
      else if sa_connect os < 0 then (False, s, closed)
      else (True, s, closed))"

section \<open>Waiting\<close>

text \<open>
  The answers of the system to one call of \<open>waitForReadable\<close>: descriptors made (negative on
  failure), whether the timer could be set and a descriptor be added, the descriptors
  \<open>epoll_wait\<close> reports in its order (None: it failed), and for the fallback the result of
  \<open>poll\<close> with the two \<open>POLLIN\<close> bits.
\<close>

record wait_answers =
  wa_epoll :: int
  wa_timer :: int
  wa_settime :: int
  wa_add :: "int \<Rightarrow> bool"
  wa_events :: "int list option"
  wa_poll :: int
  wa_poll_fd :: bool
  wa_poll_wake :: bool

fun first_event :: "int \<Rightarrow> int \<Rightarrow> int \<Rightarrow> fd_call list \<Rightarrow> fd_call list \<Rightarrow> int list \<Rightarrow> int \<times> fd_call list" where
  "first_event fd wake timer close_timer close_epoll [] = (-1, close_timer @ close_epoll)"
| "first_event fd wake timer close_timer close_epoll (e # es) =
     (if e = timer then
        (0, (if 0 \<le> timer then [Fd_read timer, Fd_close timer] else []) @ close_epoll)
      else if e = wake then (-2, Fd_read wake # close_timer @ close_epoll)
      else if e = fd then (1, close_timer @ close_epoll)
      else first_event fd wake timer close_timer close_epoll es)"

definition wait_for_readable :: "wait_answers \<Rightarrow> int \<Rightarrow> int \<Rightarrow> int \<Rightarrow> int \<times> fd_call list" where
  "wait_for_readable os fd timeout_ms wake =
     (if fd < 0 then (-1, [])
      else if 0 \<le> wa_epoll os then
        (let timer = (if 0 \<le> timeout_ms then wa_timer os else -1);
             close_timer = (if 0 \<le> timer then [Fd_close timer] else []);
             close_epoll = [Fd_close (wa_epoll os)];
             add_fd = (\<lambda>tracked. if tracked < 0 then True else wa_add os tracked) in
         if 0 \<le> timeout_ms \<and> 0 \<le> timer \<and> wa_settime os < 0 then (-1, [Fd_close timer] @ close_epoll)
         else if \<not> add_fd fd \<or> \<not> add_fd wake \<or> \<not> add_fd timer then (-1, close_timer @ close_epoll)
         else (case wa_events os of
             None \<Rightarrow> (-1, close_timer @ close_epoll)
           | Some es \<Rightarrow> first_event fd wake timer close_timer close_epoll (take 3 es)))
      else
        (if wa_poll os = 0 then (0, [])
         else if wa_poll os < 0 then (-1, [])
         else if 0 \<le> wake \<and> wa_poll_wake os then (-2, [Fd_read wake])
         else (if wa_poll_fd os then 1 else -1, [])))"

definition accept_client ::
  "wait_answers \<Rightarrow> int \<Rightarrow> int \<Rightarrow> int \<Rightarrow> tcp_socket \<Rightarrow> int \<times> tcp_socket" where
  "accept_client os accept_result timeout_ms wake s =
     (if socket_fd s < 0 then (-1, s)
      else (let readiness = fst (wait_for_readable os (socket_fd s) timeout_ms wake) in
        if readiness = 0 then (0, s)
        else if readiness = -2 then (-2, s)
        else if readiness < 0 then (-1, s)
        else (let s' = s\<lparr>client_fd := accept_result\<rparr> in
          if accept_result < 0 then (-1, s') else (accept_result, s'))))"

section \<open>Messages\<close>

text \<open>\<open>sent\<close> is the result of \<open>send\<close>, None when the peer has closed the connection: \<open>send\<close> is called
  with flags 0 and no program handles \<open>SIGPIPE\<close>, so the signal ends the process before the call
  returns.  The result is None then; otherwise what \<open>sendMessage\<close> returns and what reaches the wire.\<close>

definition send_message :: "tcp_socket \<Rightarrow> string \<Rightarrow> int option \<Rightarrow> (bool \<times> string) option" where
  "send_message s message sent =
     (if active_fd s < 0 then Some (False, [])
      else (case sent of
          None \<Rightarrow> None
        | Some n \<Rightarrow> (if n < 0 then Some (False, []) else Some (True, take (nat n) (message @ nl)))))"

datatype byte_answer = Byte char | Interrupted | Recv_failed | End_of_stream

type_synonym rx_step = "wait_answers \<times> byte_answer"

text \<open>The loop of \<open>receiveMessage\<close> over the answers to come; None when it still waits.\<close>

fun receive_loop ::
  "int \<Rightarrow> int \<Rightarrow> int \<Rightarrow> string \<Rightarrow> rx_step list \<Rightarrow> (int \<times> string \<times> rx_step list) option" where
  "receive_loop fd timeout_ms wake message [] = None"
| "receive_loop fd timeout_ms wake message ((os, received) # rest) =
     (let readiness = fst (wait_for_readable os fd timeout_ms wake) in
      if readiness = 0 then Some (0, message, rest)
      else if readiness = -2 then Some (-2, message, rest)
      else if readiness < 0 then Some (-1, message, rest)
      else (case received of
          Interrupted \<Rightarrow> receive_loop fd timeout_ms wake message rest
        | Recv_failed \<Rightarrow> Some (-1, message, rest)
        | End_of_stream \<Rightarrow> Some (-1, message, rest)
        | Byte c \<Rightarrow> (if c = CHR 0x0A then Some (1, message, rest)
                     else receive_loop fd timeout_ms wake (message @ [c]) rest)))"

definition receive_message ::
  "tcp_socket \<Rightarrow> string \<Rightarrow> int \<Rightarrow> int \<Rightarrow> rx_step list \<Rightarrow> (int \<times> string \<times> rx_step list) option" where
  "receive_message s message timeout_ms wake steps =
     (if active_fd s < 0 then Some (-1, message, steps)
      else receive_loop (active_fd s) timeout_ms wake [] steps)"

end
