(* ===== verification/Pipeline.thy ===== *)
theory Pipeline
  imports Map_Analytics Metrics Std_Map
begin

text \<open>
  \<open>common/pipeline/ValidationAggregationConsumerPipeline.hpp\<close>: the component behind every
  subscriber.  An envelope is decoded, validated, counted, logged when the environment asks for
  it, summarised on the standard output and handed to the callback.  The two log files, the
  output and the calls of the callback are components of the state; whether a file opens is an
  argument.  The mutex covers \<open>recordPacket\<close> and \<open>printSummary\<close>; a call is one step here.
\<close>

record 'j pipeline =
  pl_consumer_name :: string
  pl_has_callback :: bool
  pl_total_packets :: u64
  pl_packets_by_city :: "(string, u64) smap"
  pl_temperature_sum :: double
  pl_map_log :: string
  pl_log :: string
  pl_output :: string
  pl_passed :: "'j envelope list"

definition pipeline_new :: "string \<Rightarrow> bool \<Rightarrow> 'j pipeline" where
  "pipeline_new consumer callback = \<lparr>pl_consumer_name = consumer, pl_has_callback = callback,
     pl_total_packets = 0, pl_packets_by_city = [], pl_temperature_sum = Fin 0,
     pl_map_log = [], pl_log = [], pl_output = [], pl_passed = []\<rparr>"

text \<open>The environment of a call: \<open>ENABLE_PIPELINE_LOGGING\<close> is set, the two files open.\<close>

record log_env =
  le_enabled :: bool
  le_map_open :: bool
  le_open :: bool

section \<open>The operations\<close>

definition has_measurement :: "double \<Rightarrow> bool" where
  "has_measurement x \<longleftrightarrow> \<not> is_nan x"

definition validate_packet :: "weather_packet \<Rightarrow> bool" where
  "validate_packet p =
     (if continent p = [] \<or> country p = [] \<or> region p = [] \<or> city p = [] then False
      else if d_lt (temperature p) (Fin (-100)) \<or> d_gt (temperature p) (Fin 100) then False
      else if d_lt (humidity p) (Fin 0) \<or> d_gt (humidity p) (Fin 100) then False
      else if d_lt (wind_speed p) (Fin 0) \<or> d_gt (wind_speed p) (Fin 200) then False
      else if has_measurement (latitude p)
        \<and> (d_lt (latitude p) (Fin (-90)) \<or> d_gt (latitude p) (Fin 90)) then False
      else if has_measurement (longitude p)
        \<and> (d_lt (longitude p) (Fin (-180)) \<or> d_gt (longitude p) (Fin 180)) then False
      else if has_measurement (visibility_km p)
        \<and> (d_lt (visibility_km p) (Fin 0) \<or> d_gt (visibility_km p) (Fin 200)) then False
      else if has_measurement (precipitation_mm p)
        \<and> (d_lt (precipitation_mm p) (Fin 0) \<or> d_gt (precipitation_mm p) (Fin 1000)) then False
      else if has_measurement (pressure_hpa p)
        \<and> (d_lt (pressure_hpa p) (Fin 800) \<or> d_gt (pressure_hpa p) (Fin 1200)) then False
      else True)"

definition record_packet :: "weather_packet \<Rightarrow> 'j pipeline \<Rightarrow> 'j pipeline" where
  "record_packet p pl = pl\<lparr>pl_total_packets := pl_total_packets pl + 1,
     pl_packets_by_city := smap_modify 0 (city p) (\<lambda>n. n + 1) (pl_packets_by_city pl),
     pl_temperature_sum := d_add (pl_temperature_sum pl) (temperature p)\<rparr>"

text \<open>How a logging call ends: \<open>dump\<close> may throw, and the tile key may convert a double out of
  range.\<close>

datatype log_end = Logged | Log_throws | Log_undefined

definition log_packet :: "'j json_lib \<Rightarrow> bool \<Rightarrow> 'j envelope \<Rightarrow> 'j pipeline \<Rightarrow> log_end \<times> 'j pipeline" where
  "log_packet J opens e pl =
     (if \<not> opens then (Logged, pl)
      else (case dump_line J (envelope_to_json J e) of
          None \<Rightarrow> (Log_throws, pl)
        | Some t \<Rightarrow> (Logged, pl\<lparr>pl_log := pl_log pl @ t @ nl\<rparr>)))"

definition analytics_envelope :: "'j json_lib \<Rightarrow> 'j envelope \<Rightarrow> string \<Rightarrow> string \<Rightarrow> 'j \<Rightarrow> 'j" where
  "analytics_envelope J e suffix mtype content = j_obj J
     [(''schema_version'', j_int J (schema_version e + 1)),
      (''message_id'', j_str J (message_id e @ suffix)),
      (''source'', j_str J (source e)),
      (''route'', j_str J (route e)),
      (''message_type'', j_str J mtype),
      (''created_at'', j_int J (created_at e)),
      (''payload'', content)]"

definition log_map_analytics ::
  "'j json_lib \<Rightarrow> bool \<Rightarrow> 'j envelope \<Rightarrow> weather_packet \<Rightarrow> 'j pipeline \<Rightarrow> log_end \<times> 'j pipeline" where
  "log_map_analytics J opens e p pl =
     (if \<not> opens then (Logged, pl)
      else (case (make_map_tile_hazard_event e p, make_map_route_risk_event e p) of
          (Some tile_hazard, Some route_risk) \<Rightarrow>
            (case dump_line J (analytics_envelope J e ''.map'' mt_map_tile_hazard
                      (tile_hazard_to_json J tile_hazard)) of
               None \<Rightarrow> (Log_throws, pl)
             | Some t1 \<Rightarrow> (let pl1 = pl\<lparr>pl_map_log := pl_map_log pl @ t1 @ nl\<rparr> in
                 case dump_line J (analytics_envelope J e ''.route'' mt_map_route_risk
                      (route_risk_to_json J route_risk)) of
                   None \<Rightarrow> (Log_throws, pl1)
                 | Some t2 \<Rightarrow> (Logged, pl1\<lparr>pl_map_log := pl_map_log pl1 @ t2 @ nl\<rparr>)))
        | _ \<Rightarrow> (Log_undefined, pl)))"

definition city_count :: "'j pipeline \<Rightarrow> string \<Rightarrow> u64" where
  "city_count pl c = (case smap_lookup (pl_packets_by_city pl) c of None \<Rightarrow> 0 | Some n \<Rightarrow> n)"

definition print_summary :: "weather_packet \<Rightarrow> 'j pipeline \<Rightarrow> 'j pipeline" where
  "print_summary p pl =
     (let average = (if 0 < pl_total_packets pl
            then d_div (pl_temperature_sum pl) (of_size (unat (pl_total_packets pl))) else Fin 0)
      in pl\<lparr>pl_packets_by_city := smap_modify 0 (city p) (\<lambda>n. n) (pl_packets_by_city pl),
           pl_output := pl_output pl @ ''['' @ pl_consumer_name pl @ ''] Consumed '' @ city p
             @ '' | total='' @ u64_text (pl_total_packets pl)
             @ '' | city_count='' @ u64_text (city_count pl (city p))
             @ '' | avg_temp='' @ fmt_fixed 2 average @ nl\<rparr>)"

datatype consume_result = Consumed bool | Exception | Undefined_conversion

definition consume ::
  "'j json_lib \<Rightarrow> log_env \<Rightarrow> 'j envelope \<Rightarrow> 'j pipeline \<Rightarrow> consume_result \<times> 'j pipeline" where
  "consume J env e pl =
     (case weather_packet_from_envelope J e of
        None \<Rightarrow> (Consumed False, pl)
      | Some p \<Rightarrow>
          if \<not> validate_packet p then (Consumed False, pl)
          else (let pl1 = record_packet p pl;
                    (log_result, pl2) =
                      (if le_enabled env then
                         (case log_map_analytics J (le_map_open env) e p pl1 of
                            (Logged, pl') \<Rightarrow> log_packet J (le_open env) e pl'
                          | stopped \<Rightarrow> stopped)
                       else (Logged, pl1))
                in (case log_result of
                      Log_throws \<Rightarrow> (Exception, pl2)
                    | Log_undefined \<Rightarrow> (Undefined_conversion, pl2)
                    | Logged \<Rightarrow>
                        (let pl3 = print_summary p pl2 in
                         (Consumed True, if pl_has_callback pl3
                            then pl3\<lparr>pl_passed := pl_passed pl3 @ [e]\<rparr> else pl3)))))"

section \<open>What is accepted\<close>

text \<open>The rule in terms of ranges: a measurement is absent (NaN) or lies between two bounds.\<close>

definition measured_in :: "rat \<Rightarrow> rat \<Rightarrow> double \<Rightarrow> bool" where
  "measured_in lo hi x \<longleftrightarrow> is_nan x \<or> d_in lo hi x"

definition acceptable :: "weather_packet \<Rightarrow> bool" where
  "acceptable p \<longleftrightarrow> continent p \<noteq> [] \<and> country p \<noteq> [] \<and> region p \<noteq> [] \<and> city p \<noteq> []
     \<and> measured_in (-100) 100 (temperature p) \<and> measured_in 0 100 (humidity p)
     \<and> measured_in 0 200 (wind_speed p) \<and> measured_in (-90) 90 (latitude p)
     \<and> measured_in (-180) 180 (longitude p) \<and> measured_in 0 200 (visibility_km p)
     \<and> measured_in 0 1000 (precipitation_mm p) \<and> measured_in 800 1200 (pressure_hpa p)"

lemma outside: "(d_lt x (Fin lo) \<or> d_gt x (Fin hi)) = (\<not> measured_in lo hi x)"
  by (cases x) (auto simp: measured_in_def d_in_def)

lemma measured_outside [simp]: "(has_measurement x \<longrightarrow> measured_in lo hi x) = measured_in lo hi x"
  by (auto simp: measured_in_def has_measurement_def)

lemma validate_packet_is: "validate_packet p = acceptable p"
  unfolding validate_packet_def outside acceptable_def by simp

text \<open>A validated packet has a tile key: the conversion to \<open>int\<close> is in range.\<close>

lemma validated_tile: "acceptable p \<Longrightarrow> map_tile_id_from_packet p \<noteq> None"
proof (cases "is_nan (latitude p) \<or> is_nan (longitude p)")
  case True
  then show ?thesis by (auto simp: map_tile_id_from_packet_def map_has_measurement_def)
next
  case False
  moreover assume "acceptable p"
  ultimately have "located p" by (simp add: acceptable_def measured_in_def located_def)
  then obtain a b where "map_lat_bucket p = Some a" "map_lon_bucket p = Some b"
    by (rule map_buckets_in)
  then show ?thesis by (simp add: map_tile_id_from_packet_def)
qed

lemma validated_events:
  assumes "acceptable p"
  obtains t r where "make_map_tile_hazard_event e p = Some t" "make_map_route_risk_event e p = Some r"
proof -
  obtain k where k: "map_tile_id_from_packet p = Some k" using validated_tile [OF assms] by auto
  have "make_map_tile_hazard_event e p \<noteq> None" "make_map_route_risk_event e p \<noteq> None"
    by (simp_all add: make_map_tile_hazard_event_def make_map_route_risk_event_def Let_def k)
  then show ?thesis using that by blast
qed

definition decoded :: "'j json_lib \<Rightarrow> 'j envelope \<Rightarrow> weather_packet option" where
  "decoded J e = (case weather_packet_from_envelope J e of
     None \<Rightarrow> None | Some p \<Rightarrow> if acceptable p then Some p else None)"

section \<open>What a call changes\<close>

text \<open>The counters of a pipeline, apart from its texts.\<close>

definition counters :: "'j pipeline \<Rightarrow> u64 \<times> (string, u64) smap \<times> double" where
  "counters pl = (pl_total_packets pl, pl_packets_by_city pl, pl_temperature_sum pl)"

definition count_packet ::
  "weather_packet \<Rightarrow> u64 \<times> (string, u64) smap \<times> double \<Rightarrow> u64 \<times> (string, u64) smap \<times> double" where
  "count_packet p = (\<lambda>(n, m, s).
     (n + 1, smap_modify 0 (city p) (\<lambda>k. k + 1) m, d_add s (temperature p)))"

lemma log_packet_keeps:
  "log_packet J opens e pl = (r, pl') \<Longrightarrow>
   counters pl' = counters pl \<and> pl_passed pl' = pl_passed pl \<and> pl_has_callback pl' = pl_has_callback pl
   \<and> r \<noteq> Log_undefined"
  by (auto simp: log_packet_def counters_def split: if_splits option.splits)

lemma log_map_analytics_keeps:
  "acceptable p \<Longrightarrow> log_map_analytics J opens e p pl = (r, pl') \<Longrightarrow>
   counters pl' = counters pl \<and> pl_passed pl' = pl_passed pl \<and> pl_has_callback pl' = pl_has_callback pl
   \<and> r \<noteq> Log_undefined"
  by (erule validated_events [of p e])
    (auto simp: log_map_analytics_def counters_def Let_def split: if_splits option.splits)

lemma smap_update_same: "smap_inv m \<Longrightarrow> smap_lookup m k = Some v \<Longrightarrow> smap_update k v m = m"
  by (induction k v m rule: smap_update.induct) (auto simp: smap_inv_def smap_lookup_def split: if_splits dest!: map_of_SomeD)

lemma smap_modify_inv: "smap_inv m \<Longrightarrow> smap_inv (smap_modify d k f m)"
  unfolding smap_modify_def by (rule smap_update_sorted)

lemma smap_modify_again:
  "smap_inv m \<Longrightarrow> smap_modify d k (\<lambda>n. n) (smap_modify d k f m) = smap_modify d k f m"
  unfolding smap_modify_def [where f = "\<lambda>n. n"]
  by (rule smap_update_same)
    (simp_all add: smap_modify_inv, simp add: smap_modify_def smap_lookup_update)

definition pl_inv :: "'j pipeline \<Rightarrow> bool" where
  "pl_inv pl \<longleftrightarrow> smap_inv (pl_packets_by_city pl)"

lemma print_summary_keeps:
  "pl_inv pl \<Longrightarrow> counters pl' = count_packet p (counters pl) \<Longrightarrow>
   counters (print_summary p pl') = counters pl'"
  by (auto simp: counters_def count_packet_def print_summary_def pl_inv_def smap_modify_again Let_def)

lemma print_summary_passed [simp]:
  "pl_passed (print_summary p pl) = pl_passed pl"
  "pl_has_callback (print_summary p pl) = pl_has_callback pl"
  by (simp_all add: print_summary_def Let_def)

lemma record_packet_counters [simp]:
  "counters (record_packet p pl) = count_packet p (counters pl)"
  "pl_passed (record_packet p pl) = pl_passed pl"
  "pl_has_callback (record_packet p pl) = pl_has_callback pl"
  by (simp_all add: record_packet_def counters_def count_packet_def)

lemma pl_inv_counters: "counters pl' = count_packet p (counters pl) \<Longrightarrow> pl_inv pl \<Longrightarrow> pl_inv pl'"
  by (auto simp: counters_def count_packet_def pl_inv_def smap_modify_inv)

lemma counters_passed [simp]: "counters (pl\<lparr>pl_passed := es\<rparr>) = counters pl"
  by (simp add: counters_def)

text \<open>One call, told apart by what the envelope decodes to.\<close>

lemma consume_rejects: "decoded J e = None \<Longrightarrow> consume J env e pl = (Consumed False, pl)"
  by (auto simp: decoded_def consume_def validate_packet_is split: option.splits if_splits)

lemma consume_accepts:
  assumes "decoded J e = Some p" and "pl_inv pl" and "consume J env e pl = (r, pl')"
  shows "counters pl' = count_packet p (counters pl)"
    and "r = Consumed True \<or> r = Exception \<and> le_enabled env"
    and "pl_passed pl' = pl_passed pl @ (if r = Consumed True \<and> pl_has_callback pl then [e] else [])"
    and "pl_has_callback pl' = pl_has_callback pl"
proof -
  have p: "weather_packet_from_envelope J e = Some p" "acceptable p"
    using assms(1) by (auto simp: decoded_def split: option.splits if_splits)
  define pl1 where "pl1 = record_packet p pl"
  define logs where "logs = (if le_enabled env then
       (case log_map_analytics J (le_map_open env) e p pl1 of
          (Logged, pl') \<Rightarrow> log_packet J (le_open env) e pl' | stopped \<Rightarrow> stopped)
       else (Logged, pl1))"
  obtain l pl2 where l: "logs = (l, pl2)" by (cases logs)
  have keeps: "counters pl2 = counters pl1 \<and> pl_passed pl2 = pl_passed pl1
      \<and> pl_has_callback pl2 = pl_has_callback pl1 \<and> l \<noteq> Log_undefined
      \<and> (l = Log_throws \<longrightarrow> le_enabled env)"
    using l log_map_analytics_keeps [OF p(2), of J "le_map_open env" e pl1]
      log_packet_keeps [of J "le_open env" e _ l pl2]
    by (auto simp: logs_def split: if_splits prod.splits log_end.splits)
  have "counters (print_summary p pl2) = counters pl2"
    using print_summary_keeps [OF assms(2), of pl2 p] keeps by (simp add: pl1_def)
  moreover have "consume J env e pl = (case logs of (l, pl2) \<Rightarrow> (case l of
        Log_throws \<Rightarrow> (Exception, pl2)
      | Log_undefined \<Rightarrow> (Undefined_conversion, pl2)
      | Logged \<Rightarrow> (let pl3 = print_summary p pl2 in
          (Consumed True, if pl_has_callback pl3 then pl3\<lparr>pl_passed := pl_passed pl3 @ [e]\<rparr> else pl3))))"
    by (simp only: consume_def p validate_packet_is option.case Let_def logs_def pl1_def not_not
        not_True_eq_False if_False case_prod_beta)
  ultimately
  have out: "(r, pl') = (case l of
        Log_throws \<Rightarrow> (Exception, pl2)
      | Log_undefined \<Rightarrow> (Undefined_conversion, pl2)
      | Logged \<Rightarrow> (Consumed True, if pl_has_callback pl2
          then (print_summary p pl2)\<lparr>pl_passed := pl_passed pl2 @ [e]\<rparr> else print_summary p pl2))"
    and same: "counters (print_summary p pl2) = counters pl2"
    using assms(3) by (cases l; simp add: l Let_def)+
  note pl1 = record_packet_counters [where p = p and pl = pl, folded pl1_def]
  show "counters pl' = count_packet p (counters pl)" using out same keeps pl1 by (cases l) simp_all
  show "r = Consumed True \<or> r = Exception \<and> le_enabled env" using out keeps by (cases l) simp_all
  show "pl_passed pl' = pl_passed pl @ (if r = Consumed True \<and> pl_has_callback pl then [e] else [])"
    using out keeps pl1 by (cases l) simp_all
  show "pl_has_callback pl' = pl_has_callback pl" using out keeps pl1 by (cases l) simp_all
qed

section \<open>A run of calls\<close>

fun consume_all :: "'j json_lib \<Rightarrow> (log_env \<times> 'j envelope) list \<Rightarrow> 'j pipeline \<Rightarrow>
    consume_result list \<times> 'j pipeline" where
  "consume_all J [] pl = ([], pl)"
| "consume_all J ((env, e) # ops) pl =
     (let (r, pl1) = consume J env e pl; (rs, pl2) = consume_all J ops pl1 in (r # rs, pl2))"

text \<open>The calls after which the callback ran.\<close>

definition completed :: "('a \<times> 'j envelope) list \<Rightarrow> consume_result list \<Rightarrow> 'j envelope list" where
  "completed ops rs = map (snd \<circ> fst) (filter (\<lambda>(op, r). r = Consumed True) (zip ops rs))"

lemma completed_Cons:
  "completed ((a, e) # ops) (r # rs) = (if r = Consumed True then [e] else []) @ completed ops rs"
  by (simp add: completed_def)

lemma consume_all_run:
  "pl_inv pl \<Longrightarrow> consume_all J ops pl = (rs, pl') \<Longrightarrow>
   counters pl' = fold count_packet (List.map_filter (decoded J \<circ> snd) ops) (counters pl)
   \<and> map (\<lambda>r. r = Consumed False) rs = map (\<lambda>(env, e). decoded J e = None) ops
   \<and> Undefined_conversion \<notin> set rs
   \<and> pl_passed pl' = pl_passed pl @ (if pl_has_callback pl then completed ops rs else [])
   \<and> pl_has_callback pl' = pl_has_callback pl"
proof (induction J ops pl arbitrary: rs pl' rule: consume_all.induct)
  case (1 J pl)
  then show ?case by (auto simp: map_filter_def completed_def)
next
  case (2 J env e ops pl)
  obtain r pl1 where r: "consume J env e pl = (r, pl1)" by fastforce
  obtain rs' pl2 where rs: "consume_all J ops pl1 = (rs', pl2)" by fastforce
  have eq: "rs = r # rs'" "pl' = pl2" using 2(3) r rs by simp_all
  show ?case
  proof (cases "decoded J e")
    case None
    then have "r = Consumed False" "pl1 = pl" using r consume_rejects [of J e env pl] by simp_all
    with 2(1) [OF r [symmetric] refl _ rs] 2(2) None show ?thesis
      by (simp add: eq completed_Cons map_filter_simps)
  next
    case (Some p)
    note one = consume_accepts [OF Some 2(2) r]
    then have "pl_inv pl1" using pl_inv_counters 2(2) by blast
    from 2(1) [OF r [symmetric] refl this rs] one Some show ?thesis
      by (auto simp: eq completed_Cons map_filter_simps)
  qed
qed

lemma count_packet_step [simp]:
  "count_packet p (n, m, s) = (n + 1, smap_modify 0 (city p) (\<lambda>k. k + 1) m, d_add s (temperature p))"
  by (simp add: count_packet_def)

text \<open>The three counters after a run of accepted packets.\<close>

lemma fold_count_packet:
  "smap_inv m \<Longrightarrow> fold count_packet ps (n, m, s) = (n', m', s') \<Longrightarrow>
   n' = n + of_nat (length ps) \<and> s' = foldl d_add s (map temperature ps) \<and> smap_inv m'
   \<and> smap_lookup m' c = (if count_list (map city ps) c = 0 then smap_lookup m c
       else Some (of_nat (count_list (map city ps) c)
         + (case smap_lookup m c of None \<Rightarrow> 0 | Some k \<Rightarrow> k)))"
proof (induction ps arbitrary: n m s)
  case (Cons p ps)
  have inv: "smap_inv (smap_modify 0 (city p) (\<lambda>k. k + 1) m)" using Cons(2) by (rule smap_modify_inv)
  have look: "smap_lookup (smap_modify 0 (city p) (\<lambda>k. k + 1) m) x
      = (if x = city p then Some ((case smap_lookup m x of None \<Rightarrow> 0 | Some k \<Rightarrow> k) + 1)
         else smap_lookup m x)" for x
    using Cons(2) by (simp add: smap_modify_def smap_lookup_update)
  have "fold count_packet ps (n + 1, smap_modify 0 (city p) (\<lambda>k. k + 1) m, d_add s (temperature p))
      = (n', m', s')" using Cons(3) by simp
  from Cons(1) [OF inv this] show ?case by (cases "c = city p") (simp_all add: look)
qed simp

text \<open>
  C28: the accounts of a consumer.  Over any run of calls, whatever is logged and whatever the
  log files do, no conversion is undefined; a call returns false exactly for an envelope that
  is not a weather message in the accepted ranges; the total, the counter of each city and the
  sum of temperatures are those of the accepted packets; and the callback has received, in
  order, exactly the envelopes whose call returned true.
\<close>

theorem pipeline_accounting:
  "case consume_all J ops (pipeline_new consumer True) of (rs, pl) \<Rightarrow>
     (let ps = List.map_filter (decoded J \<circ> snd) ops; k = count_list (map city ps) c in
      pl_total_packets pl = of_nat (length ps)
      \<and> smap_lookup (pl_packets_by_city pl) c = (if k = 0 then None else Some (of_nat k))
      \<and> pl_temperature_sum pl = foldl d_add (Fin 0) (map temperature ps)
      \<and> map (\<lambda>r. r = Consumed False) rs = map (\<lambda>(env, e). decoded J e = None) ops
      \<and> Undefined_conversion \<notin> set rs
      \<and> pl_passed pl = completed ops rs)"
proof -
  obtain rs pl where run: "consume_all J ops (pipeline_new consumer True) = (rs, pl)" by fastforce
  let ?ps = "List.map_filter (decoded J \<circ> snd) ops"
  have new: "pl_inv (pipeline_new consumer True :: 'a pipeline)"
    "counters (pipeline_new consumer True :: 'a pipeline) = (0, [], Fin 0)"
    "pl_passed (pipeline_new consumer True :: 'a pipeline) = []"
    "pl_has_callback (pipeline_new consumer True :: 'a pipeline)"
    by (simp_all add: pipeline_new_def counters_def pl_inv_def smap_inv_def)
  note all = consume_all_run [OF new(1) run, unfolded new]
  have "fold count_packet ?ps (0, [], Fin 0)
      = (pl_total_packets pl, pl_packets_by_city pl, pl_temperature_sum pl)"
    using all by (simp add: counters_def)
  from fold_count_packet [OF _ this, of c] show ?thesis
    using all new(4) by (simp add: run Let_def smap_inv_def smap_lookup_def)
qed

end
