(* ===== verification/Tcp_Session.thy ===== *)
theory Tcp_Session
  imports Tcp_Socket Pipeline
begin

text \<open>
  The two ends of a TCP hop between the services.  The sending end is
  \<open>common/publishing/BrokerPublisher.hpp\<close> (\<open>TcpBrokerPublisher\<close>); the receiving ends are
  \<open>common/subscribing/TcpSubscriber.hpp\<close> and \<open>common/gateway/RegionalGateway.hpp\<close>: an accept
  loop, and one thread per client that reads messages and handles each.  The readings of the
  \<open>running\<close> flag and the answers of the system are arguments; a client thread is modelled on its
  own, since the threads share nothing but the pipeline or the publisher.
\<close>

section \<open>The publisher\<close>

record tcp_publisher =
  tp_socket :: tcp_socket
  tp_connected :: bool

definition tcp_publisher_new :: tcp_publisher where
  "tcp_publisher_new = \<lparr>tp_socket = tcp_socket_new, tp_connected = False\<rparr>"

definition tcp_connect :: "setup_answers \<Rightarrow> tcp_publisher \<Rightarrow> tcp_publisher" where
  "tcp_connect os pub = (if tp_connected pub then pub
     else (let (ok, s, closed) = connect_to_server os (tp_socket pub)
           in pub\<lparr>tp_socket := s, tp_connected := ok\<rparr>))"

text \<open>How a call of \<open>publish_to_topic\<close> ends: it returns, an exception leaves it (\<open>dump\<close> throws), or a
  signal ends the process inside it.\<close>

datatype publish_result = Published bool | Publish_throws | Process_ends

text \<open>The result, the publisher and the bytes sent.\<close>

definition tcp_publish :: "'j json_lib \<Rightarrow> setup_answers \<Rightarrow> int option \<Rightarrow> 'j envelope \<Rightarrow> tcp_publisher \<Rightarrow>
    publish_result \<times> tcp_publisher \<times> string" where
  "tcp_publish J os sent e pub0 =
     (let pub = tcp_connect os pub0 in
      if \<not> tp_connected pub then (Published False, pub, [])
      else (case dump_line J (envelope_to_json J e) of
          None \<Rightarrow> (Publish_throws, pub, [])
        | Some t \<Rightarrow> (case send_message (tp_socket pub) t sent of
            None \<Rightarrow> (Process_ends, pub, [])
          | Some (ok, out) \<Rightarrow>
              (if \<not> ok then (Published False, pub\<lparr>tp_socket := fst (close_connection (tp_socket pub)),
                                        tp_connected := False\<rparr>, out)
               else (Published True, pub, out)))))"

text \<open>Several calls, up to one that does not leave the process running.\<close>

fun tcp_publish_all :: "'j json_lib \<Rightarrow> (setup_answers \<times> int option \<times> 'j envelope) list \<Rightarrow> tcp_publisher \<Rightarrow>
    publish_result list \<times> tcp_publisher \<times> string" where
  "tcp_publish_all J [] pub = ([], pub, [])"
| "tcp_publish_all J ((os, sent, e) # ops) pub =
     (let (r, pub1, out) = tcp_publish J os sent e pub in
      if r = Process_ends then ([r], pub1, out)
      else (let (rs, pub2, outs) = tcp_publish_all J ops pub1 in (r # rs, pub2, out @ outs)))"

text \<open>What a caller that goes on is left with; None when the process has ended.\<close>

definition after_publish :: "publish_result \<times> 's \<Rightarrow> 's option" where
  "after_publish r = (if fst r = Process_ends then None else Some (snd r))"

section \<open>The accept loop\<close>

text \<open>One round: the flag, the result of \<open>acceptClient\<close>, the flag again.  The result lists the
  clients a thread is started for.\<close>

fun subscriber_accepts :: "(bool \<times> int \<times> bool) list \<Rightarrow> int list" where
  "subscriber_accepts [] = []"
| "subscriber_accepts ((running, client, running') # rounds) =
     (if \<not> running then []
      else if client = 0 then subscriber_accepts rounds
      else if client = -2 then []
      else if client < 0 then (if \<not> running' then [] else subscriber_accepts rounds)
      else client # subscriber_accepts rounds)"

fun gateway_accepts :: "(bool \<times> int \<times> bool) list \<Rightarrow> int list" where
  "gateway_accepts [] = []"
| "gateway_accepts ((running, client, running') # rounds) =
     (if \<not> running then []
      else if client = 0 then gateway_accepts rounds
      else if client < 0 then (if \<not> running' then [] else gateway_accepts rounds)
      else client # gateway_accepts rounds)"

definition server_run :: "bool \<Rightarrow> ('a \<Rightarrow> int list) \<Rightarrow> 'a \<Rightarrow> int list" where
  "server_run created accepts rounds = (if \<not> created then [] else accepts rounds)"

section \<open>A client thread\<close>

text \<open>How the thread stands: it needs more answers, the flag was false, a status ended it, or the
  process ended while a message was handled (\<open>handle\<close> gives None).\<close>

datatype session_end = Still_waiting | Stopped | Ended int | Process_ended

fun client_loop :: "tcp_socket \<Rightarrow> int \<Rightarrow> (string \<Rightarrow> 's \<Rightarrow> 's option) \<Rightarrow> bool list \<Rightarrow> string \<Rightarrow>
    rx_step list \<Rightarrow> 's \<Rightarrow> session_end \<times> 's" where
  "client_loop sk wake handle [] message steps st = (Still_waiting, st)"
| "client_loop sk wake handle (running # flags) message steps st =
     (if \<not> running then (Stopped, st)
      else (case receive_message sk message 1000 wake steps of
          None \<Rightarrow> (Still_waiting, st)
        | Some (status, message', steps') \<Rightarrow>
            if status = 0 then client_loop sk wake handle flags message' steps' st
            else if status < 0 then (Ended status, st)
            else (case handle message' st of
                None \<Rightarrow> (Process_ended, st)
              | Some st' \<Rightarrow> client_loop sk wake handle flags message' steps' st')))"

definition client_session :: "int \<Rightarrow> int \<Rightarrow> (string \<Rightarrow> 's \<Rightarrow> 's option) \<Rightarrow> bool list \<Rightarrow> rx_step list \<Rightarrow> 's \<Rightarrow>
    session_end \<times> 's" where
  "client_session client wake handle flags steps st =
     client_loop (set_socket_fd client tcp_socket_new) wake handle flags [] steps st"

text \<open>What each server does with a message.  Every exception is caught in the loop.\<close>

definition parse_envelope :: "'j json_lib \<Rightarrow> string \<Rightarrow> 'j envelope option" where
  "parse_envelope J message = Option.bind (j_parse J message) (envelope_from_json J)"

definition subscriber_handle :: "'j json_lib \<Rightarrow> log_env \<Rightarrow> string \<Rightarrow> 'j pipeline \<Rightarrow> 'j pipeline" where
  "subscriber_handle J env message pl =
     (case parse_envelope J message of None \<Rightarrow> pl | Some e \<Rightarrow> snd (consume J env e pl))"

text \<open>A handler that always leaves the process running.\<close>

abbreviation surely :: "(string \<Rightarrow> 's \<Rightarrow> 's) \<Rightarrow> string \<Rightarrow> 's \<Rightarrow> 's option" where
  "surely handle \<equiv> \<lambda>message st. Some (handle message st)"

definition subscriber_publish :: "'j json_lib \<Rightarrow> (string \<Rightarrow> 'j envelope \<Rightarrow> 's \<Rightarrow> publish_result \<times> 's) \<Rightarrow>
    string \<Rightarrow> string \<Rightarrow> 's \<Rightarrow> 's option" where
  "subscriber_publish J publish topic message st =
     (case parse_envelope J message of None \<Rightarrow> Some st | Some e \<Rightarrow> after_publish (publish topic e st))"

definition gateway_handle :: "'j json_lib \<Rightarrow> (string \<Rightarrow> 'j envelope \<Rightarrow> 's \<Rightarrow> publish_result \<times> 's) \<Rightarrow>
    string \<Rightarrow> 's \<Rightarrow> 's option" where
  "gateway_handle J publish message st =
     (case parse_envelope J message of
        None \<Rightarrow> Some st
      | Some e \<Rightarrow> (if \<not> is_weather_packet_envelope J e then Some st
                   else after_publish (publish ''forward'' e st)))"

section \<open>Descriptors\<close>

lemma first_event_closes:
  "(r, calls) = first_event fd wake timer (if 0 \<le> timer then [Fd_close timer] else []) [Fd_close ep] es \<Longrightarrow>
   mset (filter (\<lambda>c. \<exists>x. c = Fd_close x) calls)
     = mset ((if 0 \<le> timer then [Fd_close timer] else []) @ [Fd_close ep])"
  by (induction es) (auto split: if_splits)

text \<open>Every way out of \<open>waitForReadable\<close> closes the descriptors it made, each once.\<close>

lemma wait_releases:
  assumes "0 \<le> fd" "0 \<le> wa_epoll os"
  shows "mset (filter (\<lambda>c. \<exists>x. c = Fd_close x) (snd (wait_for_readable os fd timeout_ms wake)))
    = mset ((if 0 \<le> timeout_ms \<and> 0 \<le> wa_timer os then [Fd_close (wa_timer os)] else [])
            @ [Fd_close (wa_epoll os)])"
proof (cases "wa_events os")
  case (Some es)
  note close = first_event_closes [OF prod.collapse]
  show ?thesis
  proof (cases "0 \<le> timeout_ms")
    case True
    then show ?thesis using assms Some close [of fd wake "wa_timer os" "wa_epoll os" "take 3 es"]
      by (auto simp: wait_for_readable_def Let_def)
  next
    case False
    then show ?thesis using assms Some close [of fd wake "-1" "wa_epoll os" "take 3 es"]
      by (auto simp: wait_for_readable_def Let_def)
  qed
qed (use assms in \<open>auto simp: wait_for_readable_def Let_def\<close>)

text \<open>Without a timer descriptor a wait with a time-out has none: it never ends with status 0.\<close>

lemma wait_without_timer:
  assumes "0 \<le> timeout_ms" "0 \<le> wa_epoll os" "wa_timer os < 0"
    "\<And>es. wa_events os = Some es \<Longrightarrow> list_all (\<lambda>e. 0 \<le> e) es"
  shows "fst (wait_for_readable os fd timeout_ms wake) \<noteq> 0"
proof -
  have "fst (first_event fd wake t ct ce es) \<noteq> 0" if "list_all (\<lambda>e. 0 \<le> e) es" "t < 0" for t ct ce es
    using that by (induction es) auto
  moreover have "list_all (\<lambda>e. 0 \<le> e) (take 3 es)" if "list_all (\<lambda>e. 0 \<le> e) es" for es :: "int list"
    using that by (auto simp: list_all_iff dest: in_set_takeD)
  ultimately show ?thesis using assms
    by (auto simp: wait_for_readable_def Let_def split: option.splits)
qed

text \<open>The wrapper of the listening socket and that of the client thread both close the last client.\<close>

lemma client_closed_twice:
  assumes "accept_client os accepted timeout_ms wake s = (client, s')" "0 < client"
  shows "Fd_close client \<in> set (snd (close_connection s'))
    \<and> Fd_close client \<in> set (snd (close_connection (set_socket_fd client tcp_socket_new)))"
  using assms
  by (auto simp: accept_client_def close_connection_def set_socket_fd_def tcp_socket_new_def Let_def
      split: if_splits)

end
