(* ===== verification/Tcp_Delivery.thy ===== *)
theory Tcp_Delivery
  imports Tcp_Session
begin

text \<open>
  What a TCP hop delivers.  \<open>arrives\<close> describes the answers of the system to a client thread
  while given bytes come in: a wait may end with a time-out only between two messages, \<open>recv\<close>
  may be interrupted anywhere, and the bytes come in order.  Under it the thread handles exactly
  the lines of the stream; so a publisher and a subscriber compose to a loss-free channel.
\<close>

definition answers :: "int \<Rightarrow> int \<Rightarrow> int \<Rightarrow> wait_answers \<Rightarrow> int" where
  "answers fd timeout_ms wake os = fst (wait_for_readable os fd timeout_ms wake)"

inductive arrives :: "int \<Rightarrow> int \<Rightarrow> int \<Rightarrow> bool \<Rightarrow> rx_step list \<Rightarrow> string \<Rightarrow> bool" for fd timeout_ms wake where
  Done: "arrives fd timeout_ms wake True [] []"
| Idle: "arrives fd timeout_ms wake True steps bs \<Longrightarrow> answers fd timeout_ms wake os = 0 \<Longrightarrow>
    arrives fd timeout_ms wake True ((os, r) # steps) bs"
| Interrupt: "arrives fd timeout_ms wake b steps bs \<Longrightarrow> answers fd timeout_ms wake os = 1 \<Longrightarrow>
    arrives fd timeout_ms wake b ((os, Interrupted) # steps) bs"
| Next: "arrives fd timeout_ms wake (c = CHR 0x0A) steps bs \<Longrightarrow> answers fd timeout_ms wake os = 1 \<Longrightarrow>
    arrives fd timeout_ms wake b ((os, Byte c) # steps) (c # bs)"

inductive_simps arrives_simps:
  "arrives fd timeout_ms wake b [] bs"
  "arrives fd timeout_ms wake b ((os, r) # steps) bs"

text \<open>The lines of a text, each ended by a newline.\<close>

definition lines_text :: "string list \<Rightarrow> string" where
  "lines_text ms = concat (map (\<lambda>m. m @ nl) ms)"

lemma lines_text_simps [simp]:
  "lines_text [] = []" "lines_text (m # ms) = m @ CHR 0x0A # lines_text ms"
  by (simp_all add: lines_text_def nl_def)

definition plain_line :: "string \<Rightarrow> bool" where
  "plain_line m \<longleftrightarrow> CHR 0x0A \<notin> set m"

section \<open>One message\<close>

lemma receive_line:
  "arrives fd t w b steps bs \<Longrightarrow> bs = m @ CHR 0x0A # rest \<Longrightarrow> plain_line m \<Longrightarrow>
   (\<exists>steps'. receive_loop fd t w acc steps = Some (1, acc @ m, steps')
      \<and> arrives fd t w True steps' rest \<and> length steps' < length steps)
   \<or> b \<and> (\<exists>steps'. receive_loop fd t w acc steps = Some (0, acc, steps')
      \<and> arrives fd t w True steps' bs \<and> length steps' < length steps)"
proof (induction arbitrary: acc m rule: arrives.induct)
  case (Next c steps bs os b)
  show ?case
  proof (cases m)
    case Nil
    then show ?thesis using Next by (auto simp: answers_def)
  next
    case (Cons d m')
    then have m': "bs = m' @ CHR 0x0A # rest" "plain_line m'" "c \<noteq> CHR 0x0A" "m = c # m'"
      using Next.prems by (auto simp: plain_line_def)
    from Next.IH [OF m'(1,2), of "acc @ [c]"] m' Next.hyps(2) show ?thesis
      by (auto simp: answers_def)
  qed
next
  case (Interrupt b steps bs os)
  from Interrupt.IH [OF Interrupt.prems, of acc] Interrupt.hyps(2) show ?case
    by (auto simp: answers_def)
qed (auto simp: answers_def)

lemma receive_nothing:
  "arrives fd t w b steps bs \<Longrightarrow> bs = [] \<Longrightarrow> receive_loop fd t w acc steps = None
   \<or> (\<exists>steps'. receive_loop fd t w acc steps = Some (0, acc, steps')
      \<and> arrives fd t w True steps' [] \<and> length steps' < length steps)"
  by (induction rule: arrives.induct) (auto simp: answers_def)

section \<open>The stream\<close>

text \<open>Messages handled one after the other, until the process ends.\<close>

fun deliver :: "('m \<Rightarrow> 's \<Rightarrow> 's option) \<Rightarrow> 'm list \<Rightarrow> 's \<Rightarrow> session_end \<times> 's" where
  "deliver handle [] st = (Still_waiting, st)"
| "deliver handle (m # ms) st = (case handle m st of
      None \<Rightarrow> (Process_ended, st) | Some st' \<Rightarrow> deliver handle ms st')"

lemma deliver_surely [simp]: "deliver (surely handle) ms st = (Still_waiting, fold handle ms st)"
  by (induction ms arbitrary: st) simp_all

text \<open>A socket whose descriptor is \<open>fd\<close>; enough readings of the flag are one per answer and one
  more.\<close>

lemma client_loop_lines:
  assumes "0 \<le> active_fd sk"
  shows "arrives (active_fd sk) 1000 w True steps (lines_text ms) \<Longrightarrow> list_all plain_line ms \<Longrightarrow>
    length steps < n \<Longrightarrow>
    client_loop sk w handle (replicate n True) message steps st = deliver handle ms st"
proof (induction n arbitrary: steps ms st message)
  case (Suc n)
  show ?case
  proof (cases ms)
    case Nil
    then have "arrives (active_fd sk) 1000 w True steps []" using Suc.prems by simp
    from receive_nothing [OF this refl, of "[]"] show ?thesis
    proof (elim disjE exE conjE)
      fix steps'
      assume "receive_loop (active_fd sk) 1000 w [] steps = Some (0, [], steps')"
        and rest: "arrives (active_fd sk) 1000 w True steps' []" "length steps' < length steps"
      then show ?thesis using Suc.IH [of steps' "[]"] Suc.prems(3) Nil assms
        by (simp add: receive_message_def)
    qed (use Nil assms in \<open>simp add: receive_message_def\<close>)
  next
    case (Cons m ms')
    then have arr: "arrives (active_fd sk) 1000 w True steps (m @ CHR 0x0A # lines_text ms')"
      and m: "plain_line m" using Suc.prems by simp_all
    from receive_line [OF arr refl m, of "[]"] show ?thesis
    proof (elim disjE exE conjE)
      fix steps'
      assume "receive_loop (active_fd sk) 1000 w [] steps = Some (1, [] @ m, steps')"
        and "arrives (active_fd sk) 1000 w True steps' (lines_text ms')" "length steps' < length steps"
      then show ?thesis using Suc.IH [of steps' ms'] Suc.prems(2,3) Cons assms
        by (simp add: receive_message_def split: option.split)
    next
      fix steps'
      assume "receive_loop (active_fd sk) 1000 w [] steps = Some (0, [], steps')"
        and "arrives (active_fd sk) 1000 w True steps' (m @ CHR 0x0A # lines_text ms')"
          "length steps' < length steps"
      then show ?thesis using Suc.IH [of steps' ms] Suc.prems(2,3) Cons assms
        by (simp add: receive_message_def)
    qed
  qed
qed simp

lemma session_fd: "0 \<le> client \<Longrightarrow> active_fd (set_socket_fd client tcp_socket_new) = client"
  by (simp add: active_fd_def set_socket_fd_def tcp_socket_new_def)

text \<open>A time-out inside a message loses what had arrived of it.\<close>

lemma partial_message_lost:
  assumes "answers client 1000 w os = 1" "answers client 1000 w late = 0" "0 \<le> client"
    "plain_line a" "plain_line b"
  shows "client_session client w handle (replicate (Suc (Suc (Suc n))) True)
      (map (\<lambda>c. (os, Byte c)) a @ (late, r) # map (\<lambda>c. (os, Byte c)) (b @ nl)) st
    = deliver handle [b] st"
proof -
  have loop: "receive_loop client 1000 w acc (map (\<lambda>c. (os, Byte c)) x @ rest)
      = receive_loop client 1000 w (acc @ x) rest" if "plain_line x" for acc x rest
    using that assms(1) by (induction x arbitrary: acc) (auto simp: answers_def plain_line_def)
  show ?thesis using assms
    by (simp add: client_session_def receive_message_def session_fd loop nl_def answers_def
        loop [of b _ "[_]", simplified] split: option.split)
qed

section \<open>A publisher and a subscriber\<close>

text \<open>The text of an envelope is one line and reads back as the envelope; this is what the code
  relies on of the JSON package for the values it sends.\<close>

definition envelope_text :: "'j json_lib \<Rightarrow> 'j envelope \<Rightarrow> string" where
  "envelope_text J e = j_dump J (envelope_to_json J e)"

definition line_ok :: "'j json_lib \<Rightarrow> 'j envelope \<Rightarrow> bool" where
  "line_ok J e \<longleftrightarrow> dump_line J (envelope_to_json J e) = Some (envelope_text J e)
     \<and> plain_line (envelope_text J e) \<and> parse_envelope J (envelope_text J e) = Some e"

text \<open>Every \<open>send\<close> takes the whole line.\<close>

definition whole_sends :: "'j json_lib \<Rightarrow> setup_answers \<Rightarrow> 'j envelope list \<Rightarrow>
    (setup_answers \<times> int option \<times> 'j envelope) list" where
  "whole_sends J os es = map (\<lambda>e. (os, Some (int (length (envelope_text J e)) + 1), e)) es"

lemma tcp_publish_connected:
  assumes "tp_connected pub" "0 \<le> active_fd (tp_socket pub)" "line_ok J e"
  shows "tcp_publish J os (Some (int (length (envelope_text J e)) + 1)) e pub
    = (Published True, pub, envelope_text J e @ nl)"
  using assms
  by (simp add: tcp_publish_def tcp_connect_def line_ok_def send_message_def nl_def nat_add_distrib)

lemma tcp_publish_all_connected:
  assumes "tp_connected pub" "0 \<le> active_fd (tp_socket pub)"
  shows "list_all (line_ok J) es \<Longrightarrow> tcp_publish_all J (whole_sends J os es) pub
    = (replicate (length es) (Published True), pub, lines_text (map (envelope_text J) es))"
  by (induction es)
    (simp_all add: whole_sends_def tcp_publish_connected [OF assms] lines_text_def)

lemma connect_fresh:
  assumes "fst (connect_to_server os tcp_socket_new)"
  shows "tp_connected (tcp_connect os tcp_publisher_new)"
    "0 \<le> active_fd (tp_socket (tcp_connect os tcp_publisher_new))"
  using assms
  by (auto simp: connect_to_server_def tcp_connect_def tcp_publisher_new_def tcp_socket_new_def
      close_connection_def active_fd_def Let_def split: if_splits prod.splits)

lemma tcp_publish_reconnects: "tcp_publish J os sent e (tcp_connect os pub) = tcp_publish J os sent e pub"
  if "tp_connected (tcp_connect os pub)"
  using that by (simp add: tcp_publish_def tcp_connect_def [of os "tcp_connect os pub"])

lemma tcp_publish_all_fresh:
  assumes "fst (connect_to_server os tcp_socket_new)" "list_all (line_ok J) es"
  shows "fst (tcp_publish_all J (whole_sends J os es) tcp_publisher_new) = replicate (length es) (Published True)
    \<and> snd (snd (tcp_publish_all J (whole_sends J os es) tcp_publisher_new))
      = lines_text (map (envelope_text J) es)"
proof (cases es)
  case (Cons e es')
  note conn = connect_fresh [OF assms(1)]
  have "tcp_publish_all J (whole_sends J os es) tcp_publisher_new
      = tcp_publish_all J (whole_sends J os es) (tcp_connect os tcp_publisher_new)"
    by (simp add: Cons whole_sends_def tcp_publish_reconnects [OF conn(1)])
  then show ?thesis using tcp_publish_all_connected [OF conn assms(2)] by simp
qed (simp add: whole_sends_def)

lemma handled_lines:
  "list_all (line_ok J) es \<Longrightarrow> fold (subscriber_handle J env) (map (envelope_text J) es) pl
     = snd (consume_all J (map (Pair env) es) pl)"
  by (induction es arbitrary: pl) (simp_all add: subscriber_handle_def line_ok_def split: prod.split)

lemma forwarded_lines:
  "list_all (line_ok J) es \<Longrightarrow> deliver (gateway_handle J publish) (map (envelope_text J) es) st
     = deliver (\<lambda>e st. after_publish (publish ''forward'' e st)) (filter (is_weather_packet_envelope J) es) st"
  by (induction es arbitrary: st) (simp_all add: gateway_handle_def line_ok_def split: option.split)

lemma session_lines:
  assumes "list_all (line_ok J) es" "0 \<le> client" "length steps < n"
    "arrives client 1000 wake True steps (lines_text (map (envelope_text J) es))"
  shows "client_session client wake handle (replicate n True) steps st
    = deliver handle (map (envelope_text J) es) st"
proof -
  have plain: "list_all plain_line (map (envelope_text J) es)"
    using assms(1) by (auto simp: list_all_iff line_ok_def)
  have "arrives (active_fd (set_socket_fd client tcp_socket_new)) 1000 wake True steps
      (lines_text (map (envelope_text J) es))"
    using assms(2,4) by (simp add: session_fd)
  from client_loop_lines [OF _ this plain assms(3)] show ?thesis
    by (simp add: client_session_def session_fd assms(2))
qed

text \<open>
  C29: a TCP hop is loss-free.  A fresh publisher that connects and whose sends take whole lines
  publishes every envelope; when its bytes reach a client thread, interrupted anywhere and with
  time-outs between messages, a subscriber ends up with its pipeline exactly as if it had
  consumed the envelopes one after the other, and a gateway forwards exactly the weather
  envelopes, in order, as long as its own publisher leaves the process running.
\<close>

theorem tcp_hop_delivers:
  assumes "fst (connect_to_server os tcp_socket_new)" "list_all (line_ok J) es" "0 \<le> client"
    "arrives client 1000 wake True steps
       (snd (snd (tcp_publish_all J (whole_sends J os es) tcp_publisher_new)))"
    "length steps < n"
  shows "fst (tcp_publish_all J (whole_sends J os es) tcp_publisher_new) = replicate (length es) (Published True)
    \<and> client_session client wake (surely (subscriber_handle J env)) (replicate n True) steps pl
        = (Still_waiting, snd (consume_all J (map (Pair env) es) pl))
    \<and> client_session client wake (gateway_handle J publish) (replicate n True) steps st
        = deliver (\<lambda>e st. after_publish (publish ''forward'' e st))
             (filter (is_weather_packet_envelope J) es) st"
proof -
  note sent = tcp_publish_all_fresh [OF assms(1,2)]
  have "arrives client 1000 wake True steps (lines_text (map (envelope_text J) es))"
    using assms(4) sent by simp
  note lines = session_lines [OF assms(2,3,5) this]
  show ?thesis using sent assms(2) by (simp add: lines handled_lines forwarded_lines)
qed

definition ready :: "int \<Rightarrow> wait_answers" where
  "ready fd = \<lparr>wa_epoll = 8, wa_timer = 9, wa_settime = 0, wa_add = (\<lambda>x. True), wa_events = Some [fd],
     wa_poll = 0, wa_poll_fd = False, wa_poll_wake = False\<rparr>"

definition fine_setup :: setup_answers where
  "fine_setup = \<lparr>sa_socket = 3, sa_reuse_addr = 0, sa_reuse_port = 0, sa_bind = 0, sa_listen = 0,
     sa_inet_pton = 1, sa_connect = 0\<rparr>"

definition one_line :: "demo json_lib" where
  "one_line = demo_json\<lparr>j_dump := \<lambda>j. ''x'', j_dump2 := \<lambda>j. Some ''x'',
     j_parse := \<lambda>s. Some (envelope_to_json demo_json demo_envelope)\<rparr>"

lemma one_line_ok:
  "list_all (line_ok one_line) [demo_envelope]" "envelope_text one_line e = ''x''"
proof -
  have read: "envelope_from_json demo_json (envelope_to_json demo_json demo_envelope) = Some demo_envelope"
    by (rule envelope_read_back) (simp_all add: demo_envelope_def make_weather_packet_envelope_def
      Let_def generate_message_id_def int_range_def long_range_def long_min_def long_max_def)
  have ops: "envelope_to_json one_line e = envelope_to_json demo_json e"
    "envelope_from_json one_line j = envelope_from_json demo_json j"
    "j_dump one_line j = ''x''" "j_dump2 one_line j = Some ''x''"
    "j_parse one_line s = Some (envelope_to_json demo_json demo_envelope)" for e j s
    by (simp_all add: one_line_def envelope_to_json_def envelope_from_json_def at_get_def)
  show "list_all (line_ok one_line) [demo_envelope]" "envelope_text one_line e = ''x''"
    by (simp_all add: line_ok_def dump_line_def envelope_text_def parse_envelope_def ops read plain_line_def)
qed

lemma fine_connects: "fst (connect_to_server fine_setup tcp_socket_new)"
  by code_simp

definition one_line_read :: "rx_step list" where
  "one_line_read = [(ready 5, Interrupted), (ready 5, Byte CHR ''x''), (ready 5, Byte CHR 0x0A)]"

lemma one_line_arrives: "arrives 5 1000 (-1) True one_line_read [CHR ''x'', CHR 0x0A]"
proof -
  have "answers 5 1000 (-1) (ready 5) = 1" by code_simp
  then show ?thesis by (simp add: one_line_read_def arrives_simps)
qed

lemma one_line_sent:
  "snd (snd (tcp_publish_all one_line (whole_sends one_line fine_setup [demo_envelope]) tcp_publisher_new))
     = [CHR ''x'', CHR 0x0A]"
  using tcp_publish_all_fresh [OF fine_connects one_line_ok(1)] by (simp add: one_line_ok(2))

theorem tcp_hop_delivers_witness:
  "\<forall>env pl. client_session 5 (-1) (surely (subscriber_handle one_line env)) (replicate 4 True) one_line_read pl
   = (Still_waiting, snd (consume_all one_line [(env, demo_envelope)] pl))"
proof (intro allI)
  fix env and pl :: "demo pipeline"
  show "client_session 5 (-1) (surely (subscriber_handle one_line env)) (replicate 4 True) one_line_read pl
    = (Still_waiting, snd (consume_all one_line [(env, demo_envelope)] pl))"
    using tcp_hop_delivers [OF fine_connects one_line_ok(1) _ one_line_arrives [folded one_line_sent],
      where n = 4 and env = env and pl = pl and publish = "\<lambda>t e s. (Published True, s)" and st = "()"]
    by (simp add: one_line_read_def)
qed

end
