(* ===== verification/Transitions.thy ===== *)
theory Transitions
  imports Main
begin

text \<open>
  Threads that share a state, as a step function: an action names the thread that moves and what
  the outside answers it.  What can be reached, what every step preserves, and how long threads
  can run when every step lowers a rank.
\<close>

section \<open>Steps and runs\<close>

text \<open>The thread cannot move; it ends the process (an escaping exception, undefined behaviour, a
  call that does not return); or it moves to a new state.\<close>

datatype 's outcome = Blocked | Fault | Next 's

fun run_steps :: "('a \<Rightarrow> 's \<Rightarrow> 's outcome) \<Rightarrow> 'a list \<Rightarrow> 's \<Rightarrow> 's outcome" where
  "run_steps step [] s = Next s"
| "run_steps step (a # as) s = (case step a s of Next s' \<Rightarrow> run_steps step as s' | stuck \<Rightarrow> stuck)"

inductive reaches :: "('a \<Rightarrow> 's \<Rightarrow> 's outcome) \<Rightarrow> 's \<Rightarrow> 's \<Rightarrow> bool" for step s0 where
  Here: "reaches step s0 s0"
| Step: "reaches step s0 s \<Longrightarrow> step a s = Next s' \<Longrightarrow> reaches step s0 s'"

inductive_cases reachesE: "reaches step s0 s"

definition all_blocked :: "('a \<Rightarrow> 's \<Rightarrow> 's outcome) \<Rightarrow> 's \<Rightarrow> bool" where
  "all_blocked step s \<longleftrightarrow> (\<forall>a. step a s = Blocked)"

lemma run_steps_reaches:
  "run_steps step as s = Next s' \<Longrightarrow> reaches step s0 s \<Longrightarrow> reaches step s0 s'"
  by (induction as arbitrary: s) (auto split: outcome.splits intro: reaches.Step)

lemma run_steps_snoc:
  "run_steps step (as @ [a]) s = (case run_steps step as s of Next s' \<Rightarrow> step a s' | stuck \<Rightarrow> stuck)"
  by (induction as arbitrary: s) (simp_all split: outcome.split)

lemma reaches_run: "reaches step s0 s \<Longrightarrow> \<exists>as. run_steps step as s0 = Next s"
proof (induction rule: reaches.induct)
  case Here
  show ?case by (rule exI [of _ "[]"]) simp
next
  case (Step s a s')
  then obtain as where "run_steps step as s0 = Next s" by blast
  with Step.hyps(2) have "run_steps step (as @ [a]) s0 = Next s'" by (simp add: run_steps_snoc)
  then show ?case by blast
qed

text \<open>What the history of a run says of one thread.\<close>

definition of_thread :: "nat \<Rightarrow> (nat \<times> 'e) list \<Rightarrow> 'e list" where
  "of_thread i xs = map snd (filter (\<lambda>ke. fst ke = i) xs)"

lemma of_thread_append [simp]:
  "of_thread i [] = []" "of_thread i (xs @ [(k, e)]) = of_thread i xs @ (if k = i then [e] else [])"
  by (simp_all add: of_thread_def)

section \<open>Invariants\<close>

locale preserved =
  fixes step :: "'a \<Rightarrow> 's \<Rightarrow> 's outcome"
    and good :: "'s \<Rightarrow> bool"
  assumes step_good: "good s \<Longrightarrow> step a s = Next s' \<Longrightarrow> good s'"
begin

lemma reaches_good: "reaches step s0 s \<Longrightarrow> good s0 \<Longrightarrow> good s"
  by (induction rule: reaches.induct) (blast intro: step_good)+

lemma run_good: "run_steps step as s = Next s' \<Longrightarrow> good s \<Longrightarrow> good s'"
  by (induction as arbitrary: s) (auto split: outcome.splits intro: step_good)

lemma run_no_fault:
  assumes "\<And>s a. good s \<Longrightarrow> step a s \<noteq> Fault"
  shows "good s \<Longrightarrow> run_steps step as s \<noteq> Fault"
  using assms by (induction as arbitrary: s) (auto split: outcome.splits intro: step_good)

end

section \<open>Ranks\<close>

locale ranked = preserved +
  fixes rank :: "'b \<Rightarrow> nat"
  assumes step_rank: "good s \<Longrightarrow> step a s = Next s' \<Longrightarrow> rank s' < rank s"
begin

lemma run_length: "run_steps step as s = Next s' \<Longrightarrow> good s \<Longrightarrow> length as + rank s' \<le> rank s"
proof (induction as arbitrary: s)
  case (Cons a as)
  then obtain s1 where "step a s = Next s1" "run_steps step as s1 = Next s'"
    by (auto split: outcome.splits)
  with Cons.IH [of s1] step_good [OF Cons.prems(2)] step_rank [OF Cons.prems(2)] show ?case
    by fastforce
qed simp

text \<open>Unless a step faults, some run ends where no thread can move.\<close>

lemma run_settles:
  assumes "\<And>s a. good s \<Longrightarrow> step a s \<noteq> Fault"
  shows "good s \<Longrightarrow> \<exists>as s'. run_steps step as s = Next s' \<and> all_blocked step s'"
proof (induction "rank s" arbitrary: s rule: less_induct)
  case less
  show ?case
  proof (cases "all_blocked step s")
    case True
    then show ?thesis by (intro exI [of _ "[]"]) simp
  next
    case False
    then obtain a s1 where a: "step a s = Next s1"
      using assms [OF less.prems] by (auto simp: all_blocked_def) (metis outcome.exhaust)
    from less.hyps [OF step_rank [OF less.prems a] step_good [OF less.prems a]]
    obtain as s' where "run_steps step as s1 = Next s'" "all_blocked step s'" by blast
    with a show ?thesis by (intro exI [of _ "a # as"]) auto
  qed
qed

end

end
