(* ===== verification/Broker.thy ===== *)
theory Broker
  imports Tcp_Delivery Transitions
begin

text \<open>
  The broker inside one process: \<open>common/subscribing/InProcessBrokerSubscriber.hpp\<close>,
  \<open>InProcessBrokerPublisher.hpp\<close> and \<open>common/aggregation/BrokerAggregator.hpp\<close>.  Three maps give a
  topic its queue, its mutex and its condition variable; \<open>operator[]\<close> creates what is missing.
  \<open>publish_to_topic\<close> and the loop of \<open>run\<close> are lists of instructions, one for each lock, unlock, map
  access and queue operation, and the threads interleave between any two of them.

  The accesses of \<open>run\<close> and the later ones of \<open>publish_to_topic\<close> hold no lock of the maps.  So an
  access is two steps, and a step that inserts into a map while another thread is inside an access to
  it, or that enters while another thread inserts, is a data race and ends the process here.  A lookup
  that finds its key only reads, as in the library's implementations.

  The locale states what clients of a broker rely on, and proves once that every topic is a
  first-in first-out channel.
\<close>

section \<open>The interface\<close>

datatype ('t, 'e) broker_op = Publish 't 'e | Fetch 't

fun published :: "'t \<Rightarrow> ('t, 'e) broker_op list \<Rightarrow> 'e list" where
  "published t [] = []"
| "published t (Publish t' e # ops) = (if t' = t then [e] else []) @ published t ops"
| "published t (Fetch t' # ops) = published t ops"

lemma published_append [simp]: "published t (ops @ ops') = published t ops @ published t ops'"
  by (induction t ops rule: published.induct) simp_all

definition on_topic :: "'t \<Rightarrow> ('t \<times> 'e) list \<Rightarrow> 'e list" where
  "on_topic t fetched = map snd (filter (\<lambda>(t', e). t' = t) fetched)"

lemma on_topic_simps [simp]:
  "on_topic t [] = []"
  "on_topic t ((t', e) # fetched) = (if t' = t then [e] else []) @ on_topic t fetched"
  "on_topic t (a @ b) = on_topic t a @ on_topic t b"
  by (simp_all add: on_topic_def)

locale topic_broker =
  fixes start :: 's
    and publish :: "'t \<Rightarrow> 'e \<Rightarrow> 's \<Rightarrow> 's"
    and fetch :: "'t \<Rightarrow> 's \<Rightarrow> 'e option \<times> 's"
    and waiting :: "'s \<Rightarrow> 't \<Rightarrow> 'e list"
  assumes waiting_start: "waiting start t = []"
    and waiting_publish: "waiting (publish t e s) t' = waiting s t' @ (if t' = t then [e] else [])"
    and fetch_result: "fst (fetch t s) = (case waiting s t of [] \<Rightarrow> None | e # _ \<Rightarrow> Some e)"
    and waiting_fetch: "waiting (snd (fetch t s)) t' = (if t' = t then tl (waiting s t') else waiting s t')"
begin

fun run :: "('t, 'e) broker_op list \<Rightarrow> 's \<Rightarrow> ('t \<times> 'e) list \<times> 's" where
  "run [] s = ([], s)"
| "run (Publish t e # ops) s = run ops (publish t e s)"
| "run (Fetch t # ops) s = (let (r, s1) = fetch t s; (fetched, s2) = run ops s1
     in ((case r of None \<Rightarrow> fetched | Some e \<Rightarrow> (t, e) # fetched), s2))"

lemma run_append:
  "run (ops @ ops') s = (let (a, s1) = run ops s; (b, s2) = run ops' s1 in (a @ b, s2))"
proof (induction ops s rule: run.induct)
  case (3 t ops s)
  from 3(1) [OF refl prod.collapse] show ?case
    by (simp add: case_prod_beta Let_def split: option.split)
qed simp_all

lemma run_fifo:
  "on_topic t (fst (run ops s)) @ waiting (snd (run ops s)) t = waiting s t @ published t ops"
proof (induction ops s rule: run.induct)
  case (3 t' ops s)
  obtain r s1 where r: "fetch t' s = (r, s1)" by fastforce
  have ih: "on_topic t (fst (run ops s1)) @ waiting (snd (run ops s1)) t = waiting s1 t @ published t ops"
    using 3(1) [OF r [symmetric] refl] .
  show ?case
    using ih fetch_result [of t' s] waiting_fetch [of t' s t] r
    by (cases "waiting s t'") (auto simp: case_prod_beta split: if_splits)
qed (simp_all add: waiting_publish)

lemma run_from_start: "on_topic t (fst (run ops start)) @ waiting (snd (run ops start)) t = published t ops"
  by (simp add: run_fifo waiting_start)

text \<open>One more operation at the end.\<close>

lemma run_publish:
  assumes "run ops start = (fetched, q)"
  shows "run (ops @ [Publish t e]) start = (fetched, publish t e q)"
  using assms by (simp add: run_append)

lemma run_fetch:
  assumes "run ops start = (fetched, q)"
  shows "run (ops @ [Fetch t]) start = (fetched @ (case waiting q t of [] \<Rightarrow> [] | e # _ \<Rightarrow> [(t, e)]), snd (fetch t q))"
  using assms fetch_result [of t q] by (auto simp: run_append case_prod_beta split: list.split)

end

section \<open>The queues of the process\<close>

type_synonym 'e topics = "string \<Rightarrow> 'e list option"

definition queue_for_topic :: "'e topics \<Rightarrow> string \<Rightarrow> 'e list" where
  "queue_for_topic q t = (case q t of None \<Rightarrow> [] | Some queue \<Rightarrow> queue)"

definition set_queue :: "string \<Rightarrow> 'e list \<Rightarrow> 'e topics \<Rightarrow> 'e topics" where
  "set_queue t queue q = q(t \<mapsto> queue)"

definition push_envelope :: "string \<Rightarrow> 'e \<Rightarrow> 'e topics \<Rightarrow> 'e topics" where
  "push_envelope t e q = set_queue t (queue_for_topic q t @ [e]) q"

definition fetch_envelope :: "string \<Rightarrow> 'e topics \<Rightarrow> 'e option \<times> 'e topics" where
  "fetch_envelope t q = (case queue_for_topic q t of
     [] \<Rightarrow> (None, set_queue t [] q) | e # queue \<Rightarrow> (Some e, set_queue t queue q))"

lemma queue_for_update [simp]:
  "queue_for_topic (set_queue t xs q) t' = (if t' = t then xs else queue_for_topic q t')"
  by (simp add: queue_for_topic_def set_queue_def)

lemma queue_for_empty [simp]: "queue_for_topic (\<lambda>t. None) t = []"
  by (simp add: queue_for_topic_def)

interpretation registry: topic_broker "\<lambda>t. None" push_envelope fetch_envelope queue_for_topic
  by unfold_locales (simp_all add: push_envelope_def fetch_envelope_def split: list.split)

section \<open>The threads\<close>

datatype registry_map = Queues | Mutexes | Conditions

text \<open>\<open>Enter m t\<close> begins \<open>operator[]\<close> on a map and turns into \<open>Leave m w\<close>, where \<open>w\<close> tells an insertion.
  \<open>Take t ts\<close> looks at the queue of a topic, with the topics still to look at after it.\<close>

datatype 'e broker_instr =
    Lock_registry
  | Unlock_registry
  | Enter registry_map string
  | Leave registry_map bool
  | Lock string
  | Unlock string
  | Push string 'e
  | Take string "string list"
  | Consume 'e

text \<open>\<open>InProcessBrokerSubscriber::publish_to_topic\<close>.\<close>

definition publish_to_topic :: "string \<Rightarrow> 'e \<Rightarrow> 'e broker_instr list" where
  "publish_to_topic t e =
     [Lock_registry, Enter Queues t, Enter Mutexes t, Enter Conditions t, Unlock_registry,
      Enter Mutexes t, Lock t, Enter Queues t, Push t e, Unlock t, Enter Conditions t]"

text \<open>The loop over the topics in \<open>run\<close>, up to the next look at a queue.\<close>

fun look_at :: "string list \<Rightarrow> 'e broker_instr list" where
  "look_at [] = []"
| "look_at (t # ts) = [Enter Mutexes t, Lock t, Enter Queues t, Take t ts]"

datatype broker_role = Publisher string | Subscriber "string list" | Gone

text \<open>The last two members record the calls of \<open>publish_to_topic\<close> begun and the calls of \<open>consume\<close>
  made.  A publisher has no use for the pipeline.\<close>

record 'j broker_thread =
  th_role :: broker_role
  th_code :: "'j envelope broker_instr list"
  th_pipeline :: "'j pipeline"
  th_begun :: "(string \<times> 'j envelope) list"
  th_consumed :: "(log_env \<times> 'j envelope) list"

text \<open>The last three members record what each thread pushed and fetched, and all queue operations.\<close>

record 'j broker =
  bk_running :: bool
  bk_queues :: "'j envelope topics"
  bk_mutexes :: "string set"
  bk_conditions :: "string set"
  bk_registry :: "nat option"
  bk_locks :: "string \<Rightarrow> nat option"
  bk_threads :: "'j broker_thread list"
  bk_pushed :: "(nat \<times> string \<times> 'j envelope) list"
  bk_fetched :: "(nat \<times> string \<times> 'j envelope) list"
  bk_ops :: "(string, 'j envelope) broker_op list"

text \<open>The topics in \<open>known\<close> are in the three maps from the start.\<close>

definition broker_start :: "string set \<Rightarrow> (broker_role \<times> 'j pipeline) list \<Rightarrow> 'j broker" where
  "broker_start known threads = \<lparr>bk_running = True,
     bk_queues = (\<lambda>t. if t \<in> known then Some [] else None), bk_mutexes = known, bk_conditions = known,
     bk_registry = None, bk_locks = (\<lambda>t. None),
     bk_threads = map (\<lambda>(r, pl). \<lparr>th_role = r, th_code = [], th_pipeline = pl, th_begun = [], th_consumed = []\<rparr>) threads,
     bk_pushed = [], bk_fetched = [], bk_ops = []\<rparr>"

section \<open>The steps\<close>

definition set_code :: "nat \<Rightarrow> 'j envelope broker_instr list \<Rightarrow> 'j broker \<Rightarrow> 'j broker" where
  "set_code i code s = s\<lparr>bk_threads := (bk_threads s)[i := (bk_threads s ! i)\<lparr>th_code := code\<rparr>]\<rparr>"

definition code_of :: "nat \<Rightarrow> 'j broker \<Rightarrow> 'j envelope broker_instr list" where
  "code_of i s = th_code (bk_threads s ! i)"

fun has_topic :: "registry_map \<Rightarrow> string \<Rightarrow> 'j broker \<Rightarrow> bool" where
  "has_topic Queues t s \<longleftrightarrow> bk_queues s t \<noteq> None"
| "has_topic Mutexes t s \<longleftrightarrow> t \<in> bk_mutexes s"
| "has_topic Conditions t s \<longleftrightarrow> t \<in> bk_conditions s"

fun add_topic :: "registry_map \<Rightarrow> string \<Rightarrow> 'j broker \<Rightarrow> 'j broker" where
  "add_topic Queues t s = s\<lparr>bk_queues := set_queue t [] (bk_queues s)\<rparr>"
| "add_topic Mutexes t s = s\<lparr>bk_mutexes := insert t (bk_mutexes s)\<rparr>"
| "add_topic Conditions t s = s\<lparr>bk_conditions := insert t (bk_conditions s)\<rparr>"

text \<open>Another thread is inside an access to the map, and one of the two accesses inserts.\<close>

fun inside :: "registry_map \<Rightarrow> bool \<Rightarrow> 'e broker_instr list \<Rightarrow> bool" where
  "inside m inserts (Leave m' w # code) \<longleftrightarrow> m' = m \<and> (w \<or> inserts)"
| "inside m inserts code \<longleftrightarrow> False"

definition map_race :: "nat \<Rightarrow> registry_map \<Rightarrow> bool \<Rightarrow> 'j broker \<Rightarrow> bool" where
  "map_race i m inserts s \<longleftrightarrow>
     list_ex (\<lambda>j. j \<noteq> i \<and> inside m inserts (code_of j s)) [0..<length (bk_threads s)]"

definition enter_map :: "nat \<Rightarrow> registry_map \<Rightarrow> string \<Rightarrow> 'j envelope broker_instr list \<Rightarrow> 'j broker \<Rightarrow>
    'j broker outcome" where
  "enter_map i m t rest s = (let inserts = (\<not> has_topic m t s) in
     if map_race i m inserts s then Fault
     else Next (set_code i (Leave m inserts # rest) (if inserts then add_topic m t s else s)))"

text \<open>The queue operations, by a thread that holds the lock of the topic; without it they would race.\<close>

definition do_push :: "nat \<Rightarrow> string \<Rightarrow> 'j envelope \<Rightarrow> 'j envelope broker_instr list \<Rightarrow> 'j broker \<Rightarrow>
    'j broker outcome" where
  "do_push i t e rest s =
     (if bk_locks s t \<noteq> Some i then Fault
      else Next (set_code i rest (s\<lparr>bk_queues := push_envelope t e (bk_queues s),
        bk_pushed := bk_pushed s @ [(i, t, e)], bk_ops := bk_ops s @ [Publish t e]\<rparr>)))"

definition do_take :: "nat \<Rightarrow> string \<Rightarrow> string list \<Rightarrow> 'j broker \<Rightarrow> 'j broker outcome" where
  "do_take i t ts s =
     (if bk_locks s t \<noteq> Some i then Fault
      else (let (r, q) = fetch_envelope t (bk_queues s); s1 = s\<lparr>bk_queues := q, bk_ops := bk_ops s @ [Fetch t]\<rparr>
        in Next (case r of
            None \<Rightarrow> set_code i (Unlock t # look_at ts) s1
          | Some e \<Rightarrow> set_code i [Unlock t, Enter Conditions t, Consume e]
              (s1\<lparr>bk_fetched := bk_fetched s @ [(i, t, e)]\<rparr>))))"

text \<open>An exception of \<open>consume\<close> leaves \<open>run\<close>, and with it the function of the thread.\<close>

definition do_consume :: "'j json_lib \<Rightarrow> log_env \<Rightarrow> nat \<Rightarrow> 'j envelope \<Rightarrow> 'j envelope broker_instr list \<Rightarrow>
    'j broker \<Rightarrow> 'j broker outcome" where
  "do_consume J env i e rest s =
     (let th = bk_threads s ! i; (r, pl) = consume J env e (th_pipeline th) in
      if r = Exception \<or> r = Undefined_conversion then Fault
      else Next (s\<lparr>bk_threads := (bk_threads s)[i := th\<lparr>th_code := rest, th_pipeline := pl,
        th_consumed := th_consumed th @ [(env, e)]\<rparr>]\<rparr>))"

text \<open>The head of the loop of \<open>run\<close>; a publisher between calls has nothing to do.\<close>

definition broker_head :: "nat \<Rightarrow> 'j broker \<Rightarrow> 'j broker outcome" where
  "broker_head i s = (case th_role (bk_threads s ! i) of
      Subscriber ts \<Rightarrow>
        (if bk_running s then Next (set_code i (look_at ts) s)
         else Next (s\<lparr>bk_threads := (bk_threads s)[i := (bk_threads s ! i)\<lparr>th_role := Gone\<rparr>]\<rparr>))
    | _ \<Rightarrow> Blocked)"

fun broker_exec :: "'j json_lib \<Rightarrow> log_env \<Rightarrow> nat \<Rightarrow> 'j envelope broker_instr list \<Rightarrow> 'j broker \<Rightarrow>
    'j broker outcome" where
  "broker_exec J env i [] s = broker_head i s"
| "broker_exec J env i (Lock_registry # rest) s =
     (if bk_registry s = None then Next (set_code i rest (s\<lparr>bk_registry := Some i\<rparr>)) else Blocked)"
| "broker_exec J env i (Unlock_registry # rest) s = Next (set_code i rest (s\<lparr>bk_registry := None\<rparr>))"
| "broker_exec J env i (Enter m t # rest) s = enter_map i m t rest s"
| "broker_exec J env i (Leave m w # rest) s = Next (set_code i rest s)"
| "broker_exec J env i (Lock t # rest) s =
     (if bk_locks s t = None then Next (set_code i rest (s\<lparr>bk_locks := (bk_locks s)(t := Some i)\<rparr>)) else Blocked)"
| "broker_exec J env i (Unlock t # rest) s = Next (set_code i rest (s\<lparr>bk_locks := (bk_locks s)(t := None)\<rparr>))"
| "broker_exec J env i (Push t e # rest) s = do_push i t e rest s"
| "broker_exec J env i (Take t ts # rest) s = do_take i t ts s"
| "broker_exec J env i (Consume e # rest) s = do_consume J env i e rest s"

text \<open>A message for the adapter that publishes on the topic of thread \<open>i\<close>: one that is no envelope is
  reported and dropped.\<close>

definition begin_publish :: "'j json_lib \<Rightarrow> nat \<Rightarrow> string \<Rightarrow> 'j broker \<Rightarrow> 'j broker outcome" where
  "begin_publish J i message s = (let th = bk_threads s ! i in
     case (th_role th, th_code th, parse_envelope J message) of
       (Publisher t, [], Some e) \<Rightarrow> Next (s\<lparr>bk_threads := (bk_threads s)[i := th\<lparr>th_code := publish_to_topic t e,
          th_begun := th_begun th @ [(t, e)]\<rparr>]\<rparr>)
     | (Publisher t, [], None) \<Rightarrow> Next s
     | _ \<Rightarrow> Blocked)"

datatype broker_action = Shutdown | Adapter_message nat string | Run nat log_env

fun broker_step :: "'j json_lib \<Rightarrow> broker_action \<Rightarrow> 'j broker \<Rightarrow> 'j broker outcome" where
  "broker_step J Shutdown s = Next (s\<lparr>bk_running := False\<rparr>)"
| "broker_step J (Adapter_message i message) s =
     (if length (bk_threads s) \<le> i then Blocked else begin_publish J i message s)"
| "broker_step J (Run i env) s =
     (if length (bk_threads s) \<le> i then Blocked else broker_exec J env i (code_of i s) s)"

section \<open>What the threads preserve\<close>

text \<open>What the rest of a thread's instructions says: the topic it holds, whether it handles locks in
  pairs, the topics it will ask the maps for, and the envelopes it has yet to push and to consume.\<close>

fun holds :: "'e broker_instr list \<Rightarrow> string option" where
  "holds [] = None"
| "holds (Unlock t # code) = Some t"
| "holds (Take t ts # code) = Some t"
| "holds (Lock t # code) = None"
| "holds (_ # code) = holds code"

fun code_ok :: "'e broker_instr list \<Rightarrow> bool" where
  "code_ok [] \<longleftrightarrow> True"
| "code_ok (Lock t # code) \<longleftrightarrow> holds code = Some t \<and> code_ok code"
| "code_ok (Unlock t # code) \<longleftrightarrow> holds code = None \<and> code_ok code"
| "code_ok (Push t e # code) \<longleftrightarrow> holds code = Some t \<and> code_ok code"
| "code_ok (Take t ts # code) \<longleftrightarrow> code = []"
| "code_ok (_ # code) \<longleftrightarrow> code_ok code"

fun touches :: "'e broker_instr list \<Rightarrow> string set" where
  "touches [] = {}"
| "touches (Enter m t # code) = insert t (touches code)"
| "touches (Take t ts # code) = insert t (set ts) \<union> touches code"
| "touches (_ # code) = touches code"

fun inserting :: "'e broker_instr list \<Rightarrow> bool" where
  "inserting [] \<longleftrightarrow> False"
| "inserting (Leave m w # code) \<longleftrightarrow> w \<or> inserting code"
| "inserting (_ # code) \<longleftrightarrow> inserting code"

fun to_push :: "'e broker_instr list \<Rightarrow> (string \<times> 'e) list" where
  "to_push [] = []"
| "to_push (Push t e # code) = (t, e) # to_push code"
| "to_push (_ # code) = to_push code"

fun to_consume :: "'e broker_instr list \<Rightarrow> 'e list" where
  "to_consume [] = []"
| "to_consume (Consume e # code) = e # to_consume code"
| "to_consume (_ # code) = to_consume code"

lemma publish_code [simp]:
  "holds (publish_to_topic t e) = None" "code_ok (publish_to_topic t e)" "touches (publish_to_topic t e) = {t}"
  "\<not> inserting (publish_to_topic t e)" "to_push (publish_to_topic t e) = [(t, e)]"
  "to_consume (publish_to_topic t e) = []"
  by (simp_all add: publish_to_topic_def)

lemma look_code [simp]:
  "holds (look_at ts) = None" "code_ok (look_at ts)" "touches (look_at ts) = set ts"
  "\<not> inserting (look_at ts)" "to_push (look_at ts) = []" "to_consume (look_at ts) = []"
  by (cases ts; auto)+

fun role_topics :: "broker_role \<Rightarrow> string set" where
  "role_topics (Publisher t) = {t}"
| "role_topics (Subscriber ts) = set ts"
| "role_topics Gone = {}"

definition thread_inv :: "'j json_lib \<Rightarrow> 'j pipeline \<Rightarrow> (string \<times> 'j envelope) list \<Rightarrow> (string \<times> 'j envelope) list \<Rightarrow>
    'j broker_thread \<Rightarrow> bool" where
  "thread_inv J pl pushed fetched th \<longleftrightarrow>
     th_begun th = pushed @ to_push (th_code th)
     \<and> map snd fetched = map snd (th_consumed th) @ to_consume (th_code th)
     \<and> th_pipeline th = snd (consume_all J (th_consumed th) pl)
     \<and> code_ok (th_code th) \<and> touches (th_code th) \<subseteq> role_topics (th_role th)"

definition bk_inv :: "'j json_lib \<Rightarrow> 'j pipeline list \<Rightarrow> 'j broker \<Rightarrow> bool" where
  "bk_inv J pls s \<longleftrightarrow> length (bk_threads s) = length pls
     \<and> (\<forall>i<length pls. thread_inv J (pls ! i) (of_thread i (bk_pushed s)) (of_thread i (bk_fetched s)) (bk_threads s ! i))
     \<and> (\<forall>i<length pls. \<forall>t. bk_locks s t = Some i \<longleftrightarrow> holds (code_of i s) = Some t)
     \<and> (\<forall>t. published t (bk_ops s) = on_topic t (map snd (bk_pushed s)))
     \<and> fst (registry.run (bk_ops s) (\<lambda>t. None)) = map snd (bk_fetched s)
     \<and> queue_for_topic (snd (registry.run (bk_ops s) (\<lambda>t. None))) = queue_for_topic (bk_queues s)"

lemma bk_inv_start: "bk_inv J (map snd threads) (broker_start known threads)"
  by (auto simp: bk_inv_def broker_start_def thread_inv_def code_of_def queue_for_topic_def case_prod_beta)

lemma set_code_simps [simp]:
  "bk_running (set_code i code s) = bk_running s" "bk_queues (set_code i code s) = bk_queues s"
  "bk_mutexes (set_code i code s) = bk_mutexes s" "bk_conditions (set_code i code s) = bk_conditions s"
  "bk_locks (set_code i code s) = bk_locks s" "bk_pushed (set_code i code s) = bk_pushed s"
  "bk_fetched (set_code i code s) = bk_fetched s" "bk_ops (set_code i code s) = bk_ops s"
  "length (bk_threads (set_code i code s)) = length (bk_threads s)"
  by (simp_all add: set_code_def)

text \<open>A step replaces one thread.  What has to be shown of it is that the new thread fits, that no
  other thread's records and locks change, and what becomes of the queues.\<close>

lemma bk_inv_update:
  assumes "bk_inv J pls s" "i < length pls"
    and "bk_threads s' = (bk_threads s)[i := th]"
    and "thread_inv J (pls ! i) (of_thread i (bk_pushed s')) (of_thread i (bk_fetched s')) th"
    and "\<And>j. j \<noteq> i \<Longrightarrow> of_thread j (bk_pushed s') = of_thread j (bk_pushed s)
         \<and> of_thread j (bk_fetched s') = of_thread j (bk_fetched s)"
    and "\<And>t. bk_locks s' t = Some i \<longleftrightarrow> holds (th_code th) = Some t"
    and "\<And>j t. j \<noteq> i \<Longrightarrow> (bk_locks s' t = Some j) = (bk_locks s t = Some j)"
    and "\<And>t. published t (bk_ops s') = on_topic t (map snd (bk_pushed s'))"
    and "fst (registry.run (bk_ops s') (\<lambda>t. None)) = map snd (bk_fetched s')"
    and "queue_for_topic (snd (registry.run (bk_ops s') (\<lambda>t. None))) = queue_for_topic (bk_queues s')"
  shows "bk_inv J pls s'"
  unfolding bk_inv_def code_of_def
proof (intro conjI allI impI)
  fix j t
  assume j: "j < length pls"
  show "thread_inv J (pls ! j) (of_thread j (bk_pushed s')) (of_thread j (bk_fetched s')) (bk_threads s' ! j)"
    using assms(1-5) j by (cases "j = i") (simp_all add: bk_inv_def)
  show "(bk_locks s' t = Some j) = (holds (th_code (bk_threads s' ! j)) = Some t)"
    using assms(1-3,6,7) j by (cases "j = i") (simp_all add: bk_inv_def code_of_def)
qed (use assms in \<open>simp_all add: bk_inv_def\<close>)

text \<open>A step that touches no queue.\<close>

lemma bk_inv_quiet:
  assumes "bk_inv J pls s" "i < length pls"
    and "bk_threads s' = (bk_threads s)[i := th]"
    and "queue_for_topic (bk_queues s') = queue_for_topic (bk_queues s)"
    and "bk_pushed s' = bk_pushed s" "bk_fetched s' = bk_fetched s" "bk_ops s' = bk_ops s"
    and "thread_inv J (pls ! i) (of_thread i (bk_pushed s)) (of_thread i (bk_fetched s)) th"
    and "\<And>t. bk_locks s' t = Some i \<longleftrightarrow> holds (th_code th) = Some t"
    and "\<And>j t. j \<noteq> i \<Longrightarrow> (bk_locks s' t = Some j) = (bk_locks s t = Some j)"
  shows "bk_inv J pls s'"
  by (rule bk_inv_update [OF assms(1-3)]) (use assms in \<open>simp_all add: bk_inv_def\<close>)

lemma bk_inv_thread:
  assumes "bk_inv J pls s" "i < length pls"
  shows "thread_inv J (pls ! i) (of_thread i (bk_pushed s)) (of_thread i (bk_fetched s)) (bk_threads s ! i)"
    "bk_locks s t = Some i \<longleftrightarrow> holds (code_of i s) = Some t"
  using assms by (simp_all add: bk_inv_def)

lemma threads_set_code: "bk_threads (set_code i code s) = (bk_threads s)[i := (bk_threads s ! i)\<lparr>th_code := code\<rparr>]"
  by (simp add: set_code_def)

lemma queue_add_topic:
  "\<not> has_topic m t s \<Longrightarrow> queue_for_topic (bk_queues (add_topic m t s)) = queue_for_topic (bk_queues s)"
  by (cases m) (auto simp: queue_for_topic_def set_queue_def)

lemma add_topic_simps [simp]:
  "bk_locks (add_topic m t s) = bk_locks s" "bk_threads (add_topic m t s) = bk_threads s"
  "bk_pushed (add_topic m t s) = bk_pushed s" "bk_fetched (add_topic m t s) = bk_fetched s"
  "bk_ops (add_topic m t s) = bk_ops s" "bk_running (add_topic m t s) = bk_running s"
  by (cases m; simp)+

lemma consume_all_snoc:
  "snd (consume_all J (ops @ [(env, e)]) pl) = snd (consume J env e (snd (consume_all J ops pl)))"
proof (induction ops arbitrary: pl)
  case (Cons op ops)
  then show ?case by (cases op) (simp add: case_prod_beta Let_def)
qed (simp add: case_prod_beta)

text \<open>Steps that only change the code of a thread and leave its locks alone.\<close>

lemma bk_inv_code:
  assumes "bk_inv J pls s" "i < length pls" "bk_threads s1 = bk_threads s"
    "queue_for_topic (bk_queues s1) = queue_for_topic (bk_queues s)"
    "bk_pushed s1 = bk_pushed s" "bk_fetched s1 = bk_fetched s" "bk_ops s1 = bk_ops s"
    and "code_ok code" "touches code \<subseteq> role_topics (th_role (bk_threads s ! i))"
    "to_push code = to_push (code_of i s)" "to_consume code = to_consume (code_of i s)"
    and "\<And>t. bk_locks s1 t = Some i \<longleftrightarrow> holds code = Some t"
    "\<And>j t. j \<noteq> i \<Longrightarrow> (bk_locks s1 t = Some j) = (bk_locks s t = Some j)"
  shows "bk_inv J pls (set_code i code s1)"
proof (rule bk_inv_quiet [OF assms(1,2)])
  show "bk_threads (set_code i code s1) = (bk_threads s)[i := (bk_threads s ! i)\<lparr>th_code := code\<rparr>]"
    by (simp add: threads_set_code assms(3))
  show "thread_inv J (pls ! i) (of_thread i (bk_pushed s)) (of_thread i (bk_fetched s))
      ((bk_threads s ! i)\<lparr>th_code := code\<rparr>)"
    using bk_inv_thread(1) [OF assms(1,2)] assms(8-11) by (simp add: thread_inv_def code_of_def)
qed (use assms in simp_all)

lemma bk_inv_head:
  assumes "bk_inv J pls s" "i < length pls" "code_of i s = []" "broker_head i s = Next s'"
  shows "bk_inv J pls s'"
proof -
  note th = bk_inv_thread [OF assms(1,2)]
  have free: "bk_locks s t \<noteq> Some i" for t using th(2) assms(3) by simp
  obtain ts where ts: "th_role (bk_threads s ! i) = Subscriber ts"
    using assms(4) by (auto simp: broker_head_def split: broker_role.splits)
  show ?thesis
  proof (cases "bk_running s")
    case True
    then have "s' = set_code i (look_at ts) s" using assms(4) ts by (simp add: broker_head_def)
    then show ?thesis using bk_inv_code [OF assms(1,2), of s "look_at ts"] assms(3) ts free by simp
  next
    case False
    then have s': "s' = s\<lparr>bk_threads := (bk_threads s)[i := (bk_threads s ! i)\<lparr>th_role := Gone\<rparr>]\<rparr>"
      using assms(4) ts by (simp add: broker_head_def)
    show ?thesis unfolding s'
      by (rule bk_inv_quiet [OF assms(1,2)])
        (use th(1) assms(3) free in \<open>auto simp: thread_inv_def code_of_def\<close>)
  qed
qed

lemma bk_inv_push:
  assumes "bk_inv J pls s" "i < length pls" "code_of i s = Push t e # rest" "do_push i t e rest s = Next s'"
  shows "bk_inv J pls s'"
proof -
  note th = bk_inv_thread [OF assms(1,2)]
  have s': "s' = set_code i rest (s\<lparr>bk_queues := push_envelope t e (bk_queues s),
      bk_pushed := bk_pushed s @ [(i, t, e)], bk_ops := bk_ops s @ [Publish t e]\<rparr>)"
    using assms(4) by (simp add: do_push_def split: if_splits)
  have queue: "queue_for_topic (push_envelope t e q) = queue_for_topic (push_envelope t e q')"
    if "queue_for_topic q = queue_for_topic q'" for q q' :: "'a envelope topics"
    using that by (intro ext) (simp add: push_envelope_def)
  have run: "registry.run (bk_ops s @ [Publish t e]) (\<lambda>t. None)
      = (map snd (bk_fetched s), push_envelope t e (snd (registry.run (bk_ops s) (\<lambda>t. None))))"
    using assms(1) by (intro registry.run_publish) (simp add: bk_inv_def prod_eq_iff)
  show ?thesis unfolding s'
    by (rule bk_inv_update [OF assms(1,2)])
      (use assms(1) th assms(3) in \<open>auto simp: bk_inv_def threads_set_code thread_inv_def code_of_def run intro!: queue\<close>)
qed

lemma bk_inv_take:
  assumes "bk_inv J pls s" "i < length pls" "code_of i s = Take t ts # rest" "do_take i t ts s = Next s'"
  shows "bk_inv J pls s'"
proof -
  note th = bk_inv_thread [OF assms(1,2)]
  let ?q = "snd (registry.run (bk_ops s) (\<lambda>t. None))"
  have same: "queue_for_topic ?q = queue_for_topic (bk_queues s)"
    and fetched: "fst (registry.run (bk_ops s) (\<lambda>t. None)) = map snd (bk_fetched s)"
    using assms(1) by (simp_all add: bk_inv_def)
  have run: "registry.run (bk_ops s @ [Fetch t]) (\<lambda>t. None) = (map snd (bk_fetched s)
      @ (case queue_for_topic (bk_queues s) t of [] \<Rightarrow> [] | e # _ \<Rightarrow> [(t, e)]), snd (fetch_envelope t ?q))"
    using registry.run_fetch [of "bk_ops s" "map snd (bk_fetched s)" ?q t] fetched same
    by (simp add: prod_eq_iff)
  have queue: "queue_for_topic (snd (fetch_envelope t ?q)) = queue_for_topic (snd (fetch_envelope t (bk_queues s)))"
    using same by (intro ext) (simp add: fetch_envelope_def split: list.split)
  show ?thesis
  proof (cases "queue_for_topic (bk_queues s) t")
    case Nil
    then have s': "s' = set_code i (Unlock t # look_at ts)
        (s\<lparr>bk_queues := snd (fetch_envelope t (bk_queues s)), bk_ops := bk_ops s @ [Fetch t]\<rparr>)"
      using assms(4) by (simp add: do_take_def fetch_envelope_def split: if_splits)
    show ?thesis unfolding s'
      by (rule bk_inv_update [OF assms(1,2)])
        (use assms(1) th assms(3) Nil queue in
          \<open>auto simp: bk_inv_def threads_set_code thread_inv_def code_of_def run\<close>)
  next
    case (Cons e es)
    then have s': "s' = set_code i [Unlock t, Enter Conditions t, Consume e]
        (s\<lparr>bk_queues := snd (fetch_envelope t (bk_queues s)), bk_ops := bk_ops s @ [Fetch t],
           bk_fetched := bk_fetched s @ [(i, t, e)]\<rparr>)"
      using assms(4) by (simp add: do_take_def fetch_envelope_def split: if_splits)
    show ?thesis unfolding s'
      by (rule bk_inv_update [OF assms(1,2)])
        (use assms(1) th assms(3) Cons queue in
          \<open>auto simp: bk_inv_def threads_set_code thread_inv_def code_of_def run\<close>)
  qed
qed

lemma bk_inv_consume:
  assumes "bk_inv J pls s" "i < length pls" "code_of i s = Consume e # rest" "do_consume J env i e rest s = Next s'"
  shows "bk_inv J pls s'"
proof -
  note th = bk_inv_thread [OF assms(1,2)]
  obtain r pl where r: "consume J env e (th_pipeline (bk_threads s ! i)) = (r, pl)" by fastforce
  have s': "s' = s\<lparr>bk_threads := (bk_threads s)[i := (bk_threads s ! i)\<lparr>th_code := rest, th_pipeline := pl,
      th_consumed := th_consumed (bk_threads s ! i) @ [(env, e)]\<rparr>]\<rparr>"
    using assms(4) r by (simp add: do_consume_def Let_def split: if_splits)
  show ?thesis unfolding s'
    by (rule bk_inv_quiet [OF assms(1,2)])
      (use th assms(3) r in \<open>auto simp: thread_inv_def code_of_def consume_all_snoc\<close>)
qed

lemma bk_inv_exec:
  assumes "bk_inv J pls s" "i < length pls" "broker_exec J env i (code_of i s) s = Next s'"
  shows "bk_inv J pls s'"
proof -
  note th = bk_inv_thread [OF assms(1,2)]
  have ok: "code_ok (code_of i s)" "touches (code_of i s) \<subseteq> role_topics (th_role (bk_threads s ! i))"
    using th(1) by (simp_all add: thread_inv_def code_of_def)
  note step = bk_inv_code [OF assms(1,2)]
  show ?thesis
  proof (cases "code_of i s")
    case Nil
    then show ?thesis using bk_inv_head [OF assms(1,2)] assms(3) by simp
  next
    case (Cons instr rest)
    show ?thesis
    proof (cases instr)
      case Lock_registry
      then have "s' = set_code i rest (s\<lparr>bk_registry := Some i\<rparr>)"
        using assms(3) Cons by (simp split: if_splits)
      then show ?thesis using step [of "s\<lparr>bk_registry := Some i\<rparr>" rest] ok th(2) Cons Lock_registry by simp
    next
      case Unlock_registry
      then have "s' = set_code i rest (s\<lparr>bk_registry := None\<rparr>)" using assms(3) Cons by simp
      then show ?thesis using step [of "s\<lparr>bk_registry := None\<rparr>" rest] ok th(2) Cons Unlock_registry by simp
    next
      case (Enter m t)
      let ?s = "if \<not> has_topic m t s then add_topic m t s else s"
      have "s' = set_code i (Leave m (\<not> has_topic m t s) # rest) ?s"
        using assms(3) Cons Enter by (simp add: enter_map_def Let_def split: if_splits)
      then show ?thesis
        using step [of ?s "Leave m (\<not> has_topic m t s) # rest"] ok th(2) Cons Enter queue_add_topic [of m t s] by simp
    next
      case (Leave m w)
      then show ?thesis using assms(3) step [of s rest] ok th(2) Cons by simp
    next
      case (Lock t)
      then have lock: "bk_locks s t = None" "s' = set_code i rest (s\<lparr>bk_locks := (bk_locks s)(t := Some i)\<rparr>)"
        using assms(3) Cons by (simp_all split: if_splits)
      show ?thesis unfolding lock(2)
        by (rule step) (use ok th(2) Cons Lock lock(1) in auto)
    next
      case (Unlock t)
      then have unlock: "s' = set_code i rest (s\<lparr>bk_locks := (bk_locks s)(t := None)\<rparr>)"
        using assms(3) Cons by simp
      have held: "bk_locks s t = Some i" "\<And>t'. t' \<noteq> t \<Longrightarrow> bk_locks s t' \<noteq> Some i" using th(2) Cons Unlock by auto
      show ?thesis unfolding unlock
        by (rule step) (use ok held Cons Unlock in auto)
    next
      case (Push t e)
      then show ?thesis using bk_inv_push [OF assms(1,2)] assms(3) Cons by simp
    next
      case (Take t ts)
      then show ?thesis using bk_inv_take [OF assms(1,2)] assms(3) Cons by simp
    next
      case (Consume e)
      then show ?thesis using bk_inv_consume [OF assms(1,2)] assms(3) Cons by simp
    qed
  qed
qed

lemma bk_inv_begin:
  assumes "bk_inv J pls s" "i < length pls" "begin_publish J i message s = Next s'"
  shows "bk_inv J pls s'"
proof (cases "s' = s")
  case False
  then obtain t e where te: "th_role (bk_threads s ! i) = Publisher t" "code_of i s = []"
    "s' = s\<lparr>bk_threads := (bk_threads s)[i := (bk_threads s ! i)\<lparr>th_code := publish_to_topic t e,
        th_begun := th_begun (bk_threads s ! i) @ [(t, e)]\<rparr>]\<rparr>"
    using assms(3) by (auto simp: begin_publish_def code_of_def Let_def split: broker_role.splits list.splits option.splits)
  note th = bk_inv_thread [OF assms(1,2)]
  show ?thesis unfolding te(3)
    by (rule bk_inv_quiet [OF assms(1,2)])
      (use th te(1,2) in \<open>auto simp: thread_inv_def code_of_def\<close>)
qed (use assms in simp)

lemma bk_inv_step:
  assumes "bk_inv J pls s" "broker_step J a s = Next s'"
  shows "bk_inv J pls s'"
proof (cases a)
  case Shutdown
  then show ?thesis using assms by (auto simp: bk_inv_def code_of_def)
next
  case (Adapter_message i message)
  then show ?thesis using assms bk_inv_begin [OF assms(1), of i message s']
    by (auto simp: bk_inv_def split: if_splits)
next
  case (Run i env)
  then show ?thesis using assms bk_inv_exec [OF assms(1), of i env s']
    by (auto simp: bk_inv_def split: if_splits)
qed

interpretation broker: preserved "broker_step J" "bk_inv J pls" for J :: "'j json_lib" and pls
  by unfold_locales (rule bk_inv_step)

section \<open>Topics known beforehand\<close>

text \<open>When every thread finds its topics in the maps, no access inserts.\<close>

definition thread_calm :: "'j broker \<Rightarrow> 'j broker_thread \<Rightarrow> bool" where
  "thread_calm s th \<longleftrightarrow> (\<forall>m. \<forall>t\<in>role_topics (th_role th). has_topic m t s)
     \<and> \<not> inserting (th_code th) \<and> pl_inv (th_pipeline th)"

definition bk_calm :: "'j json_lib \<Rightarrow> 'j pipeline list \<Rightarrow> 'j broker \<Rightarrow> bool" where
  "bk_calm J pls s \<longleftrightarrow> bk_inv J pls s \<and> (\<forall>th\<in>set (bk_threads s). thread_calm s th)"

lemma bk_calm_start:
  assumes "\<forall>(r, pl)\<in>set threads. role_topics r \<subseteq> known \<and> pl_inv pl"
  shows "bk_calm J (map snd threads) (broker_start known threads)"
proof -
  have "has_topic m t (broker_start known threads)" if "t \<in> known" for m t
    using that by (cases m) (simp_all add: broker_start_def)
  then show ?thesis using assms bk_inv_start [of J threads known]
    by (fastforce simp: bk_calm_def thread_calm_def broker_start_def)
qed

lemma thread_calm_more: "thread_calm s th \<Longrightarrow> (\<And>m t. has_topic m t s \<Longrightarrow> has_topic m t s') \<Longrightarrow> thread_calm s' th"
  by (auto simp: thread_calm_def)

lemma bk_calm_update:
  assumes "bk_calm J pls s" "bk_inv J pls s'" "bk_threads s' = (bk_threads s)[i := th]"
    and "\<And>m t. has_topic m t s \<Longrightarrow> has_topic m t s'" "thread_calm s' th"
  shows "bk_calm J pls s'"
proof -
  have "thread_calm s' th'" if "th' \<in> set (bk_threads s)" for th'
  proof (rule thread_calm_more)
    show "thread_calm s th'" using that assms(1) by (simp add: bk_calm_def)
  qed (rule assms(4))
  then show ?thesis using assms(2,3,5) set_update_subset_insert [of "bk_threads s" i th]
    by (auto simp: bk_calm_def)
qed

lemma has_topic_frame [simp]:
  "has_topic m t (set_code i code s) = has_topic m t s"
  "has_topic m t (s\<lparr>bk_threads := ths\<rparr>) = has_topic m t s" "has_topic m t (s\<lparr>bk_registry := r\<rparr>) = has_topic m t s"
  "has_topic m t (s\<lparr>bk_locks := l\<rparr>) = has_topic m t s" "has_topic m t (s\<lparr>bk_running := b\<rparr>) = has_topic m t s"
  "has_topic m t (s\<lparr>bk_pushed := p\<rparr>) = has_topic m t s" "has_topic m t (s\<lparr>bk_fetched := p\<rparr>) = has_topic m t s"
  "has_topic m t (s\<lparr>bk_ops := ops\<rparr>) = has_topic m t s"
  by (cases m; simp add: set_code_def)+

lemma has_topic_queues:
  "has_topic m t s \<Longrightarrow> has_topic m t (s\<lparr>bk_queues := set_queue t' q (bk_queues s)\<rparr>)"
  by (cases m) (auto simp: set_queue_def)

lemma has_topic_push_fetch:
  assumes "has_topic m t s"
  shows "has_topic m t (s\<lparr>bk_queues := push_envelope t' e (bk_queues s)\<rparr>)"
    "has_topic m t (s\<lparr>bk_queues := snd (fetch_envelope t' (bk_queues s))\<rparr>)"
  using has_topic_queues [OF assms]
  by (simp_all add: push_envelope_def fetch_envelope_def split: list.split)

lemma bk_calm_thread:
  assumes "bk_calm J pls s" "i < length (bk_threads s)"
  shows "thread_calm s (bk_threads s ! i)"
    "touches (code_of i s) \<subseteq> role_topics (th_role (bk_threads s ! i))"
    "code_of i s = Enter m t # rest \<Longrightarrow> has_topic m t s"
proof -
  show calm: "thread_calm s (bk_threads s ! i)" using assms by (simp add: bk_calm_def)
  show sub: "touches (code_of i s) \<subseteq> role_topics (th_role (bk_threads s ! i))"
    using assms bk_inv_thread(1) [of J pls s i] by (simp add: bk_calm_def bk_inv_def thread_inv_def code_of_def)
  show "code_of i s = Enter m t # rest \<Longrightarrow> has_topic m t s" using calm sub by (auto simp: thread_calm_def)
qed

lemma no_map_race:
  assumes "bk_calm J pls s"
  shows "\<not> map_race i m False s"
proof -
  have "\<not> inside m False (code_of j s)" if "j < length (bk_threads s)" for j
    using bk_calm_thread(1) [OF assms that] unfolding thread_calm_def code_of_def
    by (cases "th_code (bk_threads s ! j)" rule: inserting.cases) auto
  then show ?thesis by (auto simp: map_race_def list_ex_iff)
qed

lemma consume_quiet:
  assumes "pl_inv pl" "consume J env e pl = (r, pl')"
  shows "pl_inv pl'" "\<not> le_enabled env \<Longrightarrow> \<exists>b. r = Consumed b"
proof -
  have "pl_inv pl' \<and> (\<not> le_enabled env \<longrightarrow> (\<exists>b. r = Consumed b))"
  proof (cases "decoded J e")
    case None
    then show ?thesis using assms consume_rejects [OF None, of env pl] by auto
  next
    case (Some p)
    note a = consume_accepts [OF Some assms]
    show ?thesis using a(2) pl_inv_counters [OF a(1) assms(1)] by auto
  qed
  then show "pl_inv pl'" "\<not> le_enabled env \<Longrightarrow> \<exists>b. r = Consumed b" by simp_all
qed

lemma bk_calm_step:
  assumes "bk_calm J pls s" "broker_step J a s = Next s'"
  shows "bk_calm J pls s'"
proof -
  have "bk_inv J pls s" using assms(1) by (simp add: bk_calm_def)
  then have inv: "bk_inv J pls s'" using assms(2) by (rule bk_inv_step)
  note update = bk_calm_update [OF assms(1) inv]
  show ?thesis
  proof (cases a)
    case Shutdown
    then show ?thesis using assms inv by (auto simp: bk_calm_def thread_calm_def)
  next
    case (Adapter_message i message)
    then have i: "i < length (bk_threads s)" "begin_publish J i message s = Next s'"
      using assms(2) by (simp_all split: if_splits)
    note calm = bk_calm_thread [OF assms(1) i(1)]
    show ?thesis
    proof (cases "s' = s")
      case False
      then obtain t e where "s' = s\<lparr>bk_threads := (bk_threads s)[i := (bk_threads s ! i)\<lparr>th_code := publish_to_topic t e,
          th_begun := th_begun (bk_threads s ! i) @ [(t, e)]\<rparr>]\<rparr>"
        using i(2) by (auto simp: begin_publish_def Let_def split: broker_role.splits list.splits option.splits)
      then show ?thesis using update calm(1) by (simp add: thread_calm_def)
    qed (use assms in simp)
  next
    case (Run i env)
    then have i: "i < length (bk_threads s)" "broker_exec J env i (code_of i s) s = Next s'"
      using assms(2) by (simp_all split: if_splits)
    note calm = bk_calm_thread [OF assms(1) i(1)]
    have th: "bk_threads s ! i = bk_threads s ! i" "\<not> inserting (code_of i s)" "pl_inv (th_pipeline (bk_threads s ! i))"
      using calm(1) by (simp_all add: thread_calm_def code_of_def)
    have code: "bk_calm J pls s'" if "s' = set_code i c s1" "bk_threads s1 = bk_threads s"
      "\<And>m t. has_topic m t s \<Longrightarrow> has_topic m t s1" "\<not> inserting c" for c s1
      by (rule update [of i "(bk_threads s ! i)\<lparr>th_code := c\<rparr>"])
        (use that calm(1) in \<open>auto simp: threads_set_code thread_calm_def\<close>)
    show ?thesis
    proof (cases "code_of i s")
      case Nil
      then have head: "broker_head i s = Next s'" using i(2) by simp
      then obtain ts where ts: "th_role (bk_threads s ! i) = Subscriber ts"
        by (auto simp: broker_head_def split: broker_role.splits)
      show ?thesis
      proof (cases "bk_running s")
        case True
        then show ?thesis using head ts by (intro code [of "look_at ts" s]) (simp_all add: broker_head_def)
      next
        case False
        then show ?thesis using head ts calm(1)
          by (intro update [of i "(bk_threads s ! i)\<lparr>th_role := Gone\<rparr>"]) (auto simp: broker_head_def thread_calm_def)
      qed
    next
      case (Cons instr rest)
      have rest: "\<not> inserting rest" using th(2) Cons by (cases instr) auto
      show ?thesis
      proof (cases instr)
        case (Enter m t)
        then show ?thesis using i(2) Cons calm(3) [of m t rest] rest
          by (intro code [of "Leave m False # rest" s]) (simp_all add: enter_map_def split: if_splits)
      next
        case (Push t e)
        then show ?thesis using i(2) Cons rest has_topic_push_fetch(1) [of _ _ s t e]
          by (intro code [of rest "s\<lparr>bk_queues := push_envelope t e (bk_queues s),
              bk_pushed := bk_pushed s @ [(i, t, e)], bk_ops := bk_ops s @ [Publish t e]\<rparr>"])
            (auto simp: do_push_def split: if_splits)
      next
        case (Take t ts)
        then have taken: "do_take i t ts s = Next s'" using i(2) Cons by simp
        let ?s = "s\<lparr>bk_queues := snd (fetch_envelope t (bk_queues s)), bk_ops := bk_ops s @ [Fetch t]\<rparr>"
        have keeps: "has_topic m t' ?s" if "has_topic m t' s" for m t'
          using has_topic_push_fetch(2) [OF that, of t] by (cases m) auto
        show ?thesis
        proof (cases "fst (fetch_envelope t (bk_queues s))")
          case None
          then show ?thesis using taken keeps
            by (intro code [of "Unlock t # look_at ts" ?s])
              (simp_all add: do_take_def case_prod_beta Let_def split: if_splits)
        next
          case (Some e)
          then show ?thesis using taken keeps
            by (intro code [of "[Unlock t, Enter Conditions t, Consume e]" "?s\<lparr>bk_fetched := bk_fetched s @ [(i, t, e)]\<rparr>"])
              (simp_all add: do_take_def case_prod_beta Let_def split: if_splits)
        qed
      next
        case (Consume e)
        obtain r pl where r: "consume J env e (th_pipeline (bk_threads s ! i)) = (r, pl)" by fastforce
        have s': "bk_threads s' = (bk_threads s)[i := (bk_threads s ! i)\<lparr>th_code := rest, th_pipeline := pl,
              th_consumed := th_consumed (bk_threads s ! i) @ [(env, e)]\<rparr>]" "\<And>m t. has_topic m t s' = has_topic m t s"
          using i(2) Cons Consume r by (auto simp: do_consume_def Let_def split: if_splits)
        then show ?thesis using consume_quiet(1) [OF th(3) r] calm(1) rest
          by (intro update [OF s'(1)]) (auto simp: thread_calm_def s'(2))
      next
        case Lock_registry
        then show ?thesis using i(2) Cons rest by (intro code [of rest "s\<lparr>bk_registry := Some i\<rparr>"]) (simp_all split: if_splits)
      next
        case Unlock_registry
        then show ?thesis using i(2) Cons rest by (intro code [of rest "s\<lparr>bk_registry := None\<rparr>"]) (simp_all split: if_splits)
      next
        case (Leave m w)
        then show ?thesis using i(2) Cons rest by (intro code [of rest "s"]) (simp_all split: if_splits)
      next
        case (Lock t)
        then show ?thesis using i(2) Cons rest by (intro code [of rest "s\<lparr>bk_locks := (bk_locks s)(t := Some i)\<rparr>"]) (simp_all split: if_splits)
      next
        case (Unlock t)
        then show ?thesis using i(2) Cons rest by (intro code [of rest "s\<lparr>bk_locks := (bk_locks s)(t := None)\<rparr>"]) (simp_all split: if_splits)
      qed
    qed
  qed
qed

interpretation calm_broker: preserved "broker_step J" "bk_calm J pls" for J :: "'j json_lib" and pls
  by unfold_locales (rule bk_calm_step)

lemma calm_no_fault:
  assumes "bk_calm J pls s" "\<And>i env. a = Run i env \<Longrightarrow> \<not> le_enabled env"
  shows "broker_step J a s \<noteq> Fault"
proof (cases a)
  case (Run i env)
  show ?thesis
  proof (cases "i < length (bk_threads s)")
    case True
    note calm = bk_calm_thread [OF assms(1) True]
    have inv: "bk_inv J pls s" "i < length pls" using assms(1) True by (simp_all add: bk_calm_def bk_inv_def)
    note lock = bk_inv_thread(2) [OF inv]
    have ok: "code_ok (code_of i s)" using bk_inv_thread(1) [OF inv] by (simp add: thread_inv_def code_of_def)
    have "broker_exec J env i (code_of i s) s \<noteq> Fault"
    proof (cases "code_of i s")
      case Nil
      then show ?thesis by (simp add: broker_head_def split: broker_role.split)
    next
      case (Cons instr rest)
      show ?thesis
      proof (cases instr)
        case (Enter m t)
        then show ?thesis using Cons calm(3) [of m t rest] no_map_race [OF assms(1)] by (simp add: enter_map_def)
      next
        case (Push t e)
        then show ?thesis using Cons ok lock [of t] by (simp add: do_push_def)
      next
        case (Take t ts)
        then show ?thesis using Cons lock [of t] by (simp add: do_take_def case_prod_beta Let_def)
      next
        case (Consume e)
        obtain r pl where r: "consume J env e (th_pipeline (bk_threads s ! i)) = (r, pl)" by fastforce
        have "pl_inv (th_pipeline (bk_threads s ! i))" using calm(1) by (simp add: thread_calm_def)
        from consume_quiet(2) [OF this r assms(2) [OF Run]] show ?thesis
          using Cons Consume r by (auto simp: do_consume_def Let_def)
      qed (use Cons in simp_all)
    qed
    then show ?thesis using Run True by simp
  qed (use Run in simp)
qed (auto simp: begin_publish_def Let_def split: broker_role.splits list.splits option.splits)

section \<open>The classes around it\<close>

text \<open>\<open>InProcessBrokerPublisher::publish_to_topic\<close> returns true: the queue operations do not throw.
  This is the effect of a call that no other thread disturbs (lemma \<open>publish_undisturbed\<close>).\<close>

definition in_process_publish :: "string \<Rightarrow> 'e \<Rightarrow> 'e topics \<Rightarrow> publish_result \<times> 'e topics" where
  "in_process_publish t e q = (Published True, push_envelope t e q)"

text \<open>How a subscriber's \<open>run\<close> ends.\<close>

datatype run_end = Running | Returned | Left_by_exception

record broker_aggregator =
  ba_name :: string
  ba_consume_topics :: "string list"
  ba_publish_topic :: string

text \<open>\<open>BrokerAggregator::run\<close> announces itself and runs the subscriber it was given; neither the
  publisher nor the topic to publish to is used.\<close>

definition aggregator_banner :: "broker_aggregator \<Rightarrow> string" where
  "aggregator_banner a =
     ''['' @ ba_name a @ ''] Starting aggregator'' @ nl
     @ ''['' @ ba_name a @ ''] Consumes from: '' @ concat (map (\<lambda>t. t @ '' '') (ba_consume_topics a)) @ nl
     @ ''['' @ ba_name a @ ''] Publishes to: '' @ ba_publish_topic a @ nl @ nl"

definition aggregator_run :: "broker_aggregator \<Rightarrow> ('s \<Rightarrow> run_end \<times> 's) \<Rightarrow> 's \<Rightarrow> run_end \<times> string \<times> 's" where
  "aggregator_run a subscriber_run s =
     (let (r, s') = subscriber_run s in
      (r, aggregator_banner a @ (if r = Returned then ''['' @ ba_name a @ ''] Stopped aggregator'' @ nl else []), s'))"

section \<open>The Asia consumer\<close>

text \<open>\<open>aggregator/asia/main.cpp\<close>: a subscriber that feeds a pipeline without a callback, and the
  client threads of a TCP adapter, which publish on its topic.  No topic is known when they start.\<close>

definition asia_topic :: string where
  "asia_topic = ''asia_events''"

definition asia_start :: "nat \<Rightarrow> 'j broker" where
  "asia_start clients = broker_start {} ((Subscriber [asia_topic], pipeline_new ''asia_consumer'' False)
     # replicate clients (Publisher asia_topic, pipeline_new ''asia_consumer'' False))"

section \<open>First in, first out\<close>

lemmas broker_eval = broker_start_def set_code_def code_of_def begin_publish_def enter_map_def map_race_def
  do_push_def broker_head_def push_envelope_def set_queue_def queue_for_topic_def publish_to_topic_def

text \<open>The start of \<open>run\<close> and the first message of a client can race on the map of the mutexes.\<close>

lemma asia_race:
  assumes "parse_envelope J message = Some e"
  shows "run_steps (broker_step J)
    [Run 0 env, Run 0 env, Adapter_message 1 message, Run 1 env, Run 1 env, Run 1 env, Run 1 env] (asia_start 1) = Fault"
  using assms by (simp add: asia_start_def broker_eval upt_conv_Cons)

text \<open>Undisturbed, the instructions of \<open>publish_to_topic\<close> are what \<open>InProcessBrokerPublisher\<close> promises.\<close>

lemma publish_undisturbed:
  assumes "parse_envelope J message = Some e"
  shows "\<exists>s. run_steps (broker_step J) (Adapter_message 0 message # replicate 17 (Run 0 env))
      (broker_start {} [(Publisher t, pl)]) = Next s
    \<and> Published True = fst (in_process_publish t e (\<lambda>t. None))
    \<and> bk_queues s = snd (in_process_publish t e (\<lambda>t. None)) \<and> bk_pushed s = [(0, t, e)] \<and> code_of 0 s = []"
  using assms by (simp add: broker_eval in_process_publish_def numeral_eq_Suc fun_eq_iff)

text \<open>
  C30: every topic of the in-process broker is a loss-free FIFO channel, as long as the process
  lives.  However publishers and subscribers interleave between any two of their lock operations
  and map accesses, what was fetched from a topic followed by what waits in it is what was pushed on
  it, in order; each publisher's envelopes are pushed in the order of its calls, and each
  subscriber's pipeline has consumed exactly what it fetched, in order, but for the envelope it holds.
  When the topics of all threads are in the maps from the start and logging is off, no step ends the
  process.  In the Asia consumer they are not: some interleaving of its first message with the start
  of its subscriber is a data race on a map.
\<close>

theorem broker_topics_fifo:
  assumes "reaches (broker_step J) (broker_start known threads) s"
  shows "(\<forall>t. on_topic t (map snd (bk_fetched s)) @ queue_for_topic (bk_queues s) t
        = on_topic t (map snd (bk_pushed s)))
    \<and> (\<forall>i<length threads.
        th_begun (bk_threads s ! i) = of_thread i (bk_pushed s) @ to_push (code_of i s)
      \<and> map snd (of_thread i (bk_fetched s)) = map snd (th_consumed (bk_threads s ! i)) @ to_consume (code_of i s)
      \<and> th_pipeline (bk_threads s ! i) = snd (consume_all J (th_consumed (bk_threads s ! i)) (snd (threads ! i))))
    \<and> ((\<forall>(r, pl)\<in>set threads. role_topics r \<subseteq> known \<and> pl_inv pl) \<longrightarrow>
        (\<forall>a. (\<forall>i env. a = Run i env \<longrightarrow> \<not> le_enabled env) \<longrightarrow> broker_step J a s \<noteq> Fault))
    \<and> (\<forall>message e. parse_envelope J message = Some e \<longrightarrow>
        (\<exists>as. run_steps (broker_step J) as (asia_start 1) = Fault))"
proof (intro conjI impI allI)
  have inv: "bk_inv J (map snd threads) s"
    using broker.reaches_good [OF assms bk_inv_start] .
  show "on_topic t (map snd (bk_fetched s)) @ queue_for_topic (bk_queues s) t = on_topic t (map snd (bk_pushed s))" for t
    using inv registry.run_from_start [of t "bk_ops s"] by (simp add: bk_inv_def)
  fix i
  assume i: "i < length threads"
  with bk_inv_thread(1) [OF inv, of i] show
    "th_begun (bk_threads s ! i) = of_thread i (bk_pushed s) @ to_push (code_of i s)"
    "map snd (of_thread i (bk_fetched s)) = map snd (th_consumed (bk_threads s ! i)) @ to_consume (code_of i s)"
    "th_pipeline (bk_threads s ! i) = snd (consume_all J (th_consumed (bk_threads s ! i)) (snd (threads ! i)))"
    by (simp_all add: thread_inv_def code_of_def)
next
  fix a
  assume "\<forall>(r, pl)\<in>set threads. role_topics r \<subseteq> known \<and> pl_inv pl" "\<forall>i env. a = Run i env \<longrightarrow> \<not> le_enabled env"
  then show "broker_step J a s \<noteq> Fault"
    using calm_no_fault [OF calm_broker.reaches_good [OF assms bk_calm_start]] by blast
next
  fix message e
  assume "parse_envelope J message = Some e"
  from asia_race [OF this] show "\<exists>as. run_steps (broker_step J) as (asia_start 1) = Fault" by blast
qed

theorem broker_topics_fifo_witness:
  "\<forall>pl env. \<exists>s. reaches (broker_step one_line) (broker_start {} [(Publisher ''t'', pl)]) s
     \<and> bk_pushed s = [(0, ''t'', demo_envelope)]
     \<and> on_topic ''t'' (map snd (bk_fetched s)) @ queue_for_topic (bk_queues s) ''t'' = [demo_envelope]"
proof (intro allI)
  fix pl :: "demo pipeline" and env :: log_env
  have "parse_envelope one_line (envelope_text one_line demo_envelope) = Some demo_envelope"
    using one_line_ok(1) by (simp add: line_ok_def)
  from publish_undisturbed [OF this, of env "''t''" pl] obtain s where
    s: "run_steps (broker_step one_line) (Adapter_message 0 (envelope_text one_line demo_envelope)
        # replicate 17 (Run 0 env)) (broker_start {} [(Publisher ''t'', pl)]) = Next s"
      "bk_pushed s = [(0, ''t'', demo_envelope)]" by blast
  note r = run_steps_reaches [OF s(1) Here]
  from broker_topics_fifo [OF r] r s(2) show "\<exists>s. reaches (broker_step one_line) (broker_start {} [(Publisher ''t'', pl)]) s
     \<and> bk_pushed s = [(0, ''t'', demo_envelope)]
     \<and> on_topic ''t'' (map snd (bk_fetched s)) @ queue_for_topic (bk_queues s) ''t'' = [demo_envelope]"
    by (intro exI [of _ s]) simp
qed

end
