(* ===== verification/Comparator.thy ===== *)
theory Comparator
  imports Ring_Buffer Http Db_Client "HOL-Library.Monad_Syntax"
begin

text \<open>
  \<open>services/personal_comparator/main.cpp\<close>: three threads joined by two lock-free rings.  The
  telemetry server cuts the byte stream of a client into lines and pushes an event per line; the
  real-time thread pops an event, compares it with the baseline of its hour, may trigger the
  actuator and pushes a record; the database thread pops records and runs one statement each.

  The calls of the rings are the sequential operations of \<open>Ring_Buffer\<close>; a step of a thread is
  one call.  The hour of a time is that of \<open>localtime_r\<close>, a parameter.  Here the process runs;
  \<open>Comparator_Process\<close> adds the \<open>running\<close> flag, start-up and the end.
\<close>

record telemetry_event =
  te_profile_id :: string
  te_value :: double
  te_timestamp :: int

record comparison_record =
  cr_timestamp :: int
  cr_profile_id :: string
  cr_live_value :: double
  cr_baseline_value :: double
  cr_variance :: double
  cr_actuation_active :: bool

record baseline_profile =
  bp_profile_id :: string
  bp_metric_name :: string
  bp_threshold :: double
  bp_baselines :: "double list"

section \<open>The configuration\<close>

text \<open>\<open>get<std::vector<double>>()\<close>.\<close>

definition get_doubles :: "'j json_lib \<Rightarrow> 'j \<Rightarrow> double list option" where
  "get_doubles J v = (if j_is_array J v then those (map (j_get_double J) (j_elems J v)) else None)"

text \<open>None when the function returns false, which ends the program.\<close>

definition load_baseline_file :: "'j json_lib \<Rightarrow> bool \<Rightarrow> 'j option \<Rightarrow> baseline_profile option" where
  "load_baseline_file J opened parsed =
     (if \<not> opened then None
      else do {
        data \<leftarrow> parsed;
        profile \<leftarrow> at_get J j_get_string data ''profile_id'';
        metric \<leftarrow> at_get J j_get_string data ''metric_name'';
        threshold \<leftarrow> at_get J j_get_double data ''threshold'';
        baselines \<leftarrow> at_get J get_doubles data ''baselines'';
        if length baselines \<noteq> 24 then None
        else Some \<lparr>bp_profile_id = profile, bp_metric_name = metric, bp_threshold = threshold,
          bp_baselines = baselines\<rparr>
      })"

text \<open>The command line: a value follows each option.  \<open>stoi\<close> throws out of \<open>main\<close>.\<close>

fun comparator_args :: "string list \<Rightarrow> string \<times> int \<Rightarrow> parse_error + (string \<times> int)" where
  "comparator_args [] cfg = Inr cfg"
| "comparator_args [a] cfg = Inr cfg"
| "comparator_args (a # v # rest) cfg =
     (if a = ''--baseline'' then comparator_args rest (v, snd cfg)
      else if a = ''--port'' then
        (case stoi v of Inl err \<Rightarrow> Inl err | Inr port \<Rightarrow> comparator_args rest (fst cfg, port))
      else comparator_args (v # rest) cfg)"

definition comparator_defaults :: "string \<times> int" where
  "comparator_defaults = (''configs/baseline_crop.json'', 14101)"

section \<open>The telemetry server\<close>

text \<open>\<open>strncpy\<close> into a \<open>char[32]\<close> whose last byte is then cleared, read as a C string.\<close>

definition char32 :: "string \<Rightarrow> string" where
  "char32 s = take 31 (c_str s)"

definition telemetry_event_of :: "'j json_lib \<Rightarrow> baseline_profile \<Rightarrow> string \<Rightarrow> telemetry_event option" where
  "telemetry_event_of J profile line = do {
     envelope \<leftarrow> j_parse J line;
     content \<leftarrow> j_at J envelope ''payload'';
     v \<leftarrow> at_get J j_get_double content
       (if bp_profile_id profile = ''crop_moisture'' then ''humidity'' else ''temperature'');
     ts \<leftarrow> at_get J j_get_long content ''timestamp'';
     Some \<lparr>te_profile_id = char32 (bp_profile_id profile), te_value = v, te_timestamp = ts\<rparr>
   }"

text \<open>The inner loop: the complete lines of the buffer and what is left of it.\<close>

function cut_lines :: "string \<Rightarrow> string list \<times> string" where
  "cut_lines buffer = (case split_at (CHR 0x0A) buffer of
      (line, None) \<Rightarrow> ([], buffer)
    | (line, Some rest) \<Rightarrow> (let (ls, r) = cut_lines rest in (line # ls, r)))"
  by pat_completeness auto
termination
  by (relation "measure length") (auto dest: split_at_shorter [OF sym])

declare cut_lines.simps [simp del]

text \<open>A line that does not hold an event is reported; an event may find the ring full.\<close>

definition handle_line :: "'j json_lib \<Rightarrow> baseline_profile \<Rightarrow> string \<Rightarrow> telemetry_event ring \<Rightarrow>
    telemetry_event ring option" where
  "handle_line J profile line ring = (case telemetry_event_of J profile line of
      None \<Rightarrow> Some ring
    | Some event \<Rightarrow> map_option snd (rb_push ring event))"

fun handle_lines :: "'j json_lib \<Rightarrow> baseline_profile \<Rightarrow> string list \<Rightarrow> telemetry_event ring \<Rightarrow>
    telemetry_event ring option" where
  "handle_lines J profile [] ring = Some ring"
| "handle_lines J profile (line # ls) ring =
     Option.bind (handle_line J profile line ring) (handle_lines J profile ls)"

text \<open>The loop over \<open>recv\<close> for one client, with the readings of the flag.\<close>

fun telemetry_client :: "'j json_lib \<Rightarrow> baseline_profile \<Rightarrow> (bool \<times> recv_result) list \<Rightarrow> string \<Rightarrow>
    telemetry_event ring \<Rightarrow> telemetry_event ring option" where
  "telemetry_client J profile [] buffer ring = Some ring"
| "telemetry_client J profile ((running, received) # rest) buffer ring =
     (if \<not> running then Some ring
      else (case received of
          Received chunk \<Rightarrow>
            (let (ls, buffer') = cut_lines (buffer @ chunk)
             in Option.bind (handle_lines J profile ls ring) (telemetry_client J profile rest buffer'))
        | _ \<Rightarrow> Some ring))"

text \<open>Set-up of the listening socket: whether the server runs, and the descriptor it closes.\<close>

definition telemetry_server_setup :: "int \<Rightarrow> int \<Rightarrow> int \<Rightarrow> bool \<times> sys_call list" where
  "telemetry_server_setup server_fd bind_result listen_result =
     (if server_fd < 0 then (False, [])
      else if bind_result < 0 then (False, [Sys_close server_fd])
      else if listen_result < 0 then (False, [Sys_close server_fd])
      else (True, []))"

section \<open>The real-time thread\<close>

definition comparison :: "(int \<Rightarrow> nat) \<Rightarrow> baseline_profile \<Rightarrow> telemetry_event \<Rightarrow> comparison_record" where
  "comparison hour_of profile event =
     (let hour = hour_of (trunc_div (te_timestamp event) 1000);
          baseline = bp_baselines profile ! hour;
          variance = d_abs (d_sub (te_value event) baseline)
      in \<lparr>cr_timestamp = te_timestamp event, cr_profile_id = char32 (te_profile_id event),
          cr_live_value = te_value event, cr_baseline_value = baseline, cr_variance = variance,
          cr_actuation_active = d_gt variance (bp_threshold profile)\<rparr>)"

text \<open>The array access is defined for an hour below 24 only.\<close>

definition compare_event :: "(int \<Rightarrow> nat) \<Rightarrow> baseline_profile \<Rightarrow> telemetry_event \<Rightarrow> comparison_record option" where
  "compare_event hour_of profile event =
     (if hour_of (trunc_div (te_timestamp event) 1000) < length (bp_baselines profile)
      then Some (comparison hour_of profile event) else None)"

section \<open>The database thread\<close>

definition comparison_sql :: "comparison_record \<Rightarrow> string" where
  "comparison_sql r =
     ''INSERT INTO personal_realtime_comparisons ''
     @ ''(event_time, profile_id, live_value, baseline_value, variance, actuation_active) ''
     @ ''VALUES (to_timestamp('' @ to_string (cr_timestamp r) @ '' / 1000.0), '' @ [CHR 0x27]
     @ cr_profile_id r @ [CHR 0x27] @ '', ''
     @ to_string_double (cr_live_value r) @ '', ''
     @ to_string_double (cr_baseline_value r) @ '', ''
     @ to_string_double (cr_variance r) @ '', ''
     @ (if cr_actuation_active r then ''TRUE'' else ''FALSE'') @ '') ''
     @ ''ON CONFLICT (event_time, profile_id) DO NOTHING;''"

datatype sync_call = Sync_exec string | Sync_system string

definition psql_insert_command :: "string \<Rightarrow> string" where
  "psql_insert_command sql =
     ''PGPASSWORD=weather_secret psql -h 127.0.0.1 -U weather_rtos -d weather_rtos -c '' @ [CHR 0x22]
     @ sql @ [CHR 0x22] @ '' >/dev/null 2>&1''"

definition sync_write :: "bool \<Rightarrow> comparison_record \<Rightarrow> sync_call" where
  "sync_write linked r = (if linked then Sync_exec (comparison_sql r)
     else Sync_system (psql_insert_command (comparison_sql r)))"

section \<open>The three threads together\<close>

text \<open>\<open>co_pending\<close> is the record the real-time thread is trying to push.  The last two members
  record the events accepted by the first ring and the records taken from the second.\<close>

record comparator =
  co_ingest :: "telemetry_event ring"
  co_sync :: "comparison_record ring"
  co_pending :: "comparison_record option"
  co_actuated :: "comparison_record list"
  co_writes :: "sync_call list"
  co_accepted :: "telemetry_event list"
  co_taken :: "comparison_record list"

definition comparator_new :: "telemetry_event \<Rightarrow> comparison_record \<Rightarrow> comparator option" where
  "comparator_new e0 r0 = do {
     ingest \<leftarrow> rb_new e0 2048;
     sync \<leftarrow> rb_new r0 2048;
     Some \<lparr>co_ingest = ingest, co_sync = sync, co_pending = None, co_actuated = [], co_writes = [],
       co_accepted = [], co_taken = []\<rparr>
   }"

datatype thread_step = Server_line string | Rt_step | Db_step

definition server_step :: "'j json_lib \<Rightarrow> baseline_profile \<Rightarrow> string \<Rightarrow> comparator \<Rightarrow> comparator option" where
  "server_step J profile line s = (case telemetry_event_of J profile line of
      None \<Rightarrow> Some s
    | Some event \<Rightarrow> map_option (\<lambda>(ok, ring).
        s\<lparr>co_ingest := ring, co_accepted := co_accepted s @ (if ok then [event] else [])\<rparr>)
        (rb_push (co_ingest s) event))"

definition rt_step :: "(int \<Rightarrow> nat) \<Rightarrow> baseline_profile \<Rightarrow> comparator \<Rightarrow> comparator option" where
  "rt_step hour_of profile s = (case co_pending s of
      Some r \<Rightarrow> map_option (\<lambda>(ok, ring).
        s\<lparr>co_sync := ring, co_pending := (if ok then None else Some r)\<rparr>) (rb_push (co_sync s) r)
    | None \<Rightarrow> (case rb_pop (co_ingest s) of
        None \<Rightarrow> None
      | Some (None, ring) \<Rightarrow> Some (s\<lparr>co_ingest := ring\<rparr>)
      | Some (Some event, ring) \<Rightarrow> map_option (\<lambda>r.
          s\<lparr>co_ingest := ring, co_pending := Some r,
            co_actuated := co_actuated s @ (if cr_actuation_active r then [r] else [])\<rparr>)
          (compare_event hour_of profile event)))"

definition db_step :: "bool \<Rightarrow> comparator \<Rightarrow> comparator option" where
  "db_step linked s = (case rb_pop (co_sync s) of
      None \<Rightarrow> None
    | Some (None, ring) \<Rightarrow> Some (s\<lparr>co_sync := ring\<rparr>)
    | Some (Some r, ring) \<Rightarrow> Some (s\<lparr>co_sync := ring, co_writes := co_writes s @ [sync_write linked r],
        co_taken := co_taken s @ [r]\<rparr>))"

fun comparator_step :: "'j json_lib \<Rightarrow> (int \<Rightarrow> nat) \<Rightarrow> baseline_profile \<Rightarrow> bool \<Rightarrow> thread_step \<Rightarrow>
    comparator \<Rightarrow> comparator option" where
  "comparator_step J hour_of profile linked (Server_line line) s = server_step J profile line s"
| "comparator_step J hour_of profile linked Rt_step s = rt_step hour_of profile s"
| "comparator_step J hour_of profile linked Db_step s = db_step linked s"

fun comparator_run :: "'j json_lib \<Rightarrow> (int \<Rightarrow> nat) \<Rightarrow> baseline_profile \<Rightarrow> bool \<Rightarrow> thread_step list \<Rightarrow>
    comparator \<Rightarrow> comparator option" where
  "comparator_run J hour_of profile linked [] s = Some s"
| "comparator_run J hour_of profile linked (t # ts) s =
     Option.bind (comparator_step J hour_of profile linked t s)
       (comparator_run J hour_of profile linked ts)"

section \<open>What the threads preserve\<close>

definition pending_list :: "comparator \<Rightarrow> comparison_record list" where
  "pending_list s = (case co_pending s of None \<Rightarrow> [] | Some r \<Rightarrow> [r])"

text \<open>The records made so far: taken, waiting in the second ring, or being pushed.\<close>

definition made :: "comparator \<Rightarrow> comparison_record list" where
  "made s = co_taken s @ rb_items (co_sync s) @ pending_list s"

definition co_inv :: "(int \<Rightarrow> nat) \<Rightarrow> baseline_profile \<Rightarrow> bool \<Rightarrow> comparator \<Rightarrow> bool" where
  "co_inv hour_of profile linked s \<longleftrightarrow>
     rb_inv (co_ingest s) \<and> rb_inv (co_sync s)
     \<and> rb_room (co_ingest s) = 2047 \<and> rb_room (co_sync s) = 2047
     \<and> map (comparison hour_of profile) (co_accepted s)
         = made s @ map (comparison hour_of profile) (rb_items (co_ingest s))
     \<and> co_writes s = map (sync_write linked) (co_taken s)
     \<and> co_actuated s = filter cr_actuation_active (made s)"

lemma comparator_new_inv:
  assumes "comparator_new e0 r0 = Some s"
  shows "co_inv hour_of profile linked s \<and> co_accepted s = [] \<and> co_taken s = []"
proof -
  from assms obtain a b where ab: "rb_new e0 2048 = Some a" "rb_new r0 2048 = Some b"
    and s: "s = \<lparr>co_ingest = a, co_sync = b, co_pending = None, co_actuated = [], co_writes = [],
       co_accepted = [], co_taken = []\<rparr>"
    by (auto simp: comparator_new_def split: bind_splits)
  then show ?thesis
    using rb_new_inv [OF ab(1)] rb_new_inv [OF ab(2)]
    by (simp add: co_inv_def made_def pending_list_def)
qed

lemma server_step_inv:
  assumes "co_inv hour_of profile linked s"
  shows "\<exists>s'. server_step J profile line s = Some s' \<and> co_inv hour_of profile linked s'"
proof (cases "telemetry_event_of J profile line")
  case None
  then show ?thesis using assms by (simp add: server_step_def)
next
  case (Some event)
  have inv: "rb_inv (co_ingest s)" using assms by (simp add: co_inv_def)
  then show ?thesis
  proof (cases rule: rb.enq_cases [of _ event])
    case (1 ring)
    then show ?thesis using assms Some
      by (simp add: server_step_def co_inv_def made_def pending_list_def)
  next
    case 2
    then show ?thesis using assms Some
      by (simp add: server_step_def co_inv_def made_def pending_list_def)
  qed
qed

lemma rt_step_inv:
  assumes "co_inv hour_of profile linked s" "\<And>t. hour_of t < length (bp_baselines profile)"
  shows "\<exists>s'. rt_step hour_of profile s = Some s' \<and> co_inv hour_of profile linked s'"
proof (cases "co_pending s")
  case (Some r)
  have inv: "rb_inv (co_sync s)" using assms(1) by (simp add: co_inv_def)
  then show ?thesis
  proof (cases rule: rb.enq_cases [of _ r])
    case (1 ring)
    then show ?thesis using assms(1) Some
      by (simp add: rt_step_def co_inv_def made_def pending_list_def)
  next
    case 2
    then show ?thesis using assms(1) Some
      by (simp add: rt_step_def co_inv_def made_def pending_list_def)
  qed
next
  case None
  have inv: "rb_inv (co_ingest s)" using assms(1) by (simp add: co_inv_def)
  then show ?thesis
  proof (cases rule: rb.deq_cases)
    case (1 ring event)
    then show ?thesis using assms None
      by (simp add: rt_step_def compare_event_def co_inv_def made_def pending_list_def)
  next
    case 2
    then show ?thesis using assms(1) None
      by (simp add: rt_step_def co_inv_def made_def pending_list_def)
  qed
qed

lemma db_step_inv:
  assumes "co_inv hour_of profile linked s"
  shows "\<exists>s'. db_step linked s = Some s' \<and> co_inv hour_of profile linked s'"
proof -
  have inv: "rb_inv (co_sync s)" using assms by (simp add: co_inv_def)
  then show ?thesis
  proof (cases rule: rb.deq_cases)
    case (1 ring r)
    then show ?thesis using assms
      by (simp add: db_step_def co_inv_def made_def pending_list_def)
  next
    case 2
    then show ?thesis using assms
      by (simp add: db_step_def co_inv_def made_def pending_list_def)
  qed
qed

lemma comparator_run_inv:
  assumes "\<And>t. hour_of t < length (bp_baselines profile)"
  shows "co_inv hour_of profile linked s \<Longrightarrow>
    \<exists>s'. comparator_run J hour_of profile linked ts s = Some s' \<and> co_inv hour_of profile linked s'"
proof (induction ts arbitrary: s)
  case (Cons t ts)
  have "\<exists>s'. comparator_step J hour_of profile linked t s = Some s' \<and> co_inv hour_of profile linked s'"
    using server_step_inv rt_step_inv [where hour_of = hour_of, OF _ assms] db_step_inv Cons.prems by (cases t) simp_all
  then show ?case using Cons.IH by fastforce
qed simp

text \<open>
  C31: the comparator under any interleaving of its three threads.  When the profile has a
  baseline for every hour, no step reads outside an array; the database thread has written, in
  order, a prefix of the comparisons of the events the first ring accepted, one statement each;
  the rest is in the second ring (at most 2047), in the hands of the real-time thread (at most
  one) or still to be compared (at most 2047); and the actuator was triggered exactly for the
  comparisons made whose variance exceeds the threshold, in order.
\<close>

theorem comparator_pipeline:
  assumes "\<And>t. hour_of t < length (bp_baselines profile)" "comparator_new e0 r0 = Some s0"
  shows "\<exists>s. comparator_run J hour_of profile linked ts s0 = Some s
    \<and> (let compared = map (comparison hour_of profile) (co_accepted s); todo = rb_items (co_ingest s)
       in compared = made s @ map (comparison hour_of profile) todo
        \<and> co_writes s = map (sync_write linked) (take (length (co_taken s)) compared)
        \<and> length (co_taken s) + length (rb_items (co_sync s)) + length (pending_list s) + length todo
            = length compared
        \<and> length (rb_items (co_sync s)) \<le> 2047 \<and> length (pending_list s) \<le> 1 \<and> length todo \<le> 2047
        \<and> co_actuated s = filter (\<lambda>r. d_gt (cr_variance r) (bp_threshold profile)) (made s))"
proof -
  obtain s where run: "comparator_run J hour_of profile linked ts s0 = Some s"
    and inv: "co_inv hour_of profile linked s"
    using comparator_run_inv [where hour_of = hour_of, OF assms(1)]
      comparator_new_inv [OF assms(2), where hour_of = hour_of] by blast
  have rings: "length (rb_items (co_sync s)) \<le> 2047" "length (rb_items (co_ingest s)) \<le> 2047"
    using inv rb.room_bound [of "co_sync s"] rb.room_bound [of "co_ingest s"]
    by (simp_all add: co_inv_def)
  have all: "map (comparison hour_of profile) (co_accepted s)
      = made s @ map (comparison hour_of profile) (rb_items (co_ingest s))"
    using inv by (simp add: co_inv_def)
  have active: "cr_actuation_active r = d_gt (cr_variance r) (bp_threshold profile)" if "r \<in> set (made s)" for r
  proof -
    have "r \<in> comparison hour_of profile ` set (co_accepted s)" using arg_cong [OF all, of set] that by auto
    then show ?thesis by (auto simp: comparison_def Let_def)
  qed
  have "length (pending_list s) \<le> 1" by (simp add: pending_list_def split: option.split)
  moreover have "take (length (co_taken s)) (made s @ xs) = co_taken s" for xs by (simp add: made_def)
  moreover have "co_actuated s = filter (\<lambda>r. d_gt (cr_variance r) (bp_threshold profile)) (made s)"
    using inv active by (simp add: co_inv_def cong: filter_cong)
  moreover have "length (co_taken s) + length (rb_items (co_sync s)) + length (pending_list s)
      = length (made s)" by (simp add: made_def)
  moreover have "length (co_accepted s) = length (made s) + length (rb_items (co_ingest s))"
    using arg_cong [OF all, of length] by simp
  ultimately show ?thesis using run rings inv
    by (simp add: all Let_def co_inv_def)
qed

definition demo_profile :: baseline_profile where
  "demo_profile = \<lparr>bp_profile_id = ''crop_moisture'', bp_metric_name = [], bp_threshold = Fin 5,
     bp_baselines = replicate 24 (Fin 45)\<rparr>"

definition demo_event :: telemetry_event where
  "demo_event = \<lparr>te_profile_id = [], te_value = Fin 0, te_timestamp = 0\<rparr>"

theorem comparator_pipeline_witness:
  "\<forall>J. \<exists>s0 s. comparator_new demo_event (comparison (\<lambda>t. 7) demo_profile demo_event) = Some s0
     \<and> comparator_run J (\<lambda>t. 7) demo_profile True [Server_line ''x'', Rt_step, Rt_step, Db_step] s0 = Some s
     \<and> length (rb_items (co_sync s)) \<le> 2047"
proof (rule allI)
  fix J :: "'a json_lib"
  have hours: "(7::nat) < length (bp_baselines demo_profile)" by (simp add: demo_profile_def)
  obtain s0 where s0:
    "comparator_new demo_event (comparison (\<lambda>t. 7) demo_profile demo_event) = Some s0"
    by (simp add: comparator_new_def rb_new_def)
  from comparator_pipeline [OF hours s0, of J True "[Server_line ''x'', Rt_step, Rt_step, Db_step]"] s0
  show "\<exists>s0 s. comparator_new demo_event (comparison (\<lambda>t. 7) demo_profile demo_event) = Some s0
     \<and> comparator_run J (\<lambda>t. 7) demo_profile True [Server_line ''x'', Rt_step, Rt_step, Db_step] s0 = Some s
     \<and> length (rb_items (co_sync s)) \<le> 2047"
    by (auto simp: Let_def)
qed

section \<open>Framing\<close>

lemma cut_lines_rest: "CHR 0x0A \<notin> set b \<Longrightarrow> cut_lines b = ([], b)"
  by (simp add: cut_lines.simps [of b] split_at_None)

lemma cut_lines_step: "CHR 0x0A \<notin> set a \<Longrightarrow>
  cut_lines (a @ CHR 0x0A # b) = (a # fst (cut_lines b), snd (cut_lines b))"
  by (simp add: cut_lines.simps [of "a @ CHR 0x0A # b"] split_at_Some case_prod_beta)

lemma cut_lines_induct:
  assumes "\<And>b. CHR 0x0A \<notin> set b \<Longrightarrow> P b"
    and "\<And>a b. CHR 0x0A \<notin> set a \<Longrightarrow> P b \<Longrightarrow> P (a @ CHR 0x0A # b)"
  shows "P b"
proof (induction "length b" arbitrary: b rule: less_induct)
  case less
  show ?case
  proof (cases "CHR 0x0A \<in> set b")
    case True
    then obtain x y where "b = x @ CHR 0x0A # y" "CHR 0x0A \<notin> set x" by (metis split_list_first)
    then show ?thesis using less assms(2) by simp
  qed (simp add: assms(1))
qed

text \<open>Cutting in two goes is cutting once.\<close>

lemma cut_lines_append:
  "cut_lines (b @ c) = (fst (cut_lines b) @ fst (cut_lines (snd (cut_lines b) @ c)),
     snd (cut_lines (snd (cut_lines b) @ c)))"
  by (induction b rule: cut_lines_induct) (simp_all add: cut_lines_rest cut_lines_step)

lemma cut_lines_snd: "CHR 0x0A \<notin> set (snd (cut_lines b))"
  by (induction b rule: cut_lines_induct) (simp_all add: cut_lines_rest cut_lines_step)

lemma handle_lines_append: "handle_lines J profile (xs @ ys) ring
  = Option.bind (handle_lines J profile xs ring) (handle_lines J profile ys)"
proof (induction xs arbitrary: ring)
  case (Cons a xs)
  then show ?case by (cases "handle_line J profile a ring") simp_all
qed simp

text \<open>A client whose data arrives in pieces and who then hangs up.\<close>

lemma telemetry_pieces:
  "CHR 0x0A \<notin> set b \<Longrightarrow>
   telemetry_client J profile (map (\<lambda>c. (True, Received c)) chunks @ [(True, Peer_closed)]) b ring
     = handle_lines J profile (fst (cut_lines (b @ concat chunks))) ring"
proof (induction chunks arbitrary: b ring)
  case Nil
  then show ?case by (simp add: cut_lines_rest)
next
  case (Cons c chunks)
  have "cut_lines (b @ c @ concat chunks)
      = (fst (cut_lines (b @ c)) @ fst (cut_lines (snd (cut_lines (b @ c)) @ concat chunks)),
         snd (cut_lines (snd (cut_lines (b @ c)) @ concat chunks)))"
    using cut_lines_append [of "b @ c" "concat chunks"] by simp
  then show ?case
    using Cons.IH [OF cut_lines_snd, of "b @ c"]
    by (cases "handle_lines J profile (fst (cut_lines (b @ c))) ring")
      (simp_all add: case_prod_beta handle_lines_append)
qed

text \<open>The lines of a text read character by character; what follows the last newline is not one.\<close>

fun lines_from :: "string \<Rightarrow> string \<Rightarrow> string list" where
  "lines_from acc [] = []"
| "lines_from acc (c # s) = (if c = CHR 0x0A then acc # lines_from [] s else lines_from (acc @ [c]) s)"

lemma lines_from_rest: "CHR 0x0A \<notin> set b \<Longrightarrow> lines_from acc b = []"
  by (induction b arbitrary: acc) auto

lemma lines_from_step: "CHR 0x0A \<notin> set a \<Longrightarrow> lines_from acc (a @ CHR 0x0A # b) = (acc @ a) # lines_from [] b"
  by (induction a arbitrary: acc) auto

lemma cut_lines_reference: "fst (cut_lines b) = lines_from [] b"
  by (induction b rule: cut_lines_induct)
    (simp_all add: cut_lines_rest cut_lines_step lines_from_rest lines_from_step)

text \<open>
  C32: the telemetry server does not depend on how the network cuts the stream.  However the
  bytes of a client are split into segments, the ring receives the events of the lines of the
  whole text, read character by character, in order; a last line without its newline is ignored.
\<close>

theorem telemetry_framing:
  "telemetry_client J profile (map (\<lambda>c. (True, Received c)) chunks @ [(True, Peer_closed)]) [] ring
   = handle_lines J profile (lines_from [] (concat chunks)) ring"
  using telemetry_pieces [of "[]" J profile chunks ring] by (simp add: cut_lines_reference)

end
