(* ===== verification/Collectors.thy ===== *)
theory Collectors
  imports Tcp_Delivery
begin

text \<open>
  \<open>collectors/regional/main.cpp\<close> and \<open>collectors/south_india/main.cpp\<close>, with
  \<open>common/utils/CitySampling.hpp\<close> and \<open>RuntimeConfig.hpp\<close>: one thread per city polls a weather
  service at five points, turns each answer into a packet and puts it into a bounded queue; a
  sender thread takes packets out, wraps them and publishes them.  The HTTP library, the clock
  and the files are arguments.  The two collectors share their polling code; they differ in
  where the cities come from and in the names they send under.
\<close>

section \<open>Sample points and the host\<close>

record city_sample_point =
  sp_label :: string
  sp_layer :: string
  sp_latitude :: double
  sp_longitude :: double

definition make_city_sample_points :: "string \<Rightarrow> double \<Rightarrow> double \<Rightarrow> double \<Rightarrow> city_sample_point list" where
  "make_city_sample_points c lat lon offset =
     [\<lparr>sp_label = c @ ''_center'', sp_layer = ''city_center'', sp_latitude = lat, sp_longitude = lon\<rparr>,
      \<lparr>sp_label = c @ ''_north'', sp_layer = ''city_waypoint'', sp_latitude = d_add lat offset, sp_longitude = lon\<rparr>,
      \<lparr>sp_label = c @ ''_east'', sp_layer = ''city_waypoint'', sp_latitude = lat, sp_longitude = d_add lon offset\<rparr>,
      \<lparr>sp_label = c @ ''_south'', sp_layer = ''city_waypoint'', sp_latitude = d_sub lat offset, sp_longitude = lon\<rparr>,
      \<lparr>sp_label = c @ ''_west'', sp_layer = ''city_waypoint'', sp_latitude = lat, sp_longitude = d_sub lon offset\<rparr>]"

definition default_offset :: double where
  "default_offset = lit (25 / 1000)"

definition runtime_tcp_host :: "(string \<Rightarrow> string option) \<Rightarrow> string" where
  "runtime_tcp_host getenv = (case getenv ''WEATHER_RTOS_HOST'' of
     Some host \<Rightarrow> (if host \<noteq> [] then host else ''127.0.0.1'')
   | None \<Rightarrow> ''127.0.0.1'')"

section \<open>Fetching\<close>

definition forecast_url :: "double \<Rightarrow> double \<Rightarrow> string" where
  "forecast_url lat lon = ''https://api.open-meteo.com/v1/forecast?latitude='' @ to_string_double lat
     @ ''&longitude='' @ to_string_double lon
     @ ''&current=temperature_2m,relative_humidity_2m,wind_speed_10m,cloud_cover,visibility,precipitation,pressure_msl''"

text \<open>\<open>response\<close>: the body when the transfer succeeded; a failure or a parse error gives null.\<close>

definition fetch_weather_data :: "'j json_lib \<Rightarrow> string option \<Rightarrow> 'j" where
  "fetch_weather_data J response = (case response of
     None \<Rightarrow> j_null J
   | Some body \<Rightarrow> (case j_parse J body of None \<Rightarrow> j_null J | Some result \<Rightarrow> result))"

section \<open>A poll\<close>

record place =
  pc_continent :: string
  pc_country :: string
  pc_region :: string
  pc_city :: string

definition visibility_from_metres :: "'j json_lib \<Rightarrow> 'j \<Rightarrow> double \<Rightarrow> double option" where
  "visibility_from_metres J current x =
     (case (if j_contains J current ''visibility'' then j_at J current ''visibility'' else None) of
        None \<Rightarrow> Some x
      | Some v \<Rightarrow> (if j_is_number J v then map_option (\<lambda>m. d_div m (lit 1000)) (j_get_double J v)
                  else Some x))"

text \<open>The packet of an answer; None when \<open>value\<close> throws because \<open>current\<close> is not an object or
  one of the three required measurements is not a number.\<close>

definition polled_packet :: "'j json_lib \<Rightarrow> place \<Rightarrow> city_sample_point \<Rightarrow> 'j \<Rightarrow> int \<Rightarrow> weather_packet option" where
  "polled_packet J pc sample current now = do {
     te \<leftarrow> value_or J j_get_double current ''temperature_2m'' (Fin 0);
     hu \<leftarrow> value_or J j_get_double current ''relative_humidity_2m'' (Fin 0);
     wi \<leftarrow> value_or J j_get_double current ''wind_speed_10m'' (Fin 0);
     let p = packet_init (pc_continent pc) (pc_country pc) (pc_region pc) (pc_city pc) te hu wi now;
     cl \<leftarrow> opt_number J current ''cloud_cover'' (cloud_cover_percent p);
     vi \<leftarrow> visibility_from_metres J current (visibility_km p);
     pr \<leftarrow> opt_number J current ''precipitation'' (precipitation_mm p);
     pm \<leftarrow> opt_number J current ''pressure_msl'' (pressure_hpa p);
     Some (p\<lparr>latitude := sp_latitude sample, longitude := sp_longitude sample,
       cloud_cover_percent := cl, visibility_km := vi, precipitation_mm := pr, pressure_hpa := pm,
       station_id := sp_label sample, ingest_layer := sp_layer sample, sample_point := sp_label sample\<rparr>)
   }"

text \<open>Nothing catches an exception in the poll thread: the process terminates.\<close>

datatype poll_result = Polled weather_packet | Fetch_failed | Terminated

definition poll_sample :: "'j json_lib \<Rightarrow> place \<Rightarrow> city_sample_point \<Rightarrow> 'j \<Rightarrow> int \<Rightarrow> poll_result" where
  "poll_sample J pc sample weather now =
     (case (if j_contains J weather ''current'' then j_at J weather ''current'' else None) of
        None \<Rightarrow> Fetch_failed
      | Some current \<Rightarrow> (case polled_packet J pc sample current now of
            None \<Rightarrow> Terminated | Some p \<Rightarrow> Polled p))"

section \<open>The queue between the threads\<close>

definition collector_queue_size :: nat where
  "collector_queue_size = 100"

text \<open>A push waits while the queue is full (None); the sender waits while it is empty.\<close>

definition collector_push :: "weather_packet \<Rightarrow> weather_packet list \<Rightarrow> weather_packet list option" where
  "collector_push p queue = (if collector_queue_size \<le> length queue then None else Some (queue @ [p]))"

definition collector_pop :: "weather_packet list \<Rightarrow> (weather_packet \<times> weather_packet list) option" where
  "collector_pop queue = (case queue of [] \<Rightarrow> None | p # rest \<Rightarrow> Some (p, rest))"

text \<open>The sender: the envelope of a packet under the names of the collector, and its publication.\<close>

record sender_names =
  sn_source :: string
  sn_route :: string
  sn_topic :: string

definition regional_names :: "string \<Rightarrow> sender_names" where
  "regional_names reg = \<lparr>sn_source = ''collector:'' @ reg, sn_route = reg @ ''_aggregator'',
     sn_topic = reg @ ''_events''\<rparr>"

definition south_india_names :: sender_names where
  "south_india_names = \<lparr>sn_source = ''south_india_collector'', sn_route = ''india_gateway'',
     sn_topic = ''south_india_events''\<rparr>"

definition sender_envelope :: "'j json_lib \<Rightarrow> sender_names \<Rightarrow> weather_packet \<Rightarrow> int \<Rightarrow> int \<Rightarrow> u64 \<Rightarrow>
    'j envelope \<times> u64" where
  "sender_envelope J names p now1 now2 seq =
     make_weather_packet_envelope J p (sn_source names) (sn_route names) now1 now2 seq"

text \<open>\<open>collectors/south_india/main.cpp\<close> has a copy of the fetching and polling functions; apart from
  the messages they print the two are the same code.\<close>

definition south_india_fetch :: "'j json_lib \<Rightarrow> string option \<Rightarrow> 'j" where
  "south_india_fetch J response = fetch_weather_data J response"

definition south_india_poll :: "'j json_lib \<Rightarrow> place \<Rightarrow> city_sample_point \<Rightarrow> 'j \<Rightarrow> int \<Rightarrow> poll_result" where
  "south_india_poll J pc sample weather now = poll_sample J pc sample weather now"

section \<open>Starting up\<close>

text \<open>\<open>operator[]\<close> on a value that may be changed: a missing key gives null, null becomes an
  object, any other type throws.  On a constant reference a missing key is not allowed.\<close>

definition json_index :: "'j json_lib \<Rightarrow> 'j \<Rightarrow> string \<Rightarrow> 'j option" where
  "json_index J j k = (if j_is_object J j
     then Some (case j_at J j k of None \<Rightarrow> j_null J | Some v \<Rightarrow> v)
     else if j_is_null J j then Some (j_null J) else None)"

definition collector_topology_path :: "(string \<Rightarrow> bool) \<Rightarrow> string" where
  "collector_topology_path opens =
     (case filter opens [''configs/global_topology.json'', ''../configs/global_topology.json''] of
        candidate # _ \<Rightarrow> candidate
      | [] \<Rightarrow> ''configs/global_topology.json'')"

text \<open>The first element with the given name; the outer None when a name before it is not text.\<close>

fun find_named :: "'j json_lib \<Rightarrow> string \<Rightarrow> 'j list \<Rightarrow> 'j option option" where
  "find_named J name [] = Some None"
| "find_named J name (r # rs) = (case at_get J j_get_string r ''name'' of
     None \<Rightarrow> None
   | Some n \<Rightarrow> (if n = name then Some (Some r) else find_named J name rs))"

text \<open>The cities of a collector, with the keys its file uses for the coordinates.\<close>

fun city_points :: "'j json_lib \<Rightarrow> string \<Rightarrow> string \<Rightarrow> 'j list \<Rightarrow>
    (string \<times> city_sample_point list) list option" where
  "city_points J lat_key lon_key [] = Some []"
| "city_points J lat_key lon_key (c # cs) = do {
     name \<leftarrow> at_get J j_get_string c ''name'';
     lat \<leftarrow> at_get J j_get_double c lat_key;
     lon \<leftarrow> at_get J j_get_double c lon_key;
     rest \<leftarrow> city_points J lat_key lon_key cs;
     Some ((name, make_city_sample_points name lat lon default_offset) # rest)
   }"

text \<open>A poll thread per city with its place and points, and the port of the publisher.\<close>

record collector_plan =
  cp_threads :: "(place \<times> city_sample_point list) list"
  cp_port :: int
  cp_names :: sender_names

definition poll_threads :: "string \<Rightarrow> string \<Rightarrow> string \<Rightarrow> (string \<times> city_sample_point list) list \<Rightarrow>
    (place \<times> city_sample_point list) list" where
  "poll_threads co cu re cs = map (\<lambda>(name, points).
     (\<lparr>pc_continent = co, pc_country = cu, pc_region = re, pc_city = name\<rparr>, points)) cs"

text \<open>How \<open>main\<close> goes on: it returns a code, an exception leaves it, or the threads start.\<close>

datatype start_up = Exits int | Throws | Runs collector_plan

definition region_plan :: "'j json_lib \<Rightarrow> string \<Rightarrow> 'j \<Rightarrow> collector_plan option" where
  "region_plan J region_name reg = do {
     co \<leftarrow> Option.bind (json_index J reg ''continent'') (j_get_string J);
     cu \<leftarrow> Option.bind (json_index J reg ''country'') (j_get_string J);
     port \<leftarrow> Option.bind (json_index J reg ''send_to_port'') (j_get_int J);
     cities \<leftarrow> json_index J reg ''cities'';
     points \<leftarrow> city_points J ''latitude'' ''longitude'' (j_elems J cities);
     Some \<lparr>cp_threads = poll_threads co cu region_name points, cp_port = port,
       cp_names = regional_names region_name\<rparr>
   }"

definition regional_main :: "'j json_lib \<Rightarrow> bool \<Rightarrow> string list \<Rightarrow> (string \<Rightarrow> string option) \<Rightarrow> start_up" where
  "regional_main J curl_ok args file =
     (if \<not> curl_ok then Exits 1
      else (let path = (case args of _ # p # _ \<Rightarrow> p | _ \<Rightarrow> collector_topology_path (\<lambda>f. file f \<noteq> None));
                region_name = (case args of r # _ \<Rightarrow> r | [] \<Rightarrow> ''south_india'')
            in case file path of
                 None \<Rightarrow> Exits 1
               | Some t \<Rightarrow> (case do {
                     topology \<leftarrow> j_parse J t;
                     top \<leftarrow> json_index J topology ''topology'';
                     regions \<leftarrow> json_index J top ''regions'';
                     find_named J region_name (j_elems J regions)
                   } of
                     None \<Rightarrow> Throws
                   | Some None \<Rightarrow> Exits 1
                   | Some (Some reg) \<Rightarrow>
                       (if j_is_null J reg then Exits 1
                        else case region_plan J region_name reg of None \<Rightarrow> Throws | Some plan \<Rightarrow> Runs plan))))"

definition south_india_plan :: "'j json_lib \<Rightarrow> 'j \<Rightarrow> collector_plan option" where
  "south_india_plan J config = do {
     co \<leftarrow> Option.bind (json_index J config ''continent'') (j_get_string J);
     cu \<leftarrow> Option.bind (json_index J config ''country'') (j_get_string J);
     re \<leftarrow> Option.bind (json_index J config ''region'') (j_get_string J);
     cities \<leftarrow> json_index J config ''cities'';
     points \<leftarrow> city_points J ''lat'' ''lon'' (j_elems J cities);
     Some \<lparr>cp_threads = poll_threads co cu re points, cp_port = 9101, cp_names = south_india_names\<rparr>
   }"

definition south_india_main :: "'j json_lib \<Rightarrow> bool \<Rightarrow> (string \<Rightarrow> string option) \<Rightarrow> start_up" where
  "south_india_main J curl_ok file =
     (if \<not> curl_ok then Exits 1
      else (case file ''../configs/south_india.json'' of
          None \<Rightarrow> Exits 1
        | Some t \<Rightarrow> (case Option.bind (j_parse J t) (south_india_plan J) of
              None \<Rightarrow> Throws | Some plan \<Rightarrow> Runs plan)))"

section \<open>From an answer to the next tier\<close>

definition number_or_absent :: "'j json_lib \<Rightarrow> 'j \<Rightarrow> string \<Rightarrow> bool" where
  "number_or_absent J current k \<longleftrightarrow> (case j_at J current k of None \<Rightarrow> True | Some v \<Rightarrow> j_get_double J v \<noteq> None)"

text \<open>A number can be read as a \<open>double\<close>: documented behaviour of the JSON package.\<close>

definition numbers_read :: "'j json_lib \<Rightarrow> bool" where
  "numbers_read J \<longleftrightarrow> (\<forall>v. j_is_number J v \<longrightarrow> j_get_double J v \<noteq> None)"

lemma opt_number_read: "numbers_read J \<Longrightarrow> opt_number J j k x \<noteq> None"
  by (auto simp: opt_number_def numbers_read_def split: option.split)

lemma value_or_None:
  "value_or J j_get_double j k d = None \<longleftrightarrow> \<not> j_is_object J j \<or> \<not> number_or_absent J j k"
  by (auto simp: value_or_def number_or_absent_def split: option.split)

lemma visibility_read: "numbers_read J \<Longrightarrow> visibility_from_metres J current x \<noteq> None"
  by (auto simp: visibility_from_metres_def numbers_read_def split: option.split)

lemma polled_packet_None:
  assumes "numbers_read J"
  shows "polled_packet J pc sample current now = None
    \<longleftrightarrow> \<not> j_is_object J current \<or> \<not> number_or_absent J current ''temperature_2m''
      \<or> \<not> number_or_absent J current ''relative_humidity_2m''
      \<or> \<not> number_or_absent J current ''wind_speed_10m''"
  unfolding polled_packet_def bind_eq_None_conv Let_def
  by (auto simp: value_or_None opt_number_read [OF assms] visibility_read [OF assms])

lemma polled_packet_fields:
  "polled_packet J pc sample current now = Some p \<Longrightarrow>
   continent p = pc_continent pc \<and> country p = pc_country pc \<and> region p = pc_region pc
   \<and> city p = pc_city pc \<and> latitude p = sp_latitude sample \<and> longitude p = sp_longitude sample
   \<and> station_id p = sp_label sample \<and> timestamp p = now
   \<and> value_or J j_get_double current ''temperature_2m'' (Fin 0) = Some (temperature p)
   \<and> value_or J j_get_double current ''relative_humidity_2m'' (Fin 0) = Some (humidity p)
   \<and> value_or J j_get_double current ''wind_speed_10m'' (Fin 0) = Some (wind_speed p)"
  by (auto simp: polled_packet_def packet_init_def Let_def split: bind_splits)

text \<open>What the next tier reads of a packet that is wrapped, sent and parsed.\<close>

lemma sender_envelope_decoded:
  assumes "json_laws J" "long_range (timestamp p)" "sender_envelope J names p now1 now2 seq = (e, seq')"
  shows "decoded J e = (if acceptable p then Some p else None)"
proof -
  have e: "schema_version e = 1" "message_type e = mt_weather_packet" "payload e = packet_to_json J p"
    using assms(3)
    by (auto simp: sender_envelope_def make_weather_packet_envelope_def generate_message_id_def Let_def)
  then have "weather_packet_from_envelope J e = Some p"
    using packet_read_back [OF assms(1,2)] packet_to_json_object [OF assms(1), of p]
    by (simp add: weather_packet_from_envelope_def is_weather_packet_envelope_def)
  then show ?thesis by (simp add: decoded_def)
qed

text \<open>
  C35: what becomes of an answer of the weather service.  The process terminates exactly when
  the answer has a member \<open>current\<close> that is not an object or in which the temperature, humidity or
  wind speed is present and not a number (null, say).  Otherwise, when there is a \<open>current\<close>, a
  packet is queued that carries the place and the point asked for, and the next tier accepts the
  envelope made of it exactly when the place is named, the point is on the map and every
  measurement is absent or in range.
\<close>

theorem poll_outcome:
  assumes "json_laws J" "numbers_read J" "long_range now"
  shows "(poll_sample J pc sample weather now = Terminated) =
      (case j_at J weather ''current'' of
         None \<Rightarrow> False
       | Some current \<Rightarrow> \<not> (j_is_object J current \<and> number_or_absent J current ''temperature_2m''
           \<and> number_or_absent J current ''relative_humidity_2m'' \<and> number_or_absent J current ''wind_speed_10m''))
    \<and> (poll_sample J pc sample weather now = Fetch_failed) = (j_at J weather ''current'' = None)
    \<and> (case poll_sample J pc sample weather now of
         Polled p \<Rightarrow> city p = pc_city pc \<and> latitude p = sp_latitude sample \<and> longitude p = sp_longitude sample
           \<and> (\<forall>names now1 now2 seq. decoded J (fst (sender_envelope J names p now1 now2 seq))
                = (if acceptable p then Some p else None))
       | _ \<Rightarrow> True)"
proof -
  have present: "(if j_contains J weather ''current'' then j_at J weather ''current'' else None)
      = j_at J weather ''current''" using json_contains [OF assms(1), of weather] by simp
  note poll = poll_sample_def [of J pc sample weather now, unfolded present]
  show ?thesis
  proof (cases "j_at J weather ''current''")
    case None
    then show ?thesis by (simp add: poll)
  next
    case (Some current)
    show ?thesis
    proof (cases "polled_packet J pc sample current now")
      case None
      then show ?thesis using polled_packet_None [OF assms(2), of pc sample current now]
        by (simp add: poll Some)
    next
      case (Some p)
      note f = polled_packet_fields [OF Some]
      have "decoded J (fst (sender_envelope J names p now1 now2 seq)) = (if acceptable p then Some p else None)"
        for names now1 now2 seq
        using sender_envelope_decoded [OF assms(1), of p names now1 now2 seq, OF _ surjective_pairing]
          f assms(3) by simp
      then show ?thesis using polled_packet_None [OF assms(2), of pc sample current now] f
        by (simp add: poll \<open>j_at J weather _ = Some current\<close> Some)
    qed
  qed
qed

theorem poll_outcome_witness:
  "poll_sample demo_json \<lparr>pc_continent = ''Asia'', pc_country = ''India'', pc_region = ''south'', pc_city = ''Kochi''\<rparr>
     \<lparr>sp_label = ''Kochi_center'', sp_layer = ''city_center'', sp_latitude = Fin 10, sp_longitude = Fin 76\<rparr>
     (DObj [(''current'', DObj [(''temperature_2m'', DNull)])]) 0 = Terminated"
  (is "poll_sample _ ?pc ?sample ?weather _ = _")
proof -
  have "numbers_read demo_json"
    by (auto simp: numbers_read_def demo_json_def split: demo.splits)
  from poll_outcome [OF demo_json_laws this, of 0 ?pc ?sample ?weather] show ?thesis
    by (simp add: long_range_def long_min_def long_max_def demo_json_def number_or_absent_def)
qed

end
