(* ===== verification/Route_Mapper.thy ===== *)
theory Route_Mapper
  imports Binary64 Std_Map
begin

text \<open>
  \<open>common/utils/LogisticsRouteMapper.hpp\<close>: the logistics corridors and the search for the
  waypoint nearest to an observation.  The functions of the C mathematics library are a
  parameter; the arithmetic around them is that of \<open>Binary64\<close>.  \<open>std::map\<close> is traversed in key order.
\<close>

record route_waypoint =
  wp_name :: string
  wp_latitude :: double
  wp_longitude :: double

record logistics_route =
  lr_route_id :: string
  lr_name :: string
  lr_waypoints :: "route_waypoint list"

record trig =
  t_sin :: "double \<Rightarrow> double"
  t_cos :: "double \<Rightarrow> double"
  t_asin :: "double \<Rightarrow> double"
  t_sqrt :: "double \<Rightarrow> double"
  t_pow :: "double \<Rightarrow> double \<Rightarrow> double"

section \<open>The search\<close>

definition radians :: "double \<Rightarrow> double" where
  "radians x = d_div (d_mul x (lit (314159265358979323846 / 100000000000000000000))) (lit 180)"

definition haversine :: "trig \<Rightarrow> double \<Rightarrow> double \<Rightarrow> double \<Rightarrow> double \<Rightarrow> double" where
  "haversine T lat1 lon1 lat2 lon2 =
     (let d_lat = radians (d_sub lat2 lat1);
          d_lon = radians (d_sub lon2 lon1);
          lat1 = radians lat1;
          lat2 = radians lat2;
          a = d_add (t_pow T (t_sin T (d_div d_lat (lit 2))) (lit 2))
                (d_mul (d_mul (t_pow T (t_sin T (d_div d_lon (lit 2))) (lit 2)) (t_cos T lat1)) (t_cos T lat2));
          c = d_mul (lit 2) (t_asin T (t_sqrt T a))
      in d_mul (lit 6371) c)"

text \<open>The variables of the search: the least distance, the segment and the route identifier.\<close>

record search =
  se_min_dist :: double
  se_segment :: string
  se_route_id :: string

definition visit_waypoint :: "trig \<Rightarrow> double \<Rightarrow> double \<Rightarrow> string \<Rightarrow> route_waypoint \<Rightarrow> search \<Rightarrow> search" where
  "visit_waypoint T lat lon route_id w s =
     (let d = haversine T lat lon (wp_latitude w) (wp_longitude w) in
      if d_lt d (se_min_dist s) \<and> d_lt d (Fin 50)
      then \<lparr>se_min_dist = d, se_segment = wp_name w, se_route_id = route_id\<rparr> else s)"

definition visit_route :: "trig \<Rightarrow> double \<Rightarrow> double \<Rightarrow> string \<times> logistics_route \<Rightarrow> search \<Rightarrow> search" where
  "visit_route T lat lon entry = fold (visit_waypoint T lat lon (fst entry)) (lr_waypoints (snd entry))"

text \<open>The segment and the route identifier, which keeps the caller's value when nothing is near.\<close>

definition find_nearest_segment :: "trig \<Rightarrow> (string \<times> logistics_route) list \<Rightarrow> double \<Rightarrow> double \<Rightarrow> string \<Rightarrow>
    string \<times> string" where
  "find_nearest_segment T routes lat lon route_id =
     (let s = fold (visit_route T lat lon) routes
            \<lparr>se_min_dist = Fin (10 ^ 18), se_segment = ''unknown'', se_route_id = route_id\<rparr>
      in (se_segment s, se_route_id s))"

section \<open>The corridors\<close>

definition way :: "string \<Rightarrow> rat \<Rightarrow> rat \<Rightarrow> route_waypoint" where
  "way name lat lon = \<lparr>wp_name = name, wp_latitude = lit (lat / 10000), wp_longitude = lit (lon / 10000)\<rparr>"

definition delhi_mumbai :: logistics_route where
  "delhi_mumbai = \<lparr>lr_route_id = ''GQ-WEST'', lr_name = ''Delhi-Mumbai Corridor'', lr_waypoints =
     [way ''Delhi_Exit'' 286139 772090, way ''Gurugram_Hub'' 284595 770266,
      way ''Jaipur_Bypass'' 269124 757873, way ''Ajmer_Waypoint'' 264499 746399,
      way ''Udaipur_Crossing'' 245854 737125, way ''Ahmedabad_Hub'' 230225 725714,
      way ''Surat_Waypoint'' 211702 728311, way ''Mumbai_Entry'' 190760 728777]\<rparr>"

definition mumbai_bangalore :: logistics_route where
  "mumbai_bangalore = \<lparr>lr_route_id = ''GQ-SOUTH-WEST'', lr_name = ''Mumbai-Bangalore Corridor'', lr_waypoints =
     [way ''Mumbai_Exit'' 190760 728777, way ''Pune_Hub'' 185204 738567,
      way ''Satara_Waypoint'' 176805 739918, way ''Kolhapur_Waypoint'' 167050 742433,
      way ''Belagavi_Crossing'' 158497 744977, way ''Hubballi_Hub'' 153647 751240,
      way ''Tumakuru_Waypoint'' 133392 771140, way ''Bangalore_Entry'' 129716 775946]\<rparr>"

definition standard_routes :: "(string \<times> logistics_route) list" where
  "standard_routes = smap_update (lr_route_id mumbai_bangalore) mumbai_bangalore
     (smap_update (lr_route_id delhi_mumbai) delhi_mumbai [])"

section \<open>What the search finds\<close>

text \<open>All waypoints in the order of the two loops, with the key of their route.\<close>

definition all_waypoints :: "(string \<times> logistics_route) list \<Rightarrow> (string \<times> route_waypoint) list" where
  "all_waypoints routes = concat (map (\<lambda>(k, r). map (Pair k) (lr_waypoints r)) routes)"

definition visit_entry :: "trig \<Rightarrow> double \<Rightarrow> double \<Rightarrow> string \<times> route_waypoint \<Rightarrow> search \<Rightarrow> search" where
  "visit_entry T lat lon kw = visit_waypoint T lat lon (fst kw) (snd kw)"

lemma fold_waypoints: "fold (visit_entry T lat lon) (map (Pair k) ws) s
  = fold (visit_waypoint T lat lon k) ws s"
  by (induction ws arbitrary: s) (simp_all add: visit_entry_def)

lemma search_flat:
  "fold (visit_route T lat lon) routes s
   = fold (visit_entry T lat lon) (all_waypoints routes) s"
proof (induction routes arbitrary: s)
  case (Cons entry routes)
  then show ?case
    by (cases entry) (simp add: all_waypoints_def visit_route_def fold_waypoints)
qed (simp add: all_waypoints_def)

definition distance_to :: "trig \<Rightarrow> double \<Rightarrow> double \<Rightarrow> string \<times> route_waypoint \<Rightarrow> double" where
  "distance_to T lat lon kw = haversine T lat lon (wp_latitude (snd kw)) (wp_longitude (snd kw))"

definition near :: "trig \<Rightarrow> double \<Rightarrow> double \<Rightarrow> (string \<times> logistics_route) list \<Rightarrow> (string \<times> route_waypoint) list" where
  "near T lat lon routes = filter (\<lambda>kw. d_lt (distance_to T lat lon kw) (Fin 50)) (all_waypoints routes)"

lemma d_lt_trans: "d_lt a b \<Longrightarrow> d_lt b c \<Longrightarrow> d_lt a c"
  by (cases a; cases b; cases c) auto

lemma d_lt_below: "d_lt y x \<Longrightarrow> \<not> d_lt z x \<Longrightarrow> d_lt z c \<Longrightarrow> d_lt y z"
  by (cases x; cases y; cases z; cases c) auto

text \<open>The first element of least distance, as the search keeps it.\<close>

definition first_least :: "(string \<times> route_waypoint \<Rightarrow> double) \<Rightarrow> (string \<times> route_waypoint) list \<Rightarrow>
    string \<times> route_waypoint \<Rightarrow> bool" where
  "first_least f xs x \<longleftrightarrow> (\<exists>as bs. xs = as @ x # bs \<and> list_all (\<lambda>y. d_lt (f x) (f y)) as
     \<and> list_all (\<lambda>y. \<not> d_lt (f y) (f x)) bs)"

lemma first_leastI: "list_all (\<lambda>y. d_lt (f x) (f y)) as \<Longrightarrow> list_all (\<lambda>y. \<not> d_lt (f y) (f x)) bs \<Longrightarrow>
  first_least f (as @ x # bs) x"
  by (auto simp: first_least_def)

lemma first_least_snoc_less:
  assumes "first_least f xs x" "d_lt (f y) (f x)" "list_all (\<lambda>z. d_lt (f z) c) xs"
  shows "first_least f (xs @ [y]) y"
proof -
  obtain as bs where xs: "xs = as @ x # bs" and as: "list_all (\<lambda>z. d_lt (f x) (f z)) as"
    and bs: "list_all (\<lambda>z. \<not> d_lt (f z) (f x)) bs" using assms(1) by (auto simp: first_least_def)
  have "d_lt (f y) (f z)" if "z \<in> set xs" for z
    using that xs as bs assms(2,3) d_lt_trans [OF assms(2), of "f z"] d_lt_below [OF assms(2), of "f z" c]
    by (auto simp: list_all_iff)
  then show ?thesis using first_leastI [of f y xs "[]"] by (simp add: list_all_iff)
qed

lemma first_least_snoc_ge:
  assumes "first_least f xs x" "\<not> d_lt (f y) (f x)"
  shows "first_least f (xs @ [y]) x"
proof -
  obtain as bs where "xs = as @ x # bs" "list_all (\<lambda>z. d_lt (f x) (f z)) as"
    "list_all (\<lambda>z. \<not> d_lt (f z) (f x)) bs" using assms(1) by (auto simp: first_least_def)
  then show ?thesis using first_leastI [of f x as "bs @ [y]"] assms(2) by simp
qed

definition found :: "trig \<Rightarrow> double \<Rightarrow> double \<Rightarrow> string \<times> route_waypoint \<Rightarrow> search" where
  "found T lat lon x = \<lparr>se_min_dist = distance_to T lat lon x, se_segment = wp_name (snd x),
     se_route_id = fst x\<rparr>"

lemma search_finds:
  fixes T lat lon
  defines "f \<equiv> distance_to T lat lon"
  assumes "se_min_dist s0 = Fin (10 ^ 18)"
  shows "let ns = filter (\<lambda>kw. d_lt (f kw) (Fin 50)) xs;
             s = fold (visit_entry T lat lon) xs s0
         in (ns = [] \<and> s = s0) \<or> (\<exists>x. first_least f ns x \<and> s = found T lat lon x)"
proof (induction xs rule: rev_induct)
  case (snoc y xs)
  define ns where "ns = filter (\<lambda>kw. d_lt (f kw) (Fin 50)) xs"
  define s where "s = fold (visit_entry T lat lon) xs s0"
  have visit: "visit_entry T lat lon y s
      = (if d_lt (f y) (se_min_dist s) \<and> d_lt (f y) (Fin 50) then found T lat lon y else s)"
    by (simp add: visit_entry_def visit_waypoint_def f_def distance_to_def found_def Let_def)
  have near: "list_all (\<lambda>z. d_lt (f z) (Fin 50)) ns" by (simp add: ns_def list_all_iff)
  have big: "d_lt (f y) (Fin 50) \<Longrightarrow> d_lt (f y) (Fin (10 ^ 18))"
    by (erule d_lt_trans) simp
  from snoc consider "ns = []" "s = s0" | x where "first_least f ns x" "s = found T lat lon x"
    by (auto simp: Let_def ns_def s_def)
  then show ?case
  proof cases
    case 1
    note v = visit [unfolded 1(2)]
    show ?thesis
    proof (cases "d_lt (f y) (Fin 50)")
      case True
      then have "visit_entry T lat lon y s0 = found T lat lon y" using v big assms(2) by simp
      then show ?thesis using 1 True first_leastI [of f y "[]" "[]"]
        by (auto simp: Let_def ns_def [symmetric] s_def [symmetric] simp del: split_paired_Ex)
    next
      case False
      then show ?thesis using 1 v by (simp add: Let_def ns_def [symmetric] s_def [symmetric])
    qed
  next
    case (2 x)
    have m: "se_min_dist (found T lat lon x) = f x" by (simp add: found_def f_def)
    note v = visit [unfolded 2(2) m]
    have filter_y: "filter (\<lambda>kw. d_lt (f kw) (Fin 50)) (xs @ [y])
        = ns @ (if d_lt (f y) (Fin 50) then [y] else [])" by (simp add: ns_def)
    have "\<exists>z. first_least f (filter (\<lambda>kw. d_lt (f kw) (Fin 50)) (xs @ [y])) z
        \<and> visit_entry T lat lon y (found T lat lon x) = found T lat lon z"
      unfolding filter_y v
      using 2(1) first_least_snoc_less [OF 2(1) _ near, of y] first_least_snoc_ge [OF 2(1), of y]
      by (cases "d_lt (f y) (Fin 50)"; cases "d_lt (f y) (f x)") (auto simp del: split_paired_Ex)
    then show ?thesis using 2(2) by (simp add: Let_def s_def del: filter_append split_paired_Ex)
  qed
qed simp

text \<open>
  The search over the routes returns \<open>unknown\<close> and leaves the caller's identifier when no
  waypoint is within 50 km; otherwise it returns the name and the route of a waypoint within
  50 km to which no other is nearer, the first such in the order of the map.  Distances that
  are not numbers are never near.
\<close>

lemma nearest_segment:
  "(near T lat lon routes = [] \<and> find_nearest_segment T routes lat lon route_id = (''unknown'', route_id))
   \<or> (\<exists>x. first_least (distance_to T lat lon) (near T lat lon routes) x
        \<and> find_nearest_segment T routes lat lon route_id = (wp_name (snd x), fst x))"
  using search_finds [of "\<lparr>se_min_dist = Fin (10 ^ 18), se_segment = ''unknown'', se_route_id = route_id\<rparr>"
      T lat lon "all_waypoints routes"]
  by (auto simp: find_nearest_segment_def near_def search_flat Let_def found_def)

end
