(* ===== verification/Resources.thy ===== *)
theory Resources
  imports Metrics
begin

text \<open>
  \<open>common/rt_safe/CgroupV2Manager.hpp\<close> and \<open>ZeroCopyTransfer.hpp\<close>: the files a control group is
  set up with, and the transfer of bytes between two descriptors through a pipe.  Whether a file
  opens and what the system calls return are arguments.
\<close>

section \<open>Control groups\<close>

definition cgroup_base_path :: "string \<Rightarrow> string" where
  "cgroup_base_path name = ''/sys/fs/cgroup/'' @ name"

text \<open>The constructor creates the directory; None: \<open>create_directories\<close> throws.\<close>

definition cgroup_new :: "(string \<Rightarrow> bool) \<Rightarrow> string \<Rightarrow> string option" where
  "cgroup_new creates name =
     (let base = cgroup_base_path name in if creates base then Some base else None)"

text \<open>The file written with its new contents; nothing when it cannot be opened.\<close>

definition write_value :: "string \<Rightarrow> (string \<Rightarrow> bool) \<Rightarrow> string \<Rightarrow> string \<Rightarrow> (string \<times> string) option" where
  "write_value base_path opens filename v =
     (let path = base_path @ ''/'' @ filename in if opens path then Some (path, v) else None)"

definition set_cpu_weight :: "string \<Rightarrow> (string \<Rightarrow> bool) \<Rightarrow> int \<Rightarrow> (string \<times> string) option" where
  "set_cpu_weight base opens weight = write_value base opens ''cpu.weight'' (to_string weight)"

definition set_memory_limit :: "string \<Rightarrow> (string \<Rightarrow> bool) \<Rightarrow> int \<Rightarrow> (string \<times> string) option" where
  "set_memory_limit base opens limit = write_value base opens ''memory.max'' (to_string limit)"

definition set_io_limit :: "string \<Rightarrow> (string \<Rightarrow> bool) \<Rightarrow> int \<Rightarrow> int \<Rightarrow> int \<Rightarrow> int \<Rightarrow> (string \<times> string) option" where
  "set_io_limit base opens major minor rbps wbps =
     (let limit = to_string major @ '':'' @ to_string minor @ '' rbps='' @ to_string rbps
            @ '' wbps='' @ to_string wbps
      in write_value base opens ''io.max'' limit)"

definition add_current_process :: "string \<Rightarrow> (string \<Rightarrow> bool) \<Rightarrow> int \<Rightarrow> (string \<times> string) option" where
  "add_current_process base opens pid = write_value base opens ''cgroup.procs'' (to_string pid)"

section \<open>Zero-copy transfer\<close>

text \<open>The system calls the transfer makes, with their arguments.\<close>

datatype transfer_call =
    Make_pipe
  | Splice_from_to int int int
  | Close_fd int
  | Sendfile_from_to int int int

text \<open>Arguments: the pipe that is made (None: \<open>pipe\<close> fails), its result for the first \<open>splice\<close> and for
  the second.  The result comes with the calls made, in order.\<close>

definition zero_copy_transfer :: "(int \<times> int) option \<Rightarrow> int \<Rightarrow> int \<Rightarrow> int \<Rightarrow> int \<Rightarrow> int \<Rightarrow>
    int \<times> transfer_call list" where
  "zero_copy_transfer pipe_fds spliced_in spliced_out fd_in fd_out bytes =
     (case pipe_fds of
        None \<Rightarrow> (-1, [Make_pipe])
      | Some (read_end, write_end) \<Rightarrow>
          (let calls = [Make_pipe, Splice_from_to fd_in write_end bytes];
               closes = [Close_fd read_end, Close_fd write_end]
           in if spliced_in < 0 then (-1, calls @ closes)
              else let calls = calls @ [Splice_from_to read_end fd_out spliced_in]
                   in if spliced_out < 0 then (-1, calls @ closes) else (spliced_out, calls @ closes)))"

definition send_file :: "int \<Rightarrow> int \<Rightarrow> int \<Rightarrow> int \<Rightarrow> int \<times> transfer_call list" where
  "send_file result out_fd in_fd bytes = (result, [Sendfile_from_to in_fd out_fd bytes])"

text \<open>Both ends of the pipe are closed last and once on every path.  Bytes the second call does not
  take stay in the pipe and are lost with it, since \<open>splice\<close> is called once in each direction.\<close>

lemma transfer_closes_pipe:
  "\<exists>calls. snd (zero_copy_transfer (Some (r, w)) spliced_in spliced_out fd_in fd_out n)
      = calls @ [Close_fd r, Close_fd w] \<and> (\<forall>fd. Close_fd fd \<notin> set calls)
    \<and> count_list (map (\<lambda>c. case c of Splice_from_to _ _ _ \<Rightarrow> True | _ \<Rightarrow> False) calls) True \<le> 2"
  by (simp add: zero_copy_transfer_def Let_def)

end
