(* ===== verification/Simulator.thy ===== *)
theory Simulator
  imports Collectors Text_Parse
begin

text \<open>
  \<open>simulator/main.cpp\<close>: a table of cities visited four per cycle; each answer of the weather
  service becomes five packets, one per station, sent as JSON lines.  A JSON exception ends the
  city it occurs in and is reported.  The HTTP library, the clock and \<open>send\<close> are arguments.
\<close>

record city_config =
  ct_name :: string
  ct_latitude :: double
  ct_longitude :: double
  ct_region :: string
  ct_country :: string
  ct_continent :: string

definition sim_city :: "string \<Rightarrow> rat \<Rightarrow> rat \<Rightarrow> string \<Rightarrow> string \<Rightarrow> string \<Rightarrow> city_config" where
  "sim_city name lat lon reg co cont = \<lparr>ct_name = name, ct_latitude = lit (lat / 10000),
     ct_longitude = lit (lon / 10000), ct_region = reg, ct_country = co, ct_continent = cont\<rparr>"

definition cities :: "city_config list" where
  "cities =
     [sim_city ''Chennai'' 130827 802707 ''south_india'' ''India'' ''Asia'',
      sim_city ''Bangalore'' 129716 775946 ''south_india'' ''India'' ''Asia'',
      sim_city ''Mumbai'' 190760 728777 ''west_india'' ''India'' ''Asia'',
      sim_city ''Delhi'' 286139 772090 ''north_india'' ''India'' ''Asia'',
      sim_city ''Hyderabad'' 173850 784867 ''south_india'' ''India'' ''Asia'',
      sim_city ''Kolkata'' 225726 883639 ''east_india'' ''India'' ''Asia'',
      sim_city ''Kochi'' 99312 762673 ''south_india'' ''India'' ''Asia'',
      sim_city ''Ahmedabad'' 230225 725714 ''west_india'' ''India'' ''Asia'',
      sim_city ''Pune'' 185204 738567 ''west_india'' ''India'' ''Asia'',
      sim_city ''Jaipur'' 269124 757873 ''north_india'' ''India'' ''Asia'',
      sim_city ''Singapore'' 13521 1038198 ''southeast_asia'' ''Singapore'' ''Asia'',
      sim_city ''Tokyo'' 356762 1396503 ''east_asia'' ''Japan'' ''Asia'',
      sim_city ''Dubai'' 252048 552708 ''middle_east'' ''UAE'' ''Asia'',
      sim_city ''London'' 515074 (- 1278) ''europe'' ''UK'' ''Europe'',
      sim_city ''New York'' 407128 (- 740060) ''north_america'' ''USA'' ''North America'',
      sim_city ''Sydney'' (- 338688) 1512093 ''oceania'' ''Australia'' ''Oceania'']"

definition stations_per_city :: nat where
  "stations_per_city = 5"

definition simulator_url :: "city_config \<Rightarrow> string" where
  "simulator_url c = ''https://api.open-meteo.com/v1/forecast?latitude='' @ fmt_fixed 4 (ct_latitude c)
     @ ''&longitude='' @ fmt_fixed 4 (ct_longitude c)
     @ ''&current=temperature_2m,relative_humidity_2m,wind_speed_10m,cloud_cover,visibility,precipitation,pressure_msl''"

section \<open>The packets of a city\<close>

text \<open>\<open>if (current.contains(k)) x = current[k];\<close>: throws when the member is not a number.\<close>

definition given_number :: "'j json_lib \<Rightarrow> 'j \<Rightarrow> string \<Rightarrow> double \<Rightarrow> double option" where
  "given_number J current k x = (case (if j_contains J current k then j_at J current k else None) of
     None \<Rightarrow> Some x | Some v \<Rightarrow> j_get_double J v)"

definition station_label :: "string \<Rightarrow> nat \<Rightarrow> string" where
  "station_label name station =
     map (\<lambda>ch. if ch = CHR '' '' then CHR ''-'' else to_lower ch) name @ ''-station-'' @ to_string (int station)"

definition station_packet :: "'j json_lib \<Rightarrow> city_config \<Rightarrow> 'j \<Rightarrow> nat \<Rightarrow> int \<Rightarrow> weather_packet option" where
  "station_packet J c current station now = do {
     te \<leftarrow> value_or J j_get_double current ''temperature_2m'' (Fin 0);
     hu \<leftarrow> value_or J j_get_double current ''relative_humidity_2m'' (Fin 0);
     wi \<leftarrow> value_or J j_get_double current ''wind_speed_10m'' (Fin 0);
     let p = packet_init (ct_continent c) (ct_country c) (ct_region c) (ct_name c) te hu wi now;
     cl \<leftarrow> given_number J current ''cloud_cover'' (cloud_cover_percent p);
     vi \<leftarrow> (if j_contains J current ''visibility''
            then map_option (\<lambda>m. d_div m (lit 1000)) (given_number J current ''visibility'' NaN)
            else Some (visibility_km p));
     pr \<leftarrow> given_number J current ''precipitation'' (precipitation_mm p);
     pm \<leftarrow> given_number J current ''pressure_msl'' (pressure_hpa p);
     Some (p\<lparr>latitude := d_add (ct_latitude c) (d_mul (of_long (int station)) (lit (1 / 1000))),
       longitude := d_add (ct_longitude c) (d_mul (of_long (int station)) (lit (1 / 1000))),
       cloud_cover_percent := cl, visibility_km := vi, precipitation_mm := pr, pressure_hpa := pm,
       station_id := station_label (ct_name c) station\<rparr>)
   }"

text \<open>The lines sent for the stations given; the loop stops at the first exception.  The state is
  the counter of the message identifiers; \<open>clock\<close> gives the three readings of a station.\<close>

fun station_messages :: "'j json_lib \<Rightarrow> city_config \<Rightarrow> 'j \<Rightarrow> (nat \<Rightarrow> int \<times> int \<times> int) \<Rightarrow> nat list \<Rightarrow> u64 \<Rightarrow>
    string list \<times> u64" where
  "station_messages J c current clock [] seq = ([], seq)"
| "station_messages J c current clock (station # rest) seq =
     (let (now, now1, now2) = clock station in
      case station_packet J c current station now of
        None \<Rightarrow> ([], seq)
      | Some p \<Rightarrow>
          (let (e, seq1) = make_weather_packet_envelope J p ''simulator'' (ct_region c) now1 now2 seq in
           case dump_line J (envelope_to_json J e) of
             None \<Rightarrow> ([], seq1)
           | Some t \<Rightarrow> (let (ms, seq2) = station_messages J c current clock rest seq1
                        in ((t @ nl) # ms, seq2))))"

definition city_messages :: "'j json_lib \<Rightarrow> city_config \<Rightarrow> string \<Rightarrow> (nat \<Rightarrow> int \<times> int \<times> int) \<Rightarrow> u64 \<Rightarrow>
    string list \<times> u64" where
  "city_messages J c response clock seq =
     (if response = [] then ([], seq)
      else (case Option.bind (j_parse J response) (\<lambda>data. json_index J data ''current'') of
          None \<Rightarrow> ([], seq)
        | Some current \<Rightarrow> station_messages J c current clock [1..<stations_per_city + 1] seq))"

section \<open>The cycle\<close>

definition cities_per_cycle :: nat where
  "cities_per_cycle = min 4 (length cities)"

text \<open>The cities of a cycle that starts with index \<open>i\<close>; the next cycle starts four later.\<close>

definition cycle_cities :: "nat \<Rightarrow> city_config list" where
  "cycle_cities i = map (\<lambda>c. cities ! ((i + c) mod length cities)) [0..<cities_per_cycle]"

definition simulator_port :: "string list \<Rightarrow> parse_error + int" where
  "simulator_port args = (case args of [] \<Rightarrow> Inr 13101 | port # _ \<Rightarrow> stoi port)"

definition simulator_connect :: "int \<Rightarrow> int \<Rightarrow> int + int" where
  "simulator_connect sock connect_result =
     (if sock < 0 then Inl 1 else if connect_result < 0 then Inl 1 else Inr sock)"

lemma length_cities: "length cities = 16"
  by (simp add: cities_def)

text \<open>Four cycles visit every city once, in the order of the table.\<close>

lemma four_cycles: "concat (map (\<lambda>k. cycle_cities (16 * n + 4 * k)) [0..<4]) = cities"
proof -
  have four: "[0..<4] = [0, 1, 2, 3 :: nat]" by code_simp
  have cycle: "cycle_cities (16 * n + 4 * k)
      = map (\<lambda>c. cities ! ((4 * k + c) mod 16)) [0..<4]" for k
    by (simp add: cycle_cities_def cities_per_cycle_def length_cities add.assoc)
  have "[0..<length cities] = [0, 1, 2, 3, 4, 5, 6, 7, 8, 9, 10, 11, 12, 13, 14, 15]"
    unfolding length_cities by code_simp
  then have "map ((!) cities) [0, 1, 2, 3, 4, 5, 6, 7, 8, 9, 10, 11, 12, 13, 14, 15] = cities"
    by (metis map_nth)
  moreover have "concat (map (\<lambda>k. cycle_cities (16 * n + 4 * k)) [0..<4])
      = map ((!) cities) [0, 1, 2, 3, 4, 5, 6, 7, 8, 9, 10, 11, 12, 13, 14, 15]"
    unfolding cycle four by (simp, simp add: eval_nat_numeral)
  ultimately show ?thesis by simp
qed

text \<open>A city sends a line for each of its stations or, when its answer is unusable, none.\<close>

lemma given_number_None:
  "given_number J current k x = None
   \<longleftrightarrow> j_contains J current k \<and> Option.bind (j_at J current k) (j_get_double J) = None
     \<and> j_at J current k \<noteq> None"
  by (auto simp: given_number_def split: option.split)

lemma station_packet_same:
  "station_packet J c current s now = None \<longleftrightarrow> station_packet J c current s' now' = None"
  by (simp add: station_packet_def bind_eq_None_conv Let_def given_number_None)

lemma station_messages_all:
  assumes "\<And>j. j_dump2 J j \<noteq> None"
  shows "length (fst (station_messages J c current clock stations seq))
    = (if station_packet J c current 1 0 = None then 0 else length stations)"
proof (induction stations arbitrary: seq)
  case (Cons s rest)
  show ?case
  proof (cases "station_packet J c current s (fst (clock s))")
    case None
    then show ?thesis using station_packet_same [of J c current s "fst (clock s)" 1 0]
      by (simp add: case_prod_beta Let_def)
  next
    case (Some p)
    then have "station_packet J c current 1 0 \<noteq> None"
      using station_packet_same [of J c current s "fst (clock s)" 1 0] by simp
    then show ?thesis using Cons Some assms by (auto simp: case_prod_beta Let_def dump_line_def)
  qed
qed simp

section \<open>Fetching and cycling\<close>

text \<open>What curl hands over, piece by piece; the response is returned whatever the transfer's result.\<close>

definition write_callback :: "string \<Rightarrow> string \<Rightarrow> string" where
  "write_callback output contents = output @ contents"

record transfer =
  tr_handle :: bool
  tr_pieces :: "string list"
  tr_ok :: bool

definition fetch_weather_for_city :: "transfer \<Rightarrow> string" where
  "fetch_weather_for_city tr = (if tr_handle tr then foldl write_callback [] (tr_pieces tr) else [])"

text \<open>A number of cities in the order of the table, from an index on.  \<open>fetch\<close> and \<open>clock\<close> give the
  transfer and the clock of each visit; the result is the lines handed to \<open>send\<close>, the next index and
  the identifier counter.  A connection the server has closed ends the process at that line, by
  \<open>SIGPIPE\<close>; what was sent is then a prefix.\<close>

fun visit_cities :: "'j json_lib \<Rightarrow> (nat \<Rightarrow> transfer) \<Rightarrow> (nat \<Rightarrow> nat \<Rightarrow> int \<times> int \<times> int) \<Rightarrow> nat \<Rightarrow> nat \<Rightarrow> u64 \<Rightarrow>
    string list \<times> nat \<times> u64" where
  "visit_cities J fetch clock 0 index seq = ([], index, seq)"
| "visit_cities J fetch clock (Suc n) index seq =
     (let (ms, seq1) = city_messages J (cities ! (index mod length cities))
            (fetch_weather_for_city (fetch index)) (clock index) seq;
          (rest, index1, seq2) = visit_cities J fetch clock n (Suc index) seq1
      in (ms @ rest, index1, seq2))"

definition cycle_report :: "nat \<Rightarrow> string" where
  "cycle_report totalPackets = ''Sent '' @ to_string (int totalPackets) @ '' weather packets from ''
     @ to_string (int cities_per_cycle) @ '' cities'' @ nl"

text \<open>The loop of \<open>main\<close>, for a number of cycles: the lines sent and the reports printed.\<close>

fun simulator_cycles :: "'j json_lib \<Rightarrow> (nat \<Rightarrow> transfer) \<Rightarrow> (nat \<Rightarrow> nat \<Rightarrow> int \<times> int \<times> int) \<Rightarrow> nat \<Rightarrow> nat \<Rightarrow> u64 \<Rightarrow>
    string list \<times> string list" where
  "simulator_cycles J fetch clock 0 index seq = ([], [])"
| "simulator_cycles J fetch clock (Suc k) index seq =
     (let (ms, index1, seq1) = visit_cities J fetch clock cities_per_cycle index seq;
          (rest, reports) = simulator_cycles J fetch clock k index1 seq1
      in (ms @ rest, cycle_report (length ms) # reports))"

datatype simulator_start = Sim_throws parse_error | Sim_exits int | Sim_runs int

definition simulator_main :: "string list \<Rightarrow> int \<Rightarrow> (int \<Rightarrow> int) \<Rightarrow> simulator_start" where
  "simulator_main args sock connects = (case simulator_port args of
      Inl err \<Rightarrow> Sim_throws err
    | Inr port \<Rightarrow> (case simulator_connect sock (connects port) of Inl code \<Rightarrow> Sim_exits code | Inr s \<Rightarrow> Sim_runs s))"

text \<open>An answer that yields packets.\<close>

definition usable :: "'j json_lib \<Rightarrow> city_config \<Rightarrow> string \<Rightarrow> bool" where
  "usable J c response \<longleftrightarrow> response \<noteq> [] \<and>
     (case Option.bind (j_parse J response) (\<lambda>data. json_index J data ''current'') of
        None \<Rightarrow> False | Some current \<Rightarrow> station_packet J c current 1 0 \<noteq> None)"

lemma city_messages_count:
  assumes "\<And>j. j_dump2 J j \<noteq> None"
  shows "length (fst (city_messages J c response clock seq)) = (if usable J c response then 5 else 0)"
proof (cases "Option.bind (j_parse J response) (\<lambda>data. json_index J data ''current'')")
  case None
  then show ?thesis by (simp add: city_messages_def usable_def)
next
  case (Some current)
  have "length (fst (station_messages J c current clock [1..<stations_per_city + 1] seq))
      = (if station_packet J c current 1 0 = None then 0 else 5)"
    unfolding station_messages_all [OF assms] by (simp add: stations_per_city_def)
  then show ?thesis by (simp add: city_messages_def usable_def Some del: length_0_conv)
qed

lemma visit_cities_append:
  "visit_cities J fetch clock (m + n) index seq =
     (let (ms, index1, seq1) = visit_cities J fetch clock m index seq;
          (rest, index2, seq2) = visit_cities J fetch clock n index1 seq1
      in (ms @ rest, index2, seq2))"
  by (induction m arbitrary: index seq) (simp_all add: case_prod_beta Let_def)

lemma visit_cities_count:
  assumes "\<And>j. j_dump2 J j \<noteq> None"
  shows "fst (snd (visit_cities J fetch clock n index seq)) = index + n"
    "length (fst (visit_cities J fetch clock n index seq)) = 5 * length (filter
       (\<lambda>i. usable J (cities ! (i mod 16)) (fetch_weather_for_city (fetch i))) [index..<index + n])"
proof (induction n arbitrary: index seq)
  case (Suc n)
  {
    case 1
    show ?case using Suc(1) by (simp add: case_prod_beta Let_def)
  next
    case 2
    have "[index..<index + Suc n] = index # [Suc index..<Suc index + n]"
      by (simp add: upt_conv_Cons)
    then show ?case using Suc(2) city_messages_count [OF assms]
      by (simp add: case_prod_beta Let_def length_cities)
  }
qed simp_all

text \<open>Over \<open>k\<close> cycles the simulator sends five lines for each visit with a usable answer, visiting the
  table in its order, and reports once per cycle.\<close>

lemma simulator_cycles_count:
  assumes "\<And>j. j_dump2 J j \<noteq> None"
  shows "fst (simulator_cycles J fetch clock k index seq) = fst (visit_cities J fetch clock (4 * k) index seq)
    \<and> length (snd (simulator_cycles J fetch clock k index seq)) = k"
proof (induction k arbitrary: index seq)
  case (Suc k)
  have four: "cities_per_cycle = 4" by (simp add: cities_per_cycle_def length_cities)
  have "4 * Suc k = 4 + 4 * k" by simp
  then show ?case unfolding \<open>4 * Suc k = _\<close> visit_cities_append
    using Suc.IH by (simp add: case_prod_beta Let_def four)
qed simp

lemma simulator_sends:
  assumes "\<And>j. j_dump2 J j \<noteq> None"
  shows "length (fst (simulator_cycles J fetch clock k 0 seq))
    = 5 * length (filter (\<lambda>i. usable J (cities ! (i mod 16)) (fetch_weather_for_city (fetch i))) [0..<4 * k])"
  using simulator_cycles_count [OF assms, of fetch clock k 0 seq]
    visit_cities_count(2) [OF assms, of fetch clock "4 * k" 0 seq] assms by simp

end
