(* ===== verification/Services.thy ===== *)
theory Services
  imports Broker Collectors Async_Queue
begin

text \<open>
  The main programs that join the parts: \<open>aggregator/hierarchical/main.cpp\<close> (which aggregator of
  the topology runs, and the callback that sends an accepted envelope on),
  \<open>aggregator/india/main.cpp\<close> (a gateway with a TCP publisher) and \<open>timescale_writer/main.cpp\<close>
  (a subscriber whose pipeline submits to the asynchronous queue).
\<close>

section \<open>Choosing an aggregator\<close>

text \<open>The outer None stands for an exception, the inner one for a name that is not found.\<close>

definition find_aggregator :: "'j json_lib \<Rightarrow> 'j \<Rightarrow> string \<Rightarrow> 'j option option" where
  "find_aggregator J hierarchy name = do {
     regional \<leftarrow> json_index J hierarchy ''regional_aggregators'';
     r \<leftarrow> find_named J name (j_elems J regional);
     case r of
       Some a \<Rightarrow> Some (Some a)
     | None \<Rightarrow> do {
         continent \<leftarrow> json_index J hierarchy ''continent_aggregators'';
         c \<leftarrow> find_named J name (j_elems J continent);
         case c of
           Some a \<Rightarrow> Some (Some a)
         | None \<Rightarrow> do {
             global \<leftarrow> json_index J hierarchy ''global_aggregator'';
             n \<leftarrow> Option.bind (json_index J global ''name'') (j_get_string J);
             Some (if n = name then Some global else None)
           }
       }
   }"

record aggregator_plan =
  ap_name :: string
  ap_consume_topics :: "string list"
  ap_publish_topic :: string
  ap_listen_port :: int
  ap_tier :: string
  ap_forward_port :: int

definition aggregator_plan_of :: "'j json_lib \<Rightarrow> string \<Rightarrow> 'j \<Rightarrow> aggregator_plan option" where
  "aggregator_plan_of J name config = do {
     from_topics \<leftarrow> json_index J config ''consumes_from'';
     topics \<leftarrow> those (map (j_get_string J) (j_elems J from_topics));
     topic \<leftarrow> Option.bind (json_index J config ''publishes_to'') (j_get_string J);
     port \<leftarrow> Option.bind (json_index J config ''listen_port'') (j_get_int J);
     tier \<leftarrow> Option.bind (json_index J config ''tier'') (j_get_string J);
     forward \<leftarrow> Option.bind (json_index J config ''forward_to_port'') (j_get_int J);
     Some \<lparr>ap_name = name, ap_consume_topics = topics, ap_publish_topic = topic,
       ap_listen_port = port, ap_tier = tier, ap_forward_port = forward\<rparr>
   }"

datatype aggregator_start = Agg_exits int | Agg_throws | Agg_runs aggregator_plan

definition aggregator_main :: "'j json_lib \<Rightarrow> string list \<Rightarrow> (string \<Rightarrow> string option) \<Rightarrow> aggregator_start" where
  "aggregator_main J args file = (case args of
     [] \<Rightarrow> Agg_exits 1
   | name # rest \<Rightarrow>
       (let path = (case rest of p # _ \<Rightarrow> p | [] \<Rightarrow> collector_topology_path (\<lambda>f. file f \<noteq> None)) in
        case file path of
          None \<Rightarrow> Agg_exits 1
        | Some t \<Rightarrow> (case do {
              topology \<leftarrow> j_parse J t;
              top \<leftarrow> json_index J topology ''topology'';
              hierarchy \<leftarrow> json_index J top ''hierarchy'';
              find_aggregator J hierarchy name
            } of
              None \<Rightarrow> Agg_throws
            | Some None \<Rightarrow> Agg_exits 1
            | Some (Some config) \<Rightarrow>
                (if j_is_null J config then Agg_exits 1
                 else case aggregator_plan_of J name config of
                   None \<Rightarrow> Agg_throws | Some plan \<Rightarrow> Agg_runs plan))))"

text \<open>The topic the callback names; the TCP publisher ignores it.\<close>

definition forward_topic :: "aggregator_plan \<Rightarrow> string" where
  "forward_topic plan = (if ap_tier plan = ''global'' then ''timescale_raw'' else ap_publish_topic plan)"

section \<open>An aggregator at work\<close>

text \<open>The pipeline, the publisher of its callback, and the bytes sent so far.  \<open>sends\<close> is what
  \<open>send\<close> returns for a line, None when the connection is closed; the process ends then.\<close>

type_synonym 'j relay = "'j pipeline \<times> tcp_publisher \<times> string"

definition forward_accepted :: "'j json_lib \<Rightarrow> setup_answers \<Rightarrow> (string \<Rightarrow> int option) \<Rightarrow> 'j envelope \<Rightarrow>
    tcp_publisher \<times> string \<Rightarrow> (tcp_publisher \<times> string) option" where
  "forward_accepted J os sends e pw =
     (let (result, pub, out) = tcp_publish J os (sends (envelope_text J e @ nl)) e (fst pw)
      in after_publish (result, pub, snd pw @ out))"

definition aggregator_message :: "'j json_lib \<Rightarrow> log_env \<Rightarrow> setup_answers \<Rightarrow> (string \<Rightarrow> int option) \<Rightarrow> string \<Rightarrow>
    'j relay \<Rightarrow> 'j relay option" where
  "aggregator_message J env os sends message s = (case parse_envelope J message of
     None \<Rightarrow> Some s
   | Some e \<Rightarrow> (let (r, pl) = consume J env e (fst s) in
       map_option (Pair pl)
         (if r = Consumed True then forward_accepted J os sends e (snd s) else Some (snd s))))"

section \<open>The timescale writer at work\<close>

definition writer_config :: aq_config where
  "writer_config = \<lparr>aq_max_queue_size = 4096, aq_batch_size = 250\<rparr>"

definition writer_message :: "'j json_lib \<Rightarrow> log_env \<Rightarrow> string \<Rightarrow> 'j pipeline \<times> 'j async_queue \<Rightarrow>
    'j pipeline \<times> 'j async_queue" where
  "writer_message J env message s = (case parse_envelope J message of
     None \<Rightarrow> s
   | Some e \<Rightarrow> (let (r, pl) = consume J env e (fst s) in
       (pl, if r = Consumed True then snd (aq_submit J e (snd s)) else snd s)))"

text \<open>The writer as \<open>main\<close> builds it.\<close>

definition writer_start :: "metrics \<Rightarrow> 'j pipeline \<times> 'j async_queue" where
  "writer_start m = (pipeline_new ''timescale_writer'' True, async_queue_new writer_config m)"

section \<open>The India gateway\<close>

definition india_publish :: "'j json_lib \<Rightarrow> setup_answers \<Rightarrow> (string \<Rightarrow> int option) \<Rightarrow> string \<Rightarrow> 'j envelope \<Rightarrow>
    tcp_publisher \<times> string \<Rightarrow> publish_result \<times> tcp_publisher \<times> string" where
  "india_publish J os sends topic e pw =
     (let (result, pub, out) = tcp_publish J os (sends (envelope_text J e @ nl)) e (fst pw)
      in (result, pub, snd pw @ out))"

definition india_gateway_message :: "'j json_lib \<Rightarrow> setup_answers \<Rightarrow> (string \<Rightarrow> int option) \<Rightarrow> string \<Rightarrow>
    tcp_publisher \<times> string \<Rightarrow> (tcp_publisher \<times> string) option" where
  "india_gateway_message J os sends = gateway_handle J (india_publish J os sends)"

section \<open>What the services do with a stream of lines\<close>

definition accepted :: "'j json_lib \<Rightarrow> 'j envelope list \<Rightarrow> 'j envelope list" where
  "accepted J es = filter (\<lambda>e. decoded J e \<noteq> None) es"

lemma accepted_simps [simp]:
  "accepted J [] = []"
  "accepted J (e # es) = (if decoded J e = None then accepted J es else e # accepted J es)"
  "accepted J (accepted J es) = accepted J es"
  by (simp_all add: accepted_def)

lemma accepted_line_ok: "list_all (line_ok J) es \<Longrightarrow> list_all (line_ok J) (accepted J es)"
  by (auto simp: accepted_def list_all_iff)

text \<open>Without logging a call of \<open>consume\<close> returns true exactly for an accepted envelope.\<close>

lemma consume_plain:
  assumes "pl_inv pl" "\<not> le_enabled env" "consume J env e pl = (r, pl')"
  shows "(r = Consumed True) = (decoded J e \<noteq> None)" "pl_inv pl'"
proof -
  have "(r = Consumed True) = (decoded J e \<noteq> None) \<and> pl_inv pl'"
  proof (cases "decoded J e")
    case None
    then show ?thesis using assms(1,3) consume_rejects [OF None, of env pl] by auto
  next
    case (Some p)
    note a = consume_accepts [OF Some assms(1,3)]
    show ?thesis using a(2) assms(2) pl_inv_counters [OF a(1) assms(1)] Some by simp
  qed
  then show "(r = Consumed True) = (decoded J e \<noteq> None)" "pl_inv pl'" by simp_all
qed

text \<open>\<open>send\<close> takes the line it is given.\<close>

definition whole :: "string \<Rightarrow> int option" where
  "whole t = Some (int (length t))"

lemma forward_whole:
  assumes "tp_connected (tcp_connect os pub)" "0 \<le> active_fd (tp_socket (tcp_connect os pub))" "line_ok J e"
  shows "forward_accepted J os whole e (pub, w) = Some (tcp_connect os pub, w @ envelope_text J e @ nl)"
proof -
  have "tcp_publish J os (whole (envelope_text J e @ nl)) e pub
      = (Published True, tcp_connect os pub, envelope_text J e @ nl)"
    using tcp_publish_connected [OF assms, of os] tcp_publish_reconnects [OF assms(1), of J _ e]
    by (simp add: whole_def nl_def add.commute)
  then show ?thesis by (simp add: forward_accepted_def after_publish_def)
qed

lemma connect_again: "tp_connected (tcp_connect os pub) \<Longrightarrow> tcp_connect os (tcp_connect os pub) = tcp_connect os pub"
  by (simp add: tcp_connect_def [of os "tcp_connect os pub"])

lemma aggregator_relays:
  assumes "\<not> le_enabled env"
  shows "list_all (line_ok J) es \<Longrightarrow> pl_inv pl \<Longrightarrow> tp_connected (tcp_connect os pub) \<Longrightarrow>
    0 \<le> active_fd (tp_socket (tcp_connect os pub)) \<Longrightarrow>
    \<exists>pl' pub'. deliver (aggregator_message J env os whole) (map (envelope_text J) es) (pl, pub, w)
      = (Still_waiting, pl', pub', w @ lines_text (map (envelope_text J) (accepted J es)))"
proof (induction es arbitrary: pl pub w)
  case (Cons e es)
  obtain r pl' where r: "consume J env e pl = (r, pl')" by fastforce
  note c = consume_plain [OF Cons.prems(2) assms r]
  have "parse_envelope J (envelope_text J e) = Some e" "line_ok J e"
    using Cons.prems(1) by (simp_all add: line_ok_def)
  then show ?case
    using c Cons.prems r forward_whole [OF Cons.prems(3,4), of J e w]
      Cons.IH [OF _ c(2), of pub w] Cons.IH [OF _ c(2), of "tcp_connect os pub" "w @ envelope_text J e @ nl"]
    by (cases "decoded J e") (simp_all add: aggregator_message_def connect_again nl_def)
qed simp

lemma writer_submits:
  assumes "\<not> le_enabled env"
  shows "list_all (line_ok J) es \<Longrightarrow> pl_inv pl \<Longrightarrow>
    fold (writer_message J env) (map (envelope_text J) es) (pl, a)
      = (snd (consume_all J (map (Pair env) es) pl), fold (\<lambda>e a. snd (aq_submit J e a)) (accepted J es) a)"
proof (induction es arbitrary: pl a)
  case (Cons e es)
  obtain r pl' where r: "consume J env e pl = (r, pl')" by fastforce
  note c = consume_plain [OF Cons.prems(2) assms r]
  have "parse_envelope J (envelope_text J e) = Some e"
    using Cons.prems(1) by (simp add: line_ok_def)
  then show ?case
    using c Cons.prems r Cons.IH [OF _ c(2)]
    by (cases "decoded J e") (simp_all add: writer_message_def case_prod_beta)
qed simp

text \<open>The queue of the writer takes everything while there is room.\<close>

lemma submit_all:
  "aq_inv J a \<Longrightarrow> total_queue_size (aq_queues a) + length es \<le> aq_max_queue_size (aq_config a) \<Longrightarrow>
   queue_of (aq_queues (fold (\<lambda>e a. snd (aq_submit J e a)) es a)) r
     = queue_of (aq_queues a) r @ filter (\<lambda>e. extract_region J e = r) es"
proof (induction es arbitrary: a)
  case (Cons e es)
  from aq_submit_step [OF Cons.prems(1), of e] Cons.prems(2) obtain a' where
    a': "aq_submit J e a = (True, a')" "aq_inv J a'" "aq_config a' = aq_config a"
      "\<forall>r. queue_of (aq_queues a') r = queue_of (aq_queues a) r @ (if r = extract_region J e then [e] else [])"
    by auto
  have "smap_inv (aq_queues a)" using Cons.prems(1) by (simp add: aq_inv_def queues_inv_def)
  then have "total_queue_size (aq_queues a') = Suc (total_queue_size (aq_queues a))"
    using a'(1) total_modify [of "aq_queues a"] by (auto simp: aq_submit_def Let_def split: if_splits)
  then show ?case using Cons.IH [OF a'(2)] Cons.prems(2) a' by auto
qed simp

section \<open>Tiers\<close>

text \<open>Bytes relayed through a number of aggregators: each starts fresh, receives what the one
  before has sent, and its publisher connects.\<close>

inductive relayed :: "'j json_lib \<Rightarrow> setup_answers \<Rightarrow> nat \<Rightarrow> string \<Rightarrow> string \<Rightarrow> bool"
  for J :: "'j json_lib" and os where
  Source: "relayed J os 0 w w"
| Tier: "relayed J os k w w1 \<Longrightarrow> arrives client 1000 wake True steps w1 \<Longrightarrow> 0 \<le> client \<Longrightarrow>
    length steps < n \<Longrightarrow> \<not> le_enabled env \<Longrightarrow>
    client_session client wake (aggregator_message J env os whole) (replicate n True) steps
      (pipeline_new name True, tcp_publisher_new, []) = (ended, pl, pub, w2) \<Longrightarrow>
    relayed J os (Suc k) w w2"

lemma pl_inv_new: "pl_inv (pipeline_new name callback)"
  by (simp add: pl_inv_def pipeline_new_def smap_inv_def)

text \<open>What one aggregator sends when the lines of \<open>fs\<close> arrive.\<close>

lemma tier_output:
  assumes "list_all (line_ok J) fs" "arrives client 1000 wake True steps (lines_text (map (envelope_text J) fs))"
    "0 \<le> client" "length steps < n" "\<not> le_enabled env" "fst (connect_to_server os tcp_socket_new)"
    "client_session client wake (aggregator_message J env os whole) (replicate n True) steps
       (pipeline_new name True, tcp_publisher_new, []) = (ended, pl, pub, w)"
  shows "w = lines_text (map (envelope_text J) (accepted J fs))"
proof -
  have "client_session client wake (aggregator_message J env os whole) (replicate n True) steps
      (pipeline_new name True, tcp_publisher_new, [])
      = deliver (aggregator_message J env os whole) (map (envelope_text J) fs)
          (pipeline_new name True, tcp_publisher_new, [])"
    by (rule session_lines [OF assms(1,3,4,2)])
  moreover have "\<exists>pl' pub'. deliver (aggregator_message J env os whole) (map (envelope_text J) fs)
      (pipeline_new name True, tcp_publisher_new, [])
      = (Still_waiting, pl', pub', lines_text (map (envelope_text J) (accepted J fs)))"
    using aggregator_relays [OF assms(5,1) pl_inv_new connect_fresh [OF assms(6)], of name True "[]"] by simp
  ultimately show ?thesis using assms(7) by auto
qed

lemma relayed_lines:
  "relayed J os k w wk \<Longrightarrow> w = lines_text (map (envelope_text J) es) \<Longrightarrow> list_all (line_ok J) es \<Longrightarrow>
   fst (connect_to_server os tcp_socket_new) \<Longrightarrow>
   \<exists>fs. wk = lines_text (map (envelope_text J) fs) \<and> list_all (line_ok J) fs \<and> accepted J fs = accepted J es"
proof (induction rule: relayed.induct)
  case (Source w)
  then show ?case by blast
next
  case (Tier k w w1 client wake steps n env name ended pl pub w2)
  then obtain fs where fs: "w1 = lines_text (map (envelope_text J) fs)" "list_all (line_ok J) fs"
    "accepted J fs = accepted J es" by blast
  from tier_output [OF fs(2) Tier.hyps(2) [unfolded fs(1)] Tier.hyps(3-5) Tier.prems(3) Tier.hyps(6)]
  show ?case using fs accepted_line_ok [OF fs(2)] by (intro exI [of _ "accepted J fs"]) simp
qed

text \<open>What the writer holds when the last line is handled.\<close>

lemma accepted_count:
  "length (List.map_filter (decoded J \<circ> snd) (map (Pair env) es)) = length (accepted J es)"
  by (induction es) (auto simp: List.map_filter_simps split: option.splits)

lemma accepted_total:
  "pl_total_packets (snd (consume_all J (map (Pair env) es) (pipeline_new name True)))
     = of_nat (length (accepted J es))"
proof -
  obtain rs pl where run: "consume_all J (map (Pair env) es) (pipeline_new name True) = (rs, pl)" by fastforce
  have "counters (pipeline_new name True :: 'a pipeline) = (0, [], Fin 0)"
    by (simp add: pipeline_new_def counters_def)
  note all = consume_all_run [OF pl_inv_new run, unfolded this]
  have "fold count_packet (List.map_filter (decoded J \<circ> snd) (map (Pair env) es)) (0, [], Fin 0)
      = (pl_total_packets pl, pl_packets_by_city pl, pl_temperature_sum pl)"
    using all by (simp add: counters_def)
  from fold_count_packet [OF _ this] show ?thesis
    by (simp add: run smap_inv_def accepted_count)
qed

lemma writer_fresh_queue:
  assumes "length (accepted J es) \<le> 4096"
  shows "queue_of (aq_queues (fold (\<lambda>e a. snd (aq_submit J e a)) (accepted J es)
      (async_queue_new writer_config m))) r = filter (\<lambda>e. extract_region J e = r) (accepted J es)"
  using submit_all [OF aq_inv_new, of writer_config m "accepted J es"] assms
  by (simp add: async_queue_new_def writer_config_def queue_of_def total_queue_size_def)

text \<open>A concrete setting: nothing is logged, and one acceptable envelope.\<close>

definition quiet :: log_env where
  "quiet = \<lparr>le_enabled = False, le_map_open = True, le_open = True\<rparr>"

lemma demo_decoded: "decoded one_line demo_envelope = Some demo_packet"
proof -
  have "weather_packet_from_envelope one_line demo_envelope = Some demo_packet"
    unfolding demo_packet_def by code_simp
  moreover have "acceptable demo_packet"
    by (simp add: acceptable_def demo_packet_def packet_init_def measured_in_def d_in_def)
  ultimately show ?thesis by (simp add: decoded_def)
qed

end
