(* ===== verification/Collector_Process.thy ===== *)
theory Collector_Process
  imports Collectors Transitions
begin

text \<open>
  The process of a collector (\<open>collectors/regional/main.cpp\<close>; that of \<open>collectors/south_india\<close>,
  at the end, differs in its plan and names only): a thread per city in \<open>pollCity\<close>, and the sender thread of
  \<open>main\<close>.  They share the bounded queue and the \<open>running\<close> flag.  A step is one lock region, one
  reading of the flag, one call of the HTTP library or one publication; steps interleave freely.
\<close>

section \<open>State\<close>

text \<open>Where a poll thread is; the number is that of the sample point in the inner loop.\<close>

datatype 'j poll_pc =
    P_begin
  | P_head
  | P_next nat
  | P_fetch nat
  | P_check nat 'j
  | P_push nat weather_packet
  | P_wait
  | P_over

datatype sender_pc = S_head | S_take | S_send weather_packet | S_over

record 'j poll_thread =
  pt_place :: place
  pt_points :: "city_sample_point list"
  pt_pc :: "'j poll_pc"

text \<open>The last three members record the packets pushed, the packets taken, and the envelopes
  published with what \<open>publish_to_topic\<close> returned.\<close>

record 'j collector_process =
  cs_running :: bool
  cs_queue :: "weather_packet list"
  cs_polls :: "'j poll_thread list"
  cs_sender :: sender_pc
  cs_names :: sender_names
  cs_publisher :: tcp_publisher
  cs_seq :: u64
  cs_wire :: string
  cs_pushed :: "weather_packet list"
  cs_taken :: "weather_packet list"
  cs_published :: "('j envelope \<times> bool) list"

definition collector_start :: "collector_plan \<Rightarrow> 'j collector_process" where
  "collector_start plan = \<lparr>cs_running = True, cs_queue = [],
     cs_polls = map (\<lambda>(pc, points). \<lparr>pt_place = pc, pt_points = points, pt_pc = P_begin\<rparr>) (cp_threads plan),
     cs_sender = S_head, cs_names = cp_names plan, cs_publisher = tcp_publisher_new, cs_seq = 0, cs_wire = [],
     cs_pushed = [], cs_taken = [], cs_published = []\<rparr>"

section \<open>A poll thread\<close>

text \<open>What the libraries answer: whether a handle could be made, the body of the answer, the clock.\<close>

record poll_answers =
  pa_curl :: bool
  pa_response :: "string option"
  pa_now :: int

definition set_pc :: "nat \<Rightarrow> 'j poll_pc \<Rightarrow> 'j collector_process \<Rightarrow> 'j collector_process" where
  "set_pc i pc s = s\<lparr>cs_polls := (cs_polls s)[i := (cs_polls s ! i)\<lparr>pt_pc := pc\<rparr>]\<rparr>"

definition poll_step :: "'j json_lib \<Rightarrow> nat \<Rightarrow> poll_answers \<Rightarrow> 'j collector_process \<Rightarrow>
    'j collector_process outcome" where
  "poll_step J i ans s =
     (if length (cs_polls s) \<le> i then Blocked
      else (let t = cs_polls s ! i in case pt_pc t of
          P_begin \<Rightarrow> Next (set_pc i (if pa_curl ans then P_head else P_over) s)
        | P_head \<Rightarrow> Next (set_pc i (if cs_running s then P_next 0 else P_over) s)
        | P_next k \<Rightarrow> Next (set_pc i (if k < length (pt_points t) \<and> cs_running s then P_fetch k else P_wait) s)
        | P_fetch k \<Rightarrow> Next (set_pc i (P_check k (fetch_weather_data J (pa_response ans))) s)
        | P_check k weather \<Rightarrow>
            (if \<not> cs_running s then Next (set_pc i P_wait s)
             else (case poll_sample J (pt_place t) (pt_points t ! k) weather (pa_now ans) of
                 Polled p \<Rightarrow> Next (set_pc i (P_push k p) s)
               | Fetch_failed \<Rightarrow> Next (set_pc i (P_next (Suc k)) s)
               | Terminated \<Rightarrow> Fault))
        | P_push k p \<Rightarrow>
            (if \<not> cs_running s then Next (set_pc i P_wait s)
             else (case collector_push p (cs_queue s) of
                 None \<Rightarrow> Blocked
               | Some queue \<Rightarrow> Next (set_pc i (P_next (Suc k))
                   (s\<lparr>cs_queue := queue, cs_pushed := cs_pushed s @ [p]\<rparr>))))
        | P_wait \<Rightarrow> Next (set_pc i P_head s)
        | P_over \<Rightarrow> Blocked))"

section \<open>The sender\<close>

text \<open>The readings of the clock and what the socket calls and \<open>send\<close> answer.  An exception of \<open>dump\<close>, and
  \<open>SIGPIPE\<close> from a connection the server has closed, end the process.\<close>

record sender_answers =
  sa_now1 :: int
  sa_now2 :: int
  sa_setup :: setup_answers
  sa_sent :: "int option"

definition sender_step :: "'j json_lib \<Rightarrow> sender_answers \<Rightarrow> 'j collector_process \<Rightarrow> 'j collector_process outcome" where
  "sender_step J ans s = (case cs_sender s of
      S_head \<Rightarrow> Next (s\<lparr>cs_sender := if cs_running s then S_take else S_over\<rparr>)
    | S_take \<Rightarrow>
        (if \<not> cs_running s then Next (s\<lparr>cs_sender := S_over\<rparr>)
         else (case collector_pop (cs_queue s) of
             None \<Rightarrow> Blocked
           | Some (p, queue) \<Rightarrow> Next (s\<lparr>cs_queue := queue, cs_sender := S_send p, cs_taken := cs_taken s @ [p]\<rparr>)))
    | S_send p \<Rightarrow>
        (let (e, seq) = sender_envelope J (cs_names s) p (sa_now1 ans) (sa_now2 ans) (cs_seq s);
             (result, pub, out) = tcp_publish J (sa_setup ans) (sa_sent ans) e (cs_publisher s)
         in case result of
              Published ok \<Rightarrow> Next (s\<lparr>cs_sender := S_head, cs_seq := seq, cs_publisher := pub,
                cs_wire := cs_wire s @ out, cs_published := cs_published s @ [(e, ok)]\<rparr>)
            | _ \<Rightarrow> Fault)
    | S_over \<Rightarrow> Blocked)"

datatype collector_thread = Poll nat poll_answers | Sender sender_answers

fun collector_thread_step :: "'j json_lib \<Rightarrow> collector_thread \<Rightarrow> 'j collector_process \<Rightarrow>
    'j collector_process outcome" where
  "collector_thread_step J (Poll i ans) s = poll_step J i ans s"
| "collector_thread_step J (Sender ans) s = sender_step J ans s"

text \<open>None: the signal handler clears the flag.\<close>

fun collector_step :: "'j json_lib \<Rightarrow> collector_thread option \<Rightarrow> 'j collector_process \<Rightarrow>
    'j collector_process outcome" where
  "collector_step J None s = Next (s\<lparr>cs_running := False\<rparr>)"
| "collector_step J (Some t) s = collector_thread_step J t s"

section \<open>What the threads preserve\<close>

text \<open>A packet of a thread: its place, and a point it was asked to poll.\<close>

definition packet_of :: "'j poll_thread \<Rightarrow> weather_packet \<Rightarrow> bool" where
  "packet_of t p \<longleftrightarrow> continent p = pc_continent (pt_place t) \<and> country p = pc_country (pt_place t)
     \<and> region p = pc_region (pt_place t) \<and> city p = pc_city (pt_place t)
     \<and> (\<exists>x\<in>set (pt_points t). latitude p = sp_latitude x \<and> longitude p = sp_longitude x \<and> station_id p = sp_label x)"

fun sender_holds :: "sender_pc \<Rightarrow> weather_packet list" where
  "sender_holds (S_send p) = [p]"
| "sender_holds _ = []"

definition envelope_of :: "'j json_lib \<Rightarrow> sender_names \<Rightarrow> u64 \<Rightarrow> weather_packet \<Rightarrow> 'j envelope \<Rightarrow> bool" where
  "envelope_of J names seq p e \<longleftrightarrow> (\<exists>now1 now2. e = fst (sender_envelope J names p now1 now2 seq))"

definition in_range :: "'j poll_thread \<Rightarrow> bool" where
  "in_range t \<longleftrightarrow> (case pt_pc t of P_fetch k \<Rightarrow> k < length (pt_points t)
     | P_check k w \<Rightarrow> k < length (pt_points t)
     | P_push k p \<Rightarrow> packet_of t p | _ \<Rightarrow> True)"

definition cs_inv :: "'j json_lib \<Rightarrow> 'j collector_process \<Rightarrow> bool" where
  "cs_inv J s \<longleftrightarrow>
     cs_pushed s = cs_taken s @ cs_queue s
     \<and> length (cs_queue s) \<le> collector_queue_size
     \<and> list_all in_range (cs_polls s)
     \<and> (\<forall>p\<in>set (cs_pushed s). \<exists>t\<in>set (cs_polls s). packet_of t p)
     \<and> length (cs_taken s) = length (cs_published s) + length (sender_holds (cs_sender s))
     \<and> cs_taken s = take (length (cs_published s)) (cs_taken s) @ sender_holds (cs_sender s)
     \<and> cs_seq s = of_nat (length (cs_published s))
     \<and> (\<forall>i<length (cs_published s). envelope_of J (cs_names s) (of_nat i) (cs_taken s ! i) (fst (cs_published s ! i)))"

lemma cs_inv_start: "cs_inv J (collector_start plan)"
  by (auto simp: cs_inv_def collector_start_def in_range_def list_all_iff)

lemma packet_of_pc [simp]: "packet_of (t\<lparr>pt_pc := pc\<rparr>) p = packet_of t p"
  by (simp add: packet_of_def)

lemma set_pc_simps [simp]:
  "cs_running (set_pc i pc s) = cs_running s" "cs_queue (set_pc i pc s) = cs_queue s"
  "cs_sender (set_pc i pc s) = cs_sender s" "cs_names (set_pc i pc s) = cs_names s"
  "cs_seq (set_pc i pc s) = cs_seq s" "cs_pushed (set_pc i pc s) = cs_pushed s"
  "cs_taken (set_pc i pc s) = cs_taken s" "cs_published (set_pc i pc s) = cs_published s"
  "length (cs_polls (set_pc i pc s)) = length (cs_polls s)"
  by (simp_all add: set_pc_def)

lemma polls_packet_of:
  assumes "i < length (cs_polls s)"
  shows "(\<exists>t\<in>set (cs_polls (set_pc i pc s)). packet_of t p) = (\<exists>t\<in>set (cs_polls s). packet_of t p)"
  using assms by (auto simp: set_pc_def in_set_conv_nth nth_list_update Bex_def) (metis packet_of_pc)+

lemma inv_set_pc:
  assumes "cs_inv J s" "i < length (cs_polls s)" "in_range ((cs_polls s ! i)\<lparr>pt_pc := pc\<rparr>)"
  shows "cs_inv J (set_pc i pc s)"
proof -
  have "list_all in_range (cs_polls (set_pc i pc s))"
    using assms by (auto simp: cs_inv_def set_pc_def list_all_length nth_list_update)
  then show ?thesis using assms(1) by (simp add: cs_inv_def polls_packet_of [OF assms(2)])
qed

lemma inv_push:
  assumes "cs_inv J s" "collector_push p (cs_queue s) = Some queue" "t \<in> set (cs_polls s)" "packet_of t p"
  shows "cs_inv J (s\<lparr>cs_queue := queue, cs_pushed := cs_pushed s @ [p]\<rparr>)"
  using assms by (auto simp: cs_inv_def collector_push_def split: if_splits)

lemma polled_packet_of:
  assumes "poll_sample J (pt_place t) (pt_points t ! k) weather now = Polled p" "k < length (pt_points t)"
  shows "packet_of t p"
proof -
  obtain current where "polled_packet J (pt_place t) (pt_points t ! k) current now = Some p"
    using assms(1) by (auto simp: poll_sample_def split: option.splits)
  from polled_packet_fields [OF this] assms(2) show ?thesis by (auto simp: packet_of_def)
qed

lemma inv_poll:
  assumes "cs_inv J s" "poll_step J i ans s = Next s'"
  shows "cs_inv J s'"
proof -
  define t where "t = cs_polls s ! i"
  have i: "i < length (cs_polls s)" using assms(2) by (auto simp: poll_step_def split: if_splits)
  have range: "in_range t" using assms(1) i by (auto simp: cs_inv_def t_def list_all_length)
  note to = inv_set_pc [OF assms(1) i, folded t_def]
  show ?thesis
  proof (cases "pt_pc t")
    case (P_fetch k)
    then show ?thesis using assms(2) i range to [of "P_check k (fetch_weather_data J (pa_response ans))"]
      by (simp add: poll_step_def t_def [symmetric] in_range_def)
  next
    case (P_check k weather)
    have "cs_inv J (set_pc i (P_push k p) s)"
      if "poll_sample J (pt_place t) (pt_points t ! k) weather (pa_now ans) = Polled p" for p
    proof (rule to)
      have "k < length (pt_points t)" using range P_check by (simp add: in_range_def)
      from polled_packet_of [OF that this]
      show "in_range (t\<lparr>pt_pc := P_push k p\<rparr>)" by (simp add: in_range_def)
    qed
    then show ?thesis
      using P_check assms(2) i to [of P_wait] to [of "P_next (Suc k)"]
      by (auto simp: poll_step_def t_def [symmetric] in_range_def Let_def split: if_splits poll_result.splits)
  next
    case (P_push k p)
    show ?thesis
    proof (cases "cs_running s")
      case False
      then show ?thesis using assms(2) i P_push to [of P_wait]
        by (simp add: poll_step_def t_def [symmetric] in_range_def)
    next
      case True
      then obtain queue where q: "collector_push p (cs_queue s) = Some queue"
        "s' = set_pc i (P_next (Suc k)) (s\<lparr>cs_queue := queue, cs_pushed := cs_pushed s @ [p]\<rparr>)"
        using assms(2) i P_push by (auto simp: poll_step_def t_def [symmetric] Let_def split: option.splits)
      have "t \<in> set (cs_polls s)" "packet_of t p" using i range P_push by (simp_all add: t_def in_range_def)
      from inv_push [OF assms(1) q(1) this] show ?thesis
        unfolding q(2) using i by (intro inv_set_pc) (simp_all add: in_range_def)
    qed
  qed (use assms(2) i to in \<open>auto simp: poll_step_def t_def [symmetric] in_range_def Let_def
      split: if_splits\<close>)
qed

lemma sender_envelope_counter: "snd (sender_envelope J names p now1 now2 seq) = seq + 1"
  by (simp add: sender_envelope_def make_weather_packet_envelope_def generate_message_id_def)

lemma inv_sender:
  assumes "cs_inv J s" "sender_step J ans s = Next s'"
  shows "cs_inv J s'"
proof (cases "cs_sender s")
  case S_take
  then show ?thesis using assms
    by (auto simp: sender_step_def cs_inv_def collector_pop_def nth_append split: if_splits list.splits)
next
  case (S_send p)
  obtain e seq where e: "sender_envelope J (cs_names s) p (sa_now1 ans) (sa_now2 ans) (cs_seq s) = (e, seq)"
    by fastforce
  obtain ok pub out where s': "s' = s\<lparr>cs_sender := S_head, cs_seq := seq, cs_publisher := pub,
      cs_wire := cs_wire s @ out, cs_published := cs_published s @ [(e, ok)]\<rparr>"
    using assms(2) S_send e by (auto simp: sender_step_def Let_def split: prod.splits publish_result.splits)
  have "e = fst (sender_envelope J (cs_names s) p (sa_now1 ans) (sa_now2 ans) (cs_seq s))"
    by (simp add: e)
  then have "envelope_of J (cs_names s) (cs_seq s) p e" unfolding envelope_of_def by blast
  then have seq: "seq = cs_seq s + 1" "envelope_of J (cs_names s) (cs_seq s) p e"
    using sender_envelope_counter [of J "cs_names s" p "sa_now1 ans" "sa_now2 ans" "cs_seq s"]
    by (simp_all add: e)
  let ?n = "length (cs_published s)"
  have len: "length (cs_taken s) = Suc ?n" and taken: "cs_taken s = take ?n (cs_taken s) @ [p]"
    using assms(1) S_send by (simp_all add: cs_inv_def)
  then have last: "cs_taken s ! ?n = p" by (metis length_take min.absorb2 le_Suc_eq nth_append_length order_refl)
  have "envelope_of J (cs_names s) (of_nat i) (cs_taken s ! i) (fst ((cs_published s @ [(e, ok)]) ! i))"
    if "i < Suc ?n" for i
    using that assms(1) seq(2) last by (cases "i = ?n") (auto simp: cs_inv_def nth_append)
  then show ?thesis using assms(1) S_send len seq(1) by (simp add: s' cs_inv_def add.commute)
qed (use assms in \<open>auto simp: sender_step_def cs_inv_def split: if_splits\<close>)

lemma inv_collector_step:
  assumes "cs_inv J s" "collector_step J a s = Next s'"
  shows "cs_inv J s'"
proof (cases a)
  case None
  then show ?thesis using assms by (auto simp: cs_inv_def)
next
  case (Some t)
  then show ?thesis using assms inv_poll [OF assms(1)] inv_sender [OF assms(1)] by (cases t) auto
qed

interpretation collector: preserved "collector_step J" "cs_inv J" for J :: "'j json_lib"
  by unfold_locales (rule inv_collector_step)

section \<open>What the plan and the flag determine\<close>

definition follows :: "collector_plan \<Rightarrow> 'j collector_process \<Rightarrow> bool" where
  "follows plan s \<longleftrightarrow> map (\<lambda>t. (pt_place t, pt_points t)) (cs_polls s) = cp_threads plan
     \<and> cs_names s = cp_names plan \<and> (cs_running s \<longrightarrow> cs_sender s \<noteq> S_over)"

lemma follows_start: "follows plan (collector_start plan)"
  by (simp add: follows_def collector_start_def comp_def case_prod_beta)

lemma set_pc_places:
  "map (\<lambda>t. (pt_place t, pt_points t)) (cs_polls (set_pc i pc s)) = map (\<lambda>t. (pt_place t, pt_points t)) (cs_polls s)"
  by (cases "i < length (cs_polls s)")
    (simp_all add: set_pc_def map_update list_update_same_conv list_update_beyond)

lemma poll_step_cases:
  assumes "poll_step J i ans s = Next s'"
  obtains pc where "i < length (cs_polls s)" "s' = set_pc i pc s"
  | k p queue where "i < length (cs_polls s)" "cs_running s" "pt_pc (cs_polls s ! i) = P_push k p"
      "collector_push p (cs_queue s) = Some queue"
      "s' = set_pc i (P_next (Suc k)) (s\<lparr>cs_queue := queue, cs_pushed := cs_pushed s @ [p]\<rparr>)"
  using assms
  by (auto simp: poll_step_def Let_def split: if_splits poll_pc.splits poll_result.splits option.splits)

lemma follows_step:
  assumes "follows plan s" "collector_step J a s = Next s'"
  shows "follows plan s'"
proof (cases a)
  case None
  then show ?thesis using assms by (auto simp: follows_def)
next
  case (Some t)
  show ?thesis
  proof (cases t)
    case (Poll i ans)
    then have "poll_step J i ans s = Next s'" using Some assms(2) by simp
    then show ?thesis using assms(1) by (cases rule: poll_step_cases) (simp_all add: follows_def set_pc_places)
  next
    case (Sender ans)
    then have "sender_step J ans s = Next s'" using Some assms(2) by simp
    then show ?thesis using assms(1)
      by (auto simp: follows_def sender_step_def Let_def split: sender_pc.splits if_splits option.splits prod.splits publish_result.splits)
  qed
qed

interpretation collector_plan: preserved "collector_step J" "follows plan" for J :: "'j json_lib" and plan
  by unfold_locales (rule follows_step)

lemma envelope_ids:
  "envelope_of J names q1 p1 e1 \<Longrightarrow> envelope_of J names q2 p2 e2 \<Longrightarrow> message_id e1 = message_id e2 \<Longrightarrow> q1 = q2"
  by (auto simp: envelope_of_def sender_envelope_def make_weather_packet_envelope_def case_prod_beta
      dest: generated_id_counter)

text \<open>
  C37: the collector process.  In every state its threads can reach together the packets pushed
  are, in order, those the sender has taken and those in the queue, which holds at most 100; the
  i-th packet taken is the payload of the i-th envelope published, except for one that may be in
  the sender's hands; every packet is one of a city and a sample point of the plan; and the first
  \<open>2 ^ 64\<close> envelopes have pairwise different identifiers.
\<close>

theorem collector_process_accounts:
  assumes "reaches (collector_step J) (collector_start plan) s"
  shows "cs_pushed s = cs_taken s @ cs_queue s \<and> length (cs_queue s) \<le> 100
    \<and> length (cs_taken s) = length (cs_published s) + length (sender_holds (cs_sender s))
    \<and> (\<forall>i<length (cs_published s).
         envelope_of J (cp_names plan) (of_nat i) (cs_taken s ! i) (fst (cs_published s ! i)))
    \<and> (\<forall>p\<in>set (cs_pushed s). \<exists>(pc, points)\<in>set (cp_threads plan).
         continent p = pc_continent pc \<and> country p = pc_country pc \<and> region p = pc_region pc \<and> city p = pc_city pc
         \<and> (\<exists>x\<in>set points. latitude p = sp_latitude x \<and> longitude p = sp_longitude x \<and> station_id p = sp_label x))
    \<and> (length (cs_published s) \<le> 2 ^ 64 \<longrightarrow> distinct (map (\<lambda>(e, ok). message_id e) (cs_published s)))"
proof -
  have inv: "cs_inv J s" by (rule collector.reaches_good [OF assms cs_inv_start])
  have fol: "follows plan s" by (rule collector_plan.reaches_good [OF assms follows_start])
  have env: "envelope_of J (cp_names plan) (of_nat i) (cs_taken s ! i) (fst (cs_published s ! i))"
    if "i < length (cs_published s)" for i
    using inv fol that by (simp add: cs_inv_def follows_def)
  have "distinct (map (\<lambda>(e, ok). message_id e) (cs_published s))" if "length (cs_published s) \<le> 2 ^ 64"
    unfolding distinct_conv_nth
  proof (intro allI impI)
    fix i j
    assume ij: "i < length (map (\<lambda>(e, ok). message_id e) (cs_published s))"
      "j < length (map (\<lambda>(e, ok). message_id e) (cs_published s))" "i \<noteq> j"
    then have "(of_nat i :: u64) \<noteq> of_nat j"
      using that by (simp add: word_of_nat_eq_iff take_bit_nat_eq_self)
    then show "map (\<lambda>(e, ok). message_id e) (cs_published s) ! i \<noteq> map (\<lambda>(e, ok). message_id e) (cs_published s) ! j"
      using ij envelope_ids [OF env env, of i j] by (auto simp: case_prod_beta)
  qed
  moreover have "\<exists>(pc, points)\<in>set (cp_threads plan).
         continent p = pc_continent pc \<and> country p = pc_country pc \<and> region p = pc_region pc \<and> city p = pc_city pc
         \<and> (\<exists>x\<in>set points. latitude p = sp_latitude x \<and> longitude p = sp_longitude x \<and> station_id p = sp_label x)"
    if "p \<in> set (cs_pushed s)" for p
  proof -
    have "\<forall>p\<in>set (cs_pushed s). \<exists>t\<in>set (cs_polls s). packet_of t p" using inv by (simp add: cs_inv_def)
    with that obtain t where t: "t \<in> set (cs_polls s)" "packet_of t p" by blast
    then have "(pt_place t, pt_points t) \<in> set (map (\<lambda>t. (pt_place t, pt_points t)) (cs_polls s))" by auto
    then have "(pt_place t, pt_points t) \<in> set (cp_threads plan)" using fol by (simp only: follows_def)
    with t(2) show ?thesis by (auto simp: packet_of_def intro!: bexI [of _ "(pt_place t, pt_points t)"])
  qed
  ultimately show ?thesis using inv env by (simp add: cs_inv_def collector_queue_size_def)
qed

section \<open>Shutting down\<close>

fun poll_rank :: "'j poll_pc \<Rightarrow> nat" where
  "poll_rank P_over = 0"
| "poll_rank P_head = 1"
| "poll_rank P_wait = 2"
| "poll_rank P_begin = 2"
| "poll_rank (P_fetch k) = 4"
| "poll_rank _ = 3"

fun sender_rank :: "sender_pc \<Rightarrow> nat" where
  "sender_rank S_over = 0"
| "sender_rank (S_send p) = 2"
| "sender_rank _ = 1"

definition collector_rank :: "'j collector_process \<Rightarrow> nat" where
  "collector_rank s = sum_list (map (\<lambda>t. poll_rank (pt_pc t)) (cs_polls s)) + sender_rank (cs_sender s)"

lemma collector_rank_bound: "collector_rank s \<le> 4 * length (cs_polls s) + 2"
proof -
  have "poll_rank pc \<le> 4" for pc :: "'a poll_pc" by (cases pc) simp_all
  then have "sum_list (map (\<lambda>t. poll_rank (pt_pc t)) ts) \<le> 4 * length ts" for ts :: "'a poll_thread list"
    by (induction ts) (simp_all add: add_mono)
  moreover have "sender_rank (cs_sender s) \<le> 2" by (cases "cs_sender s") simp_all
  ultimately show ?thesis unfolding collector_rank_def by (meson add_mono)
qed

lemma sum_list_lower:
  "i < length ts \<Longrightarrow> f t' < (f (ts ! i) :: nat) \<Longrightarrow> sum_list (map f (ts[i := t'])) < sum_list (map f ts)"
proof (induction ts arbitrary: i)
  case (Cons t ts)
  then show ?case by (cases i) simp_all
qed simp

lemma poll_lowers:
  assumes "\<not> cs_running s" "poll_step J i ans s = Next s'"
  obtains pc where "i < length (cs_polls s)" "s' = set_pc i pc s"
    "poll_rank pc < poll_rank (pt_pc (cs_polls s ! i))"
  using assms by (auto simp: poll_step_def Let_def split: if_splits poll_pc.splits)

lemma poll_closing:
  assumes "\<not> cs_running s" "poll_step J i ans s = Next s'"
  shows "collector_rank s' < collector_rank s" "cs_queue s' = cs_queue s" "\<not> cs_running s'"
    "length (cs_polls s') = length (cs_polls s)"
proof -
  obtain pc where i: "i < length (cs_polls s)" and s': "s' = set_pc i pc s"
    and "poll_rank pc < poll_rank (pt_pc (cs_polls s ! i))"
    using assms by (rule poll_lowers)
  then show "collector_rank s' < collector_rank s"
    using sum_list_lower [OF i, of "\<lambda>t. poll_rank (pt_pc t)" "(cs_polls s ! i)\<lparr>pt_pc := pc\<rparr>"]
    by (simp add: collector_rank_def set_pc_def)
  show "cs_queue s' = cs_queue s" "\<not> cs_running s'" "length (cs_polls s') = length (cs_polls s)"
    using assms(1) by (simp_all add: s')
qed

lemma sender_closing:
  assumes "\<not> cs_running s" "sender_step J ans s = Next s'"
  shows "collector_rank s' < collector_rank s" "cs_queue s' = cs_queue s" "\<not> cs_running s'"
    "length (cs_polls s') = length (cs_polls s)"
  using assms
  by (auto simp: sender_step_def collector_rank_def Let_def split: sender_pc.splits option.splits prod.splits publish_result.splits)

interpretation collector_closing: ranked "collector_thread_step J"
  "\<lambda>s. \<not> cs_running s \<and> cs_queue s = queue \<and> length (cs_polls s) = n" collector_rank
  for J :: "'j json_lib" and queue n
proof
  fix s a and s' :: "'j collector_process"
  assume g: "\<not> cs_running s \<and> cs_queue s = queue \<and> length (cs_polls s) = n"
    and st: "collector_thread_step J a s = Next s'"
  have "collector_rank s' < collector_rank s \<and> cs_queue s' = cs_queue s \<and> \<not> cs_running s'
      \<and> length (cs_polls s') = length (cs_polls s)"
  proof (cases a)
    case (Poll i ans)
    then show ?thesis using g st poll_closing [of s J i ans s'] by simp
  next
    case (Sender ans)
    then show ?thesis using g st sender_closing [of s J ans s'] by simp
  qed
  then show "\<not> cs_running s' \<and> cs_queue s' = queue \<and> length (cs_polls s') = n" "collector_rank s' < collector_rank s"
    using g by simp_all
qed

lemma poll_blocked:
  "poll_step J i ans s = Blocked \<longleftrightarrow> length (cs_polls s) \<le> i \<or> pt_pc (cs_polls s ! i) = P_over
     \<or> (\<exists>k p. pt_pc (cs_polls s ! i) = P_push k p) \<and> cs_running s \<and> collector_queue_size \<le> length (cs_queue s)"
  by (auto simp: poll_step_def Let_def collector_push_def
      split: poll_pc.split poll_result.split if_splits)

lemma sender_blocked:
  "sender_step J ans s = Blocked \<longleftrightarrow> cs_sender s = S_over \<or> cs_sender s = S_take \<and> cs_running s \<and> cs_queue s = []"
  by (auto simp: sender_step_def Let_def collector_pop_def split: sender_pc.split list.split prod.split option.split publish_result.split)

lemma collector_blocked:
  "all_blocked (collector_thread_step J) s \<longleftrightarrow> (\<forall>i ans. poll_step J i ans s = Blocked) \<and> (\<forall>ans. sender_step J ans s = Blocked)"
proof -
  have "(\<forall>a. P a) \<longleftrightarrow> (\<forall>i ans. P (Poll i ans)) \<and> (\<forall>ans. P (Sender ans))" for P
    by (metis collector_thread.exhaust)
  then show ?thesis by (simp add: all_blocked_def)
qed

lemma polls_over:
  assumes "all_blocked (collector_thread_step J) s" "\<not> cs_running s \<or> length (cs_queue s) < collector_queue_size"
  shows "list_all (\<lambda>t. pt_pc t = P_over) (cs_polls s)"
  unfolding list_all_length
proof (intro allI impI)
  fix i
  assume i: "i < length (cs_polls s)"
  have "poll_step J i ans s = Blocked" for ans using assms(1) by (simp add: collector_blocked)
  then show "pt_pc (cs_polls s ! i) = P_over" using i assms(2) by (auto simp: poll_blocked)
qed

text \<open>
  C38: a collector neither deadlocks nor hangs.  In a reachable state in which \<open>running\<close> is true
  no thread can move only if every poll thread has ended (its handle could not be made), the
  queue is empty and the sender waits.  When \<open>running\<close> is false the threads take at most four
  steps per city and two for the sender, whatever the libraries answer; no poll thread
  fails any more (the sender still ends the process when \<open>dump\<close> throws or the server has closed the
  connection); when none can move all have ended; and what was in the queue is still there,
  never published.
\<close>

theorem collector_shutdown:
  assumes "reaches (collector_step J) (collector_start plan) s"
  shows "(cs_running s \<and> all_blocked (collector_thread_step J) s \<longrightarrow>
        list_all (\<lambda>t. pt_pc t = P_over) (cs_polls s) \<and> cs_queue s = [] \<and> cs_sender s = S_take)
    \<and> (\<not> cs_running s \<longrightarrow>
        (\<forall>i ans. poll_step J i ans s \<noteq> Fault)
        \<and> (\<forall>as s'. run_steps (collector_thread_step J) as s = Next s' \<longrightarrow>
             length as \<le> 4 * length (cp_threads plan) + 2
             \<and> (all_blocked (collector_thread_step J) s' \<longrightarrow>
                  list_all (\<lambda>t. pt_pc t = P_over) (cs_polls s') \<and> cs_sender s' = S_over
                  \<and> cs_queue s' = cs_queue s)))"
proof -
  have fol: "follows plan s" by (rule collector_plan.reaches_good [OF assms follows_start])
  then have n: "length (cs_polls s) = length (cp_threads plan)"
    by (auto simp: follows_def dest: arg_cong [where f = length])
  have running: "list_all (\<lambda>t. pt_pc t = P_over) (cs_polls s) \<and> cs_queue s = [] \<and> cs_sender s = S_take"
    if "cs_running s" "all_blocked (collector_thread_step J) s"
  proof -
    have "cs_queue s = []" "cs_sender s = S_take"
      using that fol by (auto simp: collector_blocked sender_blocked follows_def)
    then show ?thesis using polls_over [OF that(2)] by (simp add: collector_queue_size_def)
  qed
  have fault: "poll_step J i ans s \<noteq> Fault" if "\<not> cs_running s" for i ans
    using that by (auto simp: poll_step_def Let_def split: poll_pc.split)
  have ends: "length as \<le> 4 * length (cp_threads plan) + 2
      \<and> (all_blocked (collector_thread_step J) s' \<longrightarrow>
           list_all (\<lambda>t. pt_pc t = P_over) (cs_polls s') \<and> cs_sender s' = S_over \<and> cs_queue s' = cs_queue s)"
    if "\<not> cs_running s" "run_steps (collector_thread_step J) as s = Next s'" for as s'
  proof -
    have start: "\<not> cs_running s \<and> cs_queue s = cs_queue s \<and> length (cs_polls s) = length (cs_polls s)"
      using that(1) by simp
    note good = collector_closing.run_good [OF that(2) start]
    have "length as \<le> 4 * length (cp_threads plan) + 2"
      using collector_closing.run_length [OF that(2) start] collector_rank_bound [of s] n by simp
    moreover have "cs_sender s' = S_over" if "all_blocked (collector_thread_step J) s'"
      using that good by (simp add: collector_blocked sender_blocked)
    ultimately show ?thesis using good polls_over [of J s'] by blast
  qed
  show ?thesis using running fault ends by blast
qed

section \<open>A concrete collector\<close>

definition poll_json :: "demo json_lib" where
  "poll_json = demo_json\<lparr>j_parse := \<lambda>s. Some (DObj [(''current'', DObj [(''temperature_2m'', DInt 30)])])\<rparr>"

definition demo_plan :: collector_plan where
  "demo_plan = \<lparr>cp_threads = [(\<lparr>pc_continent = ''Asia'', pc_country = ''India'', pc_region = ''south_india'',
     pc_city = ''Kochi''\<rparr>, [\<lparr>sp_label = ''Kochi_center'', sp_layer = ''city_center'', sp_latitude = Fin 10,
     sp_longitude = Fin 76\<rparr>])], cp_port = 9101, cp_names = regional_names ''south_india''\<rparr>"

definition demo_poll :: "collector_thread option" where
  "demo_poll = Some (Poll 0 \<lparr>pa_curl = True, pa_response = Some ''x'', pa_now = 60001\<rparr>)"

definition demo_send :: "collector_thread option" where
  "demo_send = Some (Sender \<lparr>sa_now1 = 5, sa_now2 = 6, sa_setup = fine_setup, sa_sent = Some 1000\<rparr>)"

lemma demo_polled:
  "case run_steps (collector_step poll_json) (replicate 6 demo_poll @ replicate 3 demo_send) (collector_start demo_plan)
   of Next s \<Rightarrow> map snd (cs_published s) = [True] \<and> map city (cs_taken s) = [''Kochi''] \<and> cs_queue s = [] | _ \<Rightarrow> False"
  by code_simp

theorem collector_process_accounts_witness:
  "\<exists>s. reaches (collector_step poll_json) (collector_start demo_plan) s \<and> length (cs_published s) = 1
     \<and> map city (cs_pushed s) = [''Kochi'']
     \<and> envelope_of poll_json (regional_names ''south_india'') 0 (cs_taken s ! 0) (fst (cs_published s ! 0))
     \<and> (\<forall>p\<in>set (cs_pushed s). longitude p = Fin 76)"
proof -
  obtain s where s: "run_steps (collector_step poll_json) (replicate 6 demo_poll @ replicate 3 demo_send)
      (collector_start demo_plan) = Next s" "map snd (cs_published s) = [True]"
    "map city (cs_taken s) = [''Kochi'']" "cs_queue s = []"
    using demo_polled by (auto split: outcome.splits)
  have one: "length (cs_published s) = 1" using s(2) by (metis length_map One_nat_def list.size(3,4) Suc_eq_plus1)
  have r: "reaches (collector_step poll_json) (collector_start demo_plan) s"
    by (rule run_steps_reaches [OF s(1) reaches.Here])
  note acc = collector_process_accounts [OF r]
  have "\<forall>p\<in>set (cs_pushed s). longitude p = Fin 76"
    using acc by (fastforce simp: demo_plan_def)
  moreover have "map city (cs_pushed s) = [''Kochi'']" using acc s(3,4) by simp
  moreover have "envelope_of poll_json (regional_names ''south_india'') 0 (cs_taken s ! 0) (fst (cs_published s ! 0))"
    using acc one by (simp add: demo_plan_def)
  ultimately show ?thesis using r one by (intro exI [of _ s] conjI)
qed

definition demo_closing :: "collector_thread list" where
  "demo_closing = map the [demo_poll, demo_poll, demo_poll, demo_send]"

lemma demo_stopped:
  "case run_steps (collector_step poll_json) (replicate 6 demo_poll @ [None]) (collector_start demo_plan)
   of Next s \<Rightarrow> \<not> cs_running s \<and> length (cs_queue s) = 1
       \<and> (case run_steps (collector_thread_step poll_json) demo_closing s of
            Next s' \<Rightarrow> map pt_pc (cs_polls s') = [P_over] \<and> cs_sender s' = S_over | _ \<Rightarrow> False)
    | _ \<Rightarrow> False"
  by code_simp

theorem collector_shutdown_witness:
  "\<exists>s s'. reaches (collector_step poll_json) (collector_start demo_plan) s \<and> \<not> cs_running s
     \<and> run_steps (collector_thread_step poll_json) demo_closing s = Next s' \<and> length demo_closing \<le> 6
     \<and> length (cs_queue s') = 1"
proof -
  obtain s where s: "run_steps (collector_step poll_json) (replicate 6 demo_poll @ [None])
      (collector_start demo_plan) = Next s" "\<not> cs_running s" "length (cs_queue s) = 1"
    "case run_steps (collector_thread_step poll_json) demo_closing s of
       Next s' \<Rightarrow> map pt_pc (cs_polls s') = [P_over] \<and> cs_sender s' = S_over | _ \<Rightarrow> False"
    using demo_stopped by (auto split: outcome.splits)
  then obtain s' where s': "run_steps (collector_thread_step poll_json) demo_closing s = Next s'"
    "map pt_pc (cs_polls s') = [P_over]" "cs_sender s' = S_over" by (auto split: outcome.splits)
  have "all_blocked (collector_thread_step poll_json) s'"
    using s'(2,3) by (auto simp: collector_blocked poll_blocked sender_blocked map_eq_Cons_conv nth_Cons')
  moreover have r: "reaches (collector_step poll_json) (collector_start demo_plan) s"
    by (rule run_steps_reaches [OF s(1) reaches.Here])
  note fin = collector_shutdown [OF r]
  ultimately show ?thesis using fin r s(2,3) s'(1) by (fastforce simp: demo_plan_def)
qed

section \<open>The South India collector\<close>

text \<open>\<open>collectors/south_india/main.cpp\<close> has a copy of \<open>pollCity\<close> and of the sender.\<close>

definition south_india_poll_step :: "'j json_lib \<Rightarrow> nat \<Rightarrow> poll_answers \<Rightarrow> 'j collector_process \<Rightarrow>
    'j collector_process outcome" where
  "south_india_poll_step J i ans s = poll_step J i ans s"

definition south_india_sender_step :: "'j json_lib \<Rightarrow> sender_answers \<Rightarrow> 'j collector_process \<Rightarrow>
    'j collector_process outcome" where
  "south_india_sender_step J ans s = sender_step J ans s"

fun south_india_step :: "'j json_lib \<Rightarrow> collector_thread option \<Rightarrow> 'j collector_process \<Rightarrow>
    'j collector_process outcome" where
  "south_india_step J None s = Next (s\<lparr>cs_running := False\<rparr>)"
| "south_india_step J (Some (Poll i ans)) s = south_india_poll_step J i ans s"
| "south_india_step J (Some (Sender ans)) s = south_india_sender_step J ans s"

lemma south_india_is_collector: "south_india_step J a s = collector_step J a s"
  by (cases "(J, a, s)" rule: south_india_step.cases)
    (simp_all add: south_india_poll_step_def south_india_sender_step_def)

text \<open>Whatever it publishes is addressed to the India gateway.\<close>

lemma south_india_addresses:
  assumes "reaches (south_india_step J) (collector_start plan) s" "south_india_plan J config = Some plan"
    "i < length (cs_published s)"
  shows "source (fst (cs_published s ! i)) = ''south_india_collector''"
    "route (fst (cs_published s ! i)) = ''india_gateway''"
proof -
  have "south_india_step J = collector_step J" by (intro ext) (rule south_india_is_collector)
  then have r: "reaches (collector_step J) (collector_start plan) s" using assms(1) by simp
  have inv: "cs_inv J s" by (rule collector.reaches_good [OF r cs_inv_start])
  have fol: "follows plan s" by (rule collector_plan.reaches_good [OF r follows_start])
  have "cp_names plan = south_india_names"
    using assms(2) by (auto simp: south_india_plan_def split: bind_splits)
  then have "envelope_of J south_india_names (of_nat i) (cs_taken s ! i) (fst (cs_published s ! i))"
    using inv fol assms(3) by (simp add: cs_inv_def follows_def)
  then show "source (fst (cs_published s ! i)) = ''south_india_collector''"
    "route (fst (cs_published s ! i)) = ''india_gateway''"
    by (auto simp: envelope_of_def sender_envelope_def make_weather_packet_envelope_def south_india_names_def
        case_prod_beta)
qed

end
