(* ===== verification/Shared_Pipeline.thy ===== *)
theory Shared_Pipeline
  imports Services Transitions "HOL-Library.Sublist" "HOL-Library.Multiset"
begin

text \<open>
  Several client threads of a \<open>TcpSubscriber\<close> that share one
  \<open>ValidationAggregationConsumerPipeline\<close>.  The mutex of the pipeline covers \<open>recordPacket\<close> and
  \<open>printSummary\<close>, each on its own; the callback runs outside it.  So a call of \<open>consume\<close> is cut
  into three steps, between which other threads run.  Logging is off.
\<close>

section \<open>State and steps\<close>

text \<open>Where a thread is within \<open>consume\<close>.\<close>

datatype 'j call_pc = C_ready | C_print "'j envelope" weather_packet | C_callback "'j envelope"

record 'j client_thread =
  ct_todo :: "'j envelope list"
  ct_pc :: "'j call_pc"

text \<open>The last two members record which thread recorded, and which passed on, which envelope.\<close>

record 'j shared_pipeline =
  sh_pipeline :: "'j pipeline"
  sh_threads :: "'j client_thread list"
  sh_recorded :: "(nat \<times> 'j envelope) list"
  sh_passed :: "(nat \<times> 'j envelope) list"

definition shared_start :: "string \<Rightarrow> 'j envelope list list \<Rightarrow> 'j shared_pipeline" where
  "shared_start consumer ess = \<lparr>sh_pipeline = pipeline_new consumer True,
     sh_threads = map (\<lambda>es. \<lparr>ct_todo = es, ct_pc = C_ready\<rparr>) ess, sh_recorded = [], sh_passed = []\<rparr>"

definition set_thread :: "nat \<Rightarrow> 'j client_thread \<Rightarrow> 'j shared_pipeline \<Rightarrow> 'j shared_pipeline" where
  "set_thread i t s = s\<lparr>sh_threads := (sh_threads s)[i := t]\<rparr>"

definition shared_step :: "'j json_lib \<Rightarrow> nat \<Rightarrow> 'j shared_pipeline \<Rightarrow> 'j shared_pipeline outcome" where
  "shared_step J i s =
     (if length (sh_threads s) \<le> i then Blocked
      else (let t = sh_threads s ! i; pl = sh_pipeline s in case ct_pc t of
          C_ready \<Rightarrow> (case ct_todo t of
              [] \<Rightarrow> Blocked
            | e # es \<Rightarrow> (case weather_packet_from_envelope J e of
                None \<Rightarrow> Next (set_thread i (t\<lparr>ct_todo := es\<rparr>) s)
              | Some p \<Rightarrow>
                  (if \<not> validate_packet p then Next (set_thread i (t\<lparr>ct_todo := es\<rparr>) s)
                   else Next (set_thread i (t\<lparr>ct_todo := es, ct_pc := C_print e p\<rparr>)
                     (s\<lparr>sh_pipeline := record_packet p pl, sh_recorded := sh_recorded s @ [(i, e)]\<rparr>)))))
        | C_print e p \<Rightarrow> Next (set_thread i (t\<lparr>ct_pc := C_callback e\<rparr>)
            (s\<lparr>sh_pipeline := print_summary p pl\<rparr>))
        | C_callback e \<Rightarrow> Next (set_thread i (t\<lparr>ct_pc := C_ready\<rparr>)
            (s\<lparr>sh_pipeline := pl\<lparr>pl_passed := pl_passed pl @ (if pl_has_callback pl then [e] else [])\<rparr>,
              sh_passed := sh_passed s @ [(i, e)]\<rparr>))))"

text \<open>Undisturbed, the steps of one thread over an envelope are \<open>consume\<close>.\<close>

lemma shared_steps_consume:
  assumes "i < length (sh_threads s)" "sh_threads s ! i = \<lparr>ct_todo = e # es, ct_pc = C_ready\<rparr>"
    "\<not> le_enabled env" "consume J env e (sh_pipeline s) = (r, pl)"
  shows "\<exists>n s'. run_steps (shared_step J) (replicate n i) s = Next s' \<and> sh_pipeline s' = pl
    \<and> sh_threads s' = (sh_threads s)[i := \<lparr>ct_todo = es, ct_pc = C_ready\<rparr>]"
proof (cases "decoded J e")
  case None
  then have "pl = sh_pipeline s" using assms(4) consume_rejects [OF None] by simp
  then show ?thesis using assms(1,2) None
    by (intro exI [of _ 1]) (auto simp: shared_step_def decoded_def set_thread_def validate_packet_is
        split: option.splits if_splits)
next
  case (Some p)
  then have p: "weather_packet_from_envelope J e = Some p" "validate_packet p"
    by (auto simp: decoded_def validate_packet_is split: option.splits if_splits)
  then show ?thesis using assms
    by (intro exI [of _ 3])
      (auto simp: shared_step_def set_thread_def consume_def Let_def eval_nat_numeral)
qed

section \<open>What the threads preserve\<close>

fun in_call :: "'j call_pc \<Rightarrow> 'j envelope list" where
  "in_call C_ready = []"
| "in_call (C_print e p) = [e]"
| "in_call (C_callback e) = [e]"

definition packets :: "'j json_lib \<Rightarrow> 'j envelope list \<Rightarrow> weather_packet list" where
  "packets J es = List.map_filter (decoded J) es"

lemma packets_append [simp]:
  "packets J [] = []" "packets J (es @ [e]) = packets J es @ (case decoded J e of None \<Rightarrow> [] | Some p \<Rightarrow> [p])"
  by (simp_all add: packets_def List.map_filter_def split: option.split)

definition sh_inv :: "'j json_lib \<Rightarrow> 'j envelope list list \<Rightarrow> 'j shared_pipeline \<Rightarrow> bool" where
  "sh_inv J ess s \<longleftrightarrow> length (sh_threads s) = length ess
     \<and> (\<forall>i<length ess. accepted J (ess ! i) = of_thread i (sh_recorded s) @ accepted J (ct_todo (sh_threads s ! i))
         \<and> of_thread i (sh_recorded s) = of_thread i (sh_passed s) @ in_call (ct_pc (sh_threads s ! i)))
     \<and> list_all (\<lambda>(k, e). k < length ess) (sh_recorded s) \<and> list_all (\<lambda>(k, e). k < length ess) (sh_passed s)
     \<and> pl_has_callback (sh_pipeline s) \<and> pl_passed (sh_pipeline s) = map snd (sh_passed s)
     \<and> counters (sh_pipeline s) = fold count_packet (packets J (map snd (sh_recorded s))) (0, [], Fin 0)"

lemma sh_inv_start: "sh_inv J ess (shared_start consumer ess)"
  by (simp add: sh_inv_def shared_start_def pipeline_new_def counters_def smap_inv_def list_all_length)

lemma decoded_valid:
  "decoded J e = (case weather_packet_from_envelope J e of
     None \<Rightarrow> None | Some p \<Rightarrow> if validate_packet p then Some p else None)"
  by (simp add: decoded_def validate_packet_is split: option.split)

text \<open>A step of a thread, as one of four.\<close>

lemma shared_step_cases:
  assumes "shared_step J i s = Next s'"
  obtains e es where "i < length (sh_threads s)" "sh_threads s ! i = \<lparr>ct_todo = e # es, ct_pc = C_ready\<rparr>"
      "decoded J e = None" "s' = set_thread i \<lparr>ct_todo = es, ct_pc = C_ready\<rparr> s"
  | e es p where "i < length (sh_threads s)" "sh_threads s ! i = \<lparr>ct_todo = e # es, ct_pc = C_ready\<rparr>"
      "decoded J e = Some p" "s' = set_thread i \<lparr>ct_todo = es, ct_pc = C_print e p\<rparr>
        (s\<lparr>sh_pipeline := record_packet p (sh_pipeline s), sh_recorded := sh_recorded s @ [(i, e)]\<rparr>)"
  | e es p where "i < length (sh_threads s)" "sh_threads s ! i = \<lparr>ct_todo = es, ct_pc = C_print e p\<rparr>"
      "s' = set_thread i \<lparr>ct_todo = es, ct_pc = C_callback e\<rparr> (s\<lparr>sh_pipeline := print_summary p (sh_pipeline s)\<rparr>)"
  | e es pl where "i < length (sh_threads s)" "sh_threads s ! i = \<lparr>ct_todo = es, ct_pc = C_callback e\<rparr>"
      "pl = sh_pipeline s"
      "s' = set_thread i \<lparr>ct_todo = es, ct_pc = C_ready\<rparr> (s\<lparr>sh_pipeline :=
        pl\<lparr>pl_passed := pl_passed pl @ (if pl_has_callback pl then [e] else [])\<rparr>,
        sh_passed := sh_passed s @ [(i, e)]\<rparr>)"
proof -
  obtain es pc where t: "sh_threads s ! i = \<lparr>ct_todo = es, ct_pc = pc\<rparr>" by (cases "sh_threads s ! i")
  have i: "i < length (sh_threads s)" using assms by (auto simp: shared_step_def split: if_splits)
  show ?thesis
  proof (cases pc)
    case C_ready
    then obtain e es' where es: "es = e # es'" using assms i t
      by (cases es) (auto simp: shared_step_def)
    show ?thesis
    proof (cases "decoded J e")
      case None
      with assms i t C_ready es show ?thesis
        by (intro that(1) [of e es']) (auto simp: shared_step_def decoded_valid split: option.splits if_splits)
    next
      case (Some p)
      with assms i t C_ready es show ?thesis
        by (intro that(2) [of e es' p]) (auto simp: shared_step_def decoded_valid Let_def split: option.splits if_splits)
    qed
  next
    case (C_print e p)
    with assms i t show ?thesis by (intro that(3) [of es e p]) (auto simp: shared_step_def Let_def)
  next
    case (C_callback e)
    with assms i t show ?thesis by (intro that(4) [of es e]) (auto simp: shared_step_def Let_def)
  qed
qed

lemma set_thread_simps [simp]:
  "sh_pipeline (set_thread i t s) = sh_pipeline s" "sh_recorded (set_thread i t s) = sh_recorded s"
  "sh_passed (set_thread i t s) = sh_passed s" "sh_threads (set_thread i t s) = (sh_threads s)[i := t]"
  by (simp_all add: set_thread_def)

text \<open>The map of the cities: recording adds, printing finds its city there.\<close>

lemma recorded_city:
  "smap_inv m \<Longrightarrow> smap_lookup (smap_modify d k f m) c = None \<longleftrightarrow> smap_lookup m c = None \<and> c \<noteq> k"
  by (simp add: smap_modify_def smap_lookup_update)

lemma print_summary_counters:
  assumes "smap_inv (pl_packets_by_city pl)" "smap_lookup (pl_packets_by_city pl) (city p) \<noteq> None"
  shows "counters (print_summary p pl) = counters pl"
    "pl_packets_by_city (print_summary p pl) = pl_packets_by_city pl"
  using assms by (auto simp: counters_def print_summary_def smap_modify_def smap_update_same Let_def)

definition cities_known :: "'j shared_pipeline \<Rightarrow> bool" where
  "cities_known s \<longleftrightarrow> smap_inv (pl_packets_by_city (sh_pipeline s))
     \<and> (\<forall>i<length (sh_threads s). \<forall>e p. ct_pc (sh_threads s ! i) = C_print e p \<longrightarrow>
          smap_lookup (pl_packets_by_city (sh_pipeline s)) (city p) \<noteq> None)"

lemma cities_known_step:
  assumes "cities_known s" "shared_step J i s = Next s'"
  shows "cities_known s'"
  using assms(2)
proof (cases rule: shared_step_cases)
  case (2 e es p)
  then show ?thesis using assms(1)
    by (auto simp: cities_known_def nth_list_update record_packet_def smap_modify_inv recorded_city)
next
  case (3 e es p)
  have "pl_packets_by_city (print_summary p (sh_pipeline s)) = pl_packets_by_city (sh_pipeline s)"
    by (rule print_summary_counters) (use assms(1) 3 in \<open>auto simp: cities_known_def\<close>)
  with 3 assms(1) show ?thesis by (auto simp: cities_known_def nth_list_update)
qed (use assms(1) in \<open>auto simp: cities_known_def nth_list_update\<close>)

text \<open>One more envelope recorded, passed on, or rejected.\<close>

lemma packets_rejected: "decoded J e = None \<Longrightarrow> packets J (es @ [e]) = packets J es" by simp

lemma sh_inv_step:
  assumes "sh_inv J ess s \<and> cities_known s" "shared_step J i s = Next s'"
  shows "sh_inv J ess s' \<and> cities_known s'"
proof
  show "cities_known s'" using assms cities_known_step by blast
  from assms(2) show "sh_inv J ess s'"
  proof (cases rule: shared_step_cases)
    case (1 e es)
    then show ?thesis using assms(1) by (auto simp: sh_inv_def nth_list_update)
  next
    case (2 e es p)
    then show ?thesis using assms(1) by (auto simp: sh_inv_def nth_list_update)
  next
    case (3 e es p)
    have "counters (print_summary p (sh_pipeline s)) = counters (sh_pipeline s)"
      by (rule print_summary_counters) (use assms(1) 3 in \<open>auto simp: cities_known_def\<close>)
    with 3 assms(1) show ?thesis by (auto simp: sh_inv_def nth_list_update)
  next
    case (4 e es pl)
    then show ?thesis using assms(1) by (auto simp: sh_inv_def nth_list_update)
  qed
qed

interpretation shared: preserved "shared_step J" "\<lambda>s. sh_inv J ess s \<and> cities_known s"
  for J :: "'j json_lib" and ess
  by unfold_locales (rule sh_inv_step)

text \<open>How many steps are left.\<close>

fun calls_left :: "'j client_thread \<Rightarrow> nat" where
  "calls_left t = 3 * length (ct_todo t) + (case ct_pc t of C_ready \<Rightarrow> 0 | C_print e p \<Rightarrow> 2 | C_callback e \<Rightarrow> 1)"

definition shared_left :: "'j shared_pipeline \<Rightarrow> nat" where
  "shared_left s = sum_list (map calls_left (sh_threads s))"

lemma sum_list_update_less:
  "i < length xs \<Longrightarrow> (f x :: nat) < f (xs ! i) \<Longrightarrow> sum_list (map f (xs[i := x])) < sum_list (map f xs)"
proof (induction xs arbitrary: i)
  case (Cons y xs)
  then show ?case by (cases i) auto
qed simp

lemma shared_left_step: "shared_step J i s = Next s' \<Longrightarrow> shared_left s' < shared_left s"
  unfolding shared_left_def by (erule shared_step_cases) (auto intro!: sum_list_update_less)

interpretation shared_calls: ranked "shared_step J" "\<lambda>s. True" shared_left for J :: "'j json_lib"
  by unfold_locales (use shared_left_step in blast)+

lemma shared_no_fault: "shared_step J i s \<noteq> Fault"
  by (auto simp: shared_step_def Let_def split: call_pc.split list.split option.split)

lemma shared_blocked:
  assumes "all_blocked (shared_step J) s" "t \<in> set (sh_threads s)"
  shows "ct_todo t = []" "ct_pc t = C_ready"
proof -
  obtain i where "i < length (sh_threads s)" "sh_threads s ! i = t" using assms(2) by (auto simp: in_set_conv_nth)
  moreover have "shared_step J i s = Blocked" using assms(1) by (simp add: all_blocked_def)
  ultimately have "ct_todo t = [] \<and> ct_pc t = C_ready"
    by (cases "ct_pc t"; cases "ct_todo t") (auto simp: shared_step_def Let_def split: option.splits if_splits)
  then show "ct_todo t = []" "ct_pc t = C_ready" by auto
qed

section \<open>When every thread is through\<close>

text \<open>A list of tagged elements is a merge of its parts.\<close>

lemma of_thread_Cons: "of_thread i ((k, e) # xs) = (if k = i then [e] else []) @ of_thread i xs"
  by (simp add: of_thread_def)

lemma tagged_mset:
  "list_all (\<lambda>(k, e). k < n) xs \<Longrightarrow> mset (map snd xs) = mset (concat (map (\<lambda>i. of_thread i xs) [0..<n]))"
proof (induction xs)
  case Nil
  then show ?case by (simp add: mset_concat interv_sum_list_conv_sum_set_nat)
next
  case (Cons x xs)
  obtain k e where x: "x = (k, e)" by fastforce
  have "mset (concat (map (\<lambda>i. of_thread i (x # xs)) [0..<n]))
      = (\<Sum>i<n. (if k = i then {#e#} else {#}) + mset (of_thread i xs))"
    by (auto simp: x of_thread_Cons mset_concat comp_def interv_sum_list_conv_sum_set_nat atLeast0LessThan intro!: sum.cong)
  also have "\<dots> = {#e#} + mset (concat (map (\<lambda>i. of_thread i xs) [0..<n]))"
    using Cons.prems x
    by (simp add: sum.distrib sum.delta mset_concat comp_def interv_sum_list_conv_sum_set_nat atLeast0LessThan)
  also have "\<dots> = mset (map snd (x # xs))" using Cons x by simp
  finally show ?case by simp
qed

lemma of_thread_subseq: "subseq (of_thread i xs) (map snd xs)"
  unfolding of_thread_def by (intro subseq_map subseq_filter_left)

lemma accepted_concat: "accepted J (concat ess) = concat (map (accepted J) ess)"
  unfolding accepted_def by (rule filter_concat)

lemma packets_accepted: "packets J (accepted J es) = packets J es"
  by (induction es) (auto simp: packets_def List.map_filter_simps split: option.split)

lemma packets_mset: "mset es = mset fs \<Longrightarrow> mset (packets J es) = mset (packets J fs)"
  by (simp add: packets_def List.map_filter_def)

text \<open>The envelopes recorded, and those passed on, are the accepted ones.\<close>

lemma through:
  assumes "sh_inv J ess s" "all_blocked (shared_step J) s"
  shows "i < length ess \<Longrightarrow> of_thread i (sh_passed s) = accepted J (ess ! i)"
    "mset (map snd (sh_recorded s)) = mset (accepted J (concat ess))"
    "mset (map snd (sh_passed s)) = mset (accepted J (concat ess))"
proof -
  have each: "of_thread i (sh_recorded s) = accepted J (ess ! i) \<and> of_thread i (sh_passed s) = accepted J (ess ! i)"
    if "i < length ess" for i
  proof -
    have "sh_threads s ! i \<in> set (sh_threads s)" using assms(1) that by (simp add: sh_inv_def)
    note done' = shared_blocked [OF assms(2) this]
    show ?thesis using assms(1) that done' by (auto simp: sh_inv_def)
  qed
  then show "i < length ess \<Longrightarrow> of_thread i (sh_passed s) = accepted J (ess ! i)" by blast
  have "map (\<lambda>i. of_thread i (sh_recorded s)) [0..<length ess] = map (accepted J) ess"
    "map (\<lambda>i. of_thread i (sh_passed s)) [0..<length ess] = map (accepted J) ess"
    using each by (auto intro: nth_equalityI)
  then show "mset (map snd (sh_recorded s)) = mset (accepted J (concat ess))"
    "mset (map snd (sh_passed s)) = mset (accepted J (concat ess))"
    using assms(1) tagged_mset [of "length ess" "sh_recorded s"] tagged_mset [of "length ess" "sh_passed s"]
    by (simp_all only: sh_inv_def accepted_concat)
qed

text \<open>
  C39: client threads that share one pipeline.  However their calls of \<open>consume\<close> interleave
  at the mutex, a run is at most three steps per envelope long and can be carried to an end
  where every thread is through; there the total and the count of each city are those of the
  acceptable packets of all threads, the callback has received every acceptable envelope once,
  those of each thread in the order of the thread, and the sum of temperatures is that of the
  same packets in some order.
\<close>

theorem shared_pipeline_accounts:
  assumes "run_steps (shared_step J) is (shared_start consumer ess) = Next s"
  shows "length is \<le> 3 * length (concat ess)
    \<and> (\<exists>js s'. run_steps (shared_step J) js s = Next s' \<and> all_blocked (shared_step J) s')
    \<and> (all_blocked (shared_step J) s \<longrightarrow> (let pl = sh_pipeline s; ps = packets J (concat ess) in
         pl_total_packets pl = of_nat (length ps)
         \<and> (\<forall>c. city_count pl c = of_nat (count_list (map city ps) c))
         \<and> mset (pl_passed pl) = mset (accepted J (concat ess))
         \<and> (\<forall>es\<in>set ess. subseq (accepted J es) (pl_passed pl))
         \<and> (\<exists>qs. mset qs = mset ps \<and> pl_temperature_sum pl = foldl d_add (Fin 0) (map temperature qs))))"
proof (intro conjI impI)
  have "shared_left (shared_start consumer ess) = 3 * length (concat ess)"
    by (simp add: shared_left_def shared_start_def comp_def length_concat sum_list_const_mult)
  then show "length is \<le> 3 * length (concat ess)"
    using shared_calls.run_length [OF assms TrueI] by linarith
  show "\<exists>js s'. run_steps (shared_step J) js s = Next s' \<and> all_blocked (shared_step J) s'"
    by (rule shared_calls.run_settles [OF shared_no_fault TrueI])
next
  assume blocked: "all_blocked (shared_step J) s"
  have "sh_inv J ess s \<and> cities_known s"
    by (rule shared.run_good [OF assms]) (simp add: sh_inv_start, simp add: cities_known_def shared_start_def pipeline_new_def smap_inv_def)
  then have inv: "sh_inv J ess s" by simp
  let ?qs = "packets J (map snd (sh_recorded s))" and ?ps = "packets J (concat ess)" and ?pl = "sh_pipeline s"
  have qs: "mset ?qs = mset ?ps"
    using packets_mset [OF through(2) [OF inv blocked], of J] by (simp only: packets_accepted)
  have "fold count_packet ?qs (0, [], Fin 0)
      = (pl_total_packets ?pl, pl_packets_by_city ?pl, pl_temperature_sum ?pl)"
    using inv by (simp add: sh_inv_def counters_def)
  note counts = fold_count_packet [OF _ this]
  have same: "length ?qs = length ?ps" "count_list (map city ?qs) c = count_list (map city ?ps) c" for c
    using qs mset_eq_length [OF qs] by (simp_all flip: count_mset)
  have "city_count ?pl c = of_nat (count_list (map city ?ps) c)" for c
    using counts [of c] same(2) [of c] by (simp add: city_count_def smap_inv_def smap_lookup_def)
  moreover have "subseq (accepted J es) (pl_passed ?pl)" if es: "es \<in> set ess" for es
  proof -
    obtain i where "i < length ess" "es = ess ! i" using es by (auto simp: in_set_conv_nth)
    then show ?thesis using through(1) [OF inv blocked, of i] of_thread_subseq [of i "sh_passed s"] inv
      by (simp add: sh_inv_def)
  qed
  moreover have "mset (pl_passed ?pl) = mset (accepted J (concat ess))"
    using through(3) [OF inv blocked] inv by (simp add: sh_inv_def)
  ultimately show "let pl = ?pl; ps = ?ps in
         pl_total_packets pl = of_nat (length ps)
         \<and> (\<forall>c. city_count pl c = of_nat (count_list (map city ps) c))
         \<and> mset (pl_passed pl) = mset (accepted J (concat ess))
         \<and> (\<forall>es\<in>set ess. subseq (accepted J es) (pl_passed pl))
         \<and> (\<exists>qs. mset qs = mset ps \<and> pl_temperature_sum pl = foldl d_add (Fin 0) (map temperature qs))"
    using counts qs same(1) by (auto simp: Let_def smap_inv_def)
qed

lemma shared_pipeline_accounts_witness:
  "\<exists>s. run_steps (shared_step one_line) [0, 1, 1, 0, 0, 1] (shared_start ''w'' [[demo_envelope], [demo_envelope]]) = Next s
    \<and> all_blocked (shared_step one_line) s \<and> city_count (sh_pipeline s) (city demo_packet) = 2
    \<and> mset (pl_passed (sh_pipeline s)) = {#demo_envelope, demo_envelope#}"
proof -
  obtain s where s: "run_steps (shared_step one_line) [0, 1, 1, 0, 0, 1]
      (shared_start ''w'' [[demo_envelope], [demo_envelope]]) = Next s" "all_blocked (shared_step one_line) s"
    using demo_decoded
    by (auto simp: shared_step_def shared_start_def set_thread_def all_blocked_def Let_def decoded_valid
        nth_Cons' eval_nat_numeral split: option.splits if_splits)
  from shared_pipeline_accounts [OF s(1)] s show ?thesis
    by (simp add: demo_decoded packets_def List.map_filter_simps Let_def)
qed

end
