(* ===== verification/Writer_Process.thy ===== *)
theory Writer_Process
  imports Services Batch_Groups Transitions
begin

text \<open>
  The process of \<open>timescale_writer/main.cpp\<close> with its three threads: the subscriber thread, whose
  pipeline submits to the asynchronous queue; the main thread in \<open>AsyncQueueWriter::run\<close>; and the
  thread it starts for \<open>TimescaleBatchWriter::run\<close>.  A step of a thread is one lock region, one
  reading of the \<open>running\<close> flag or one call of the database; steps interleave freely.
\<close>

section \<open>State\<close>

text \<open>Where the main thread is in \<open>AsyncQueueWriter::run\<close>.  \<open>M_submit\<close> holds the envelopes
  \<open>submitBatch\<close> has yet to hand on; its flag tells the final drain.\<close>

datatype 'j main_pc =
    M_head
  | M_dequeue
  | M_submit bool "'j envelope list"
  | M_drain
  | M_join
  | M_done

text \<open>Where the batch thread is in \<open>TimescaleBatchWriter::run\<close>.\<close>

datatype 'j batch_pc =
    B_start
  | B_head
  | B_take
  | B_flush bool "'j envelope list"
  | B_drain
  | B_done

text \<open>What the batch writer did with an envelope handed to it.\<close>

datatype fate = Entered | Duplicate | Rejected

text \<open>The last three members record the envelopes the queue accepted, those handed to the batch
  writer with their fate, and those handed to \<open>flushBatch\<close>.\<close>

record 'j writer_process =
  wp_running :: bool
  wp_pipeline :: "'j pipeline"
  wp_queue :: "'j async_queue"
  wp_writer :: "'j batch_writer"
  wp_sink :: sink
  wp_main :: "'j main_pc"
  wp_batch :: "'j batch_pc"
  wp_accepted :: "'j envelope list"
  wp_handed :: "('j envelope \<times> fate) list"
  wp_flushed :: "'j envelope list"

definition process_start :: "metrics \<Rightarrow> sink \<Rightarrow> 'j writer_process" where
  "process_start m sk =
     (let (pl, a) = writer_start m
      in \<lparr>wp_running = True, wp_pipeline = pl, wp_queue = a,
          wp_writer = batch_writer_new (aq_max_queue_size writer_config) (aq_batch_size writer_config),
          wp_sink = sk, wp_main = M_head, wp_batch = B_start,
          wp_accepted = [], wp_handed = [], wp_flushed = []\<rparr>)"

section \<open>The steps\<close>

text \<open>The subscriber thread: one line, through the pipeline into the queue.\<close>

definition message_step :: "'j json_lib \<Rightarrow> log_env \<Rightarrow> string \<Rightarrow> 'j writer_process \<Rightarrow> 'j writer_process" where
  "message_step J env message s = (case parse_envelope J message of
      None \<Rightarrow> s
    | Some e \<Rightarrow> (let (r, pl) = consume J env e (wp_pipeline s) in
        if r = Consumed True then
          (let (ok, a) = aq_submit J e (wp_queue s)
           in s\<lparr>wp_pipeline := pl, wp_queue := a, wp_accepted := wp_accepted s @ (if ok then [e] else [])\<rparr>)
        else s\<lparr>wp_pipeline := pl\<rparr>))"

definition fate_of :: "bool \<Rightarrow> 'j batch_writer \<Rightarrow> 'j batch_writer \<Rightarrow> fate" where
  "fate_of ok w w' = (if \<not> ok then Rejected else if bw_pending w' = bw_pending w then Duplicate else Entered)"

text \<open>The batch counted by \<open>submitBatch\<close> after its loop.\<close>

definition count_batch :: "'j async_queue \<Rightarrow> 'j async_queue" where
  "count_batch a = a\<lparr>aq_metrics := (aq_metrics a)\<lparr>aqm_batches_flushed := aqm_batches_flushed (aq_metrics a) + 1\<rparr>,
     aq_global := inc_batches_flushed (aq_global a)\<rparr>"

definition main_step :: "'j json_lib \<Rightarrow> 'j writer_process \<Rightarrow> 'j writer_process outcome" where
  "main_step J s = (case wp_main s of
      M_head \<Rightarrow> Next (s\<lparr>wp_main := if wp_running s then M_dequeue else M_drain\<rparr>)
    | M_dequeue \<Rightarrow> (case aq_dequeue_batch (wp_queue s) of
          None \<Rightarrow> Fault
        | Some (batch, a) \<Rightarrow>
            Next (s\<lparr>wp_queue := a, wp_main := if batch = [] then M_head else M_submit False batch\<rparr>))
    | M_submit final [] \<Rightarrow>
        Next (s\<lparr>wp_queue := count_batch (wp_queue s), wp_main := if final then M_join else M_head\<rparr>)
    | M_submit final (e # es) \<Rightarrow>
        (let (ok, w) = bw_submit J e (wp_writer s)
         in Next (s\<lparr>wp_writer := w, wp_queue := count_submitted ok (wp_queue s), wp_main := M_submit final es,
              wp_handed := wp_handed s @ [(e, fate_of ok (wp_writer s) w)]\<rparr>))
    | M_drain \<Rightarrow>
        (let finalBatch = concat (map snd (aq_queues (wp_queue s)))
         in Next (s\<lparr>wp_queue := (wp_queue s)\<lparr>aq_queues := []\<rparr>,
              wp_main := if finalBatch = [] then M_join else M_submit True finalBatch\<rparr>))
    | M_join \<Rightarrow> (if wp_batch s = B_done then Next (s\<lparr>wp_main := M_done\<rparr>) else Blocked)
    | M_done \<Rightarrow> Blocked)"

text \<open>The answers a step of the batch thread may need: whether there is a database, the clock,
  whether it executes, whether the outbox exists, opens, and reopens for truncation.\<close>

record storage =
  sg_backend :: bool
  sg_now :: int
  sg_db_ok :: bool
  sg_present :: bool
  sg_open_ok :: bool
  sg_truncate_ok :: bool

text \<open>\<open>flushBatch\<close> counts into the metrics of the process, which the queue counts into as well.\<close>

definition flush_shared :: "'j json_lib \<Rightarrow> ('j envelope \<Rightarrow> weather_packet \<Rightarrow> raw_head) \<Rightarrow> storage \<Rightarrow>
    'j envelope list \<Rightarrow> 'j writer_process \<Rightarrow> 'j writer_process option" where
  "flush_shared J head g batch s = map_option
     (\<lambda>sk. s\<lparr>wp_sink := sk, wp_queue := (wp_queue s)\<lparr>aq_global := sk_metrics sk\<rparr>,
             wp_flushed := wp_flushed s @ batch\<rparr>)
     (flush_batch J head (sg_now g) (sg_db_ok g) (sg_open_ok g) batch
        ((wp_sink s)\<lparr>sk_metrics := aq_global (wp_queue s)\<rparr>))"

definition batch_step :: "'j json_lib \<Rightarrow> ('j envelope \<Rightarrow> weather_packet \<Rightarrow> raw_head) \<Rightarrow> storage \<Rightarrow>
    'j writer_process \<Rightarrow> 'j writer_process outcome" where
  "batch_step J head g s = (case wp_batch s of
      B_start \<Rightarrow> Next (s\<lparr>wp_sink := if sg_backend g
          then replay_outbox (sg_present g) (sg_open_ok g) (sg_db_ok g) (sg_truncate_ok g) (wp_sink s)
          else wp_sink s, wp_batch := B_head\<rparr>)
    | B_head \<Rightarrow> Next (s\<lparr>wp_batch := if wp_running s then B_take else B_drain\<rparr>)
    | B_take \<Rightarrow> (let (batch, w) = bw_take_batch (wp_writer s)
        in Next (s\<lparr>wp_writer := w, wp_batch := if batch = [] then B_head else B_flush False batch\<rparr>))
    | B_flush final batch \<Rightarrow> (case flush_shared J head g batch s of
          None \<Rightarrow> Fault
        | Some s' \<Rightarrow> Next (s'\<lparr>wp_batch := if final then B_done else B_head\<rparr>))
    | B_drain \<Rightarrow> (let (batch, w) = bw_take_all (wp_writer s)
        in Next (s\<lparr>wp_writer := w, wp_batch := if batch = [] then B_done else B_flush True batch\<rparr>))
    | B_done \<Rightarrow> Blocked)"

datatype writer_action = Message log_env string | Stop | Main | Batch storage

fun writer_step :: "'j json_lib \<Rightarrow> ('j envelope \<Rightarrow> weather_packet \<Rightarrow> raw_head) \<Rightarrow> writer_action \<Rightarrow>
    'j writer_process \<Rightarrow> 'j writer_process outcome" where
  "writer_step J head (Message env message) s = Next (message_step J env message s)"
| "writer_step J head Stop s = Next (s\<lparr>wp_running := False\<rparr>)"
| "writer_step J head Main s = main_step J s"
| "writer_step J head (Batch g) s = batch_step J head g s"

abbreviation writer_reaches :: "'j json_lib \<Rightarrow> ('j envelope \<Rightarrow> weather_packet \<Rightarrow> raw_head) \<Rightarrow>
    'j writer_process \<Rightarrow> 'j writer_process \<Rightarrow> bool" where
  "writer_reaches J head \<equiv> reaches (writer_step J head)"

section \<open>The steps and the functions they cut up\<close>

lemma message_is_writer_message:
  "(wp_pipeline (message_step J env message s), wp_queue (message_step J env message s))
     = writer_message J env message (wp_pipeline s, wp_queue s)"
  by (simp add: message_step_def writer_message_def case_prod_beta Let_def split: option.split)

text \<open>Undisturbed, the steps of the main thread over a batch are \<open>submitBatch\<close>.\<close>

lemma main_steps_submit_batch:
  "wp_main s = M_submit final es \<Longrightarrow> \<exists>s'. run_steps (\<lambda>u. main_step J) (replicate (Suc (length es)) ()) s = Next s'
     \<and> (wp_queue s', wp_writer s') = aq_submit_batch J es (wp_queue s, wp_writer s)
     \<and> wp_main s' = (if final then M_join else M_head)"
proof (induction es arbitrary: s)
  case Nil
  then show ?case by (simp add: main_step_def aq_submit_batch_def count_batch_def)
next
  case (Cons e es)
  obtain ok w where sub: "bw_submit J e (wp_writer s) = (ok, w)" by fastforce
  let ?s = "s\<lparr>wp_writer := w, wp_queue := count_submitted ok (wp_queue s), wp_main := M_submit final es,
              wp_handed := wp_handed s @ [(e, fate_of ok (wp_writer s) w)]\<rparr>"
  have "main_step J s = Next ?s" using Cons.prems sub by (simp add: main_step_def)
  with Cons.IH [of ?s] sub show ?case by (simp add: aq_submit_batch_def)
qed

section \<open>What the threads preserve\<close>

definition in_region :: "'j json_lib \<Rightarrow> string \<Rightarrow> 'j envelope list \<Rightarrow> 'j envelope list" where
  "in_region J r es = filter (\<lambda>e. extract_region J e = r) es"

lemma in_region_append [simp]:
  "in_region J r [] = []"
  "in_region J r (e # es) = (if extract_region J e = r then [e] else []) @ in_region J r es"
  "in_region J r (es @ fs) = in_region J r es @ in_region J r fs"
  by (simp_all add: in_region_def)

lemma queue_of_Nil [simp]: "queue_of [] r = []"
  by (simp add: queue_of_def)

text \<open>What a thread has taken from one queue and not yet handed on.\<close>

fun main_holds :: "'j main_pc \<Rightarrow> 'j envelope list" where
  "main_holds (M_submit final es) = es"
| "main_holds _ = []"

fun batch_holds :: "'j batch_pc \<Rightarrow> 'j envelope list" where
  "batch_holds (B_flush final es) = es"
| "batch_holds _ = []"

definition entered :: "('j envelope \<times> fate) list \<Rightarrow> 'j envelope list" where
  "entered handed = map fst (filter (\<lambda>ef. snd ef = Entered) handed)"

definition rejected :: "('j envelope \<times> fate) list \<Rightarrow> 'j envelope list" where
  "rejected handed = map fst (filter (\<lambda>ef. snd ef = Rejected) handed)"

lemma entered_append [simp]:
  "entered [] = []" "entered (xs @ [(e, f)]) = entered xs @ (if f = Entered then [e] else [])"
  "rejected [] = []" "rejected (xs @ [(e, f)]) = rejected xs @ (if f = Rejected then [e] else [])"
  by (simp_all add: entered_def rejected_def)

lemma entered_subset: "set (entered handed) \<subseteq> fst ` set handed"
  by (auto simp: entered_def)

lemma bw_submit_fate:
  assumes "bw_submit J e w = (ok, w')"
  shows "bw_pending w' = bw_pending w @ (if fate_of ok w w' = Entered then [e] else [])"
    "bw_max_queue_size w' = bw_max_queue_size w" "fate_of ok w w' = Rejected \<longleftrightarrow> \<not> ok"
  using assms by (auto simp: bw_submit_def fate_of_def split: if_splits)

text \<open>The queues of all regions, cut by region again.\<close>

lemma in_region_none: "\<forall>(k, q)\<in>set qs. \<forall>e\<in>set q. extract_region J e = k \<Longrightarrow> r \<notin> fst ` set qs \<Longrightarrow>
  in_region J r (concat (map snd qs)) = []"
proof (induction qs)
  case (Cons kq qs)
  then show ?case by (cases kq) (auto simp: in_region_def filter_empty_conv)
qed simp

lemma in_region_queues:
  "distinct (map fst qs) \<Longrightarrow> \<forall>(k, q)\<in>set qs. \<forall>e\<in>set q. extract_region J e = k \<Longrightarrow>
   in_region J r (concat (map snd qs)) = queue_of qs r"
proof (induction qs)
  case (Cons kq qs)
  obtain k q where kq: "kq = (k, q)" by (cases kq)
  have own: "in_region J r q = (if k = r then q else [])"
    using Cons.prems(2) kq by (auto simp: in_region_def filter_id_conv filter_empty_conv)
  show ?case
  proof (cases "k = r")
    case True
    with Cons.prems kq own in_region_none [of qs J r] show ?thesis by (simp add: queue_of_Cons)
  next
    case False
    with Cons kq own show ?thesis by (simp add: queue_of_Cons)
  qed
qed (simp add: queue_of_def)

lemma aq_inv_drained:
  assumes "aq_inv J a"
  shows "in_region J r (concat (map snd (aq_queues a))) = queue_of (aq_queues a) r"
    "aq_inv J (a\<lparr>aq_queues := []\<rparr>)"
proof -
  have "distinct (map fst (aq_queues a))" "\<forall>(k, q)\<in>set (aq_queues a). \<forall>e\<in>set q. extract_region J e = k"
    using assms by (simp_all add: aq_inv_def queues_inv_def smap_inv_def strict_sorted_iff)
  then show "in_region J r (concat (map snd (aq_queues a))) = queue_of (aq_queues a) r"
    by (rule in_region_queues)
  show "aq_inv J (a\<lparr>aq_queues := []\<rparr>)" by (simp add: aq_inv_def queues_inv_def smap_inv_def)
qed

lemma aq_frame [simp]:
  "aq_inv J (count_submitted ok a) = aq_inv J a" "aq_inv J (count_batch a) = aq_inv J a"
  "aq_inv J (a\<lparr>aq_global := m\<rparr>) = aq_inv J a"
  "aq_config (count_submitted ok a) = aq_config a" "aq_config (count_batch a) = aq_config a"
  "aq_queues (count_submitted ok a) = aq_queues a" "aq_queues (count_batch a) = aq_queues a"
  by (simp_all add: aq_inv_def count_submitted_def count_batch_def)

text \<open>The two counters of the queue that tell what became of the envelopes handed on.\<close>

definition fates :: "'j async_queue \<Rightarrow> u64 \<times> u64" where
  "fates a = (aqm_messages_processed (aq_metrics a), aqm_write_errors (aq_metrics a))"

lemma fates_frame [simp]:
  "fates (snd (aq_submit J e a)) = fates a" "fates (count_batch a) = fates a"
  "fates (a\<lparr>aq_queues := qs\<rparr>) = fates a" "fates (a\<lparr>aq_global := m\<rparr>) = fates a"
  "fates (count_submitted ok a) = (if ok then (fst (fates a) + 1, snd (fates a)) else (fst (fates a), snd (fates a) + 1))"
  by (simp_all add: fates_def aq_submit_def count_batch_def count_submitted_def publish_depth_def Let_def)

lemma fates_dequeue: "aq_dequeue_batch a = Some (b, a') \<Longrightarrow> fates a' = fates a"
  by (auto simp: aq_dequeue_batch_def fates_def publish_depth_def Let_def)

definition taken_up :: "('j envelope \<times> fate) list \<Rightarrow> ('j envelope \<times> fate) list" where
  "taken_up handed = filter (\<lambda>ef. snd ef \<noteq> Rejected) handed"

lemma taken_up_append [simp]:
  "taken_up [] = []" "taken_up (xs @ [(e, f)]) = taken_up xs @ (if f = Rejected then [] else [(e, f)])"
  by (simp_all add: taken_up_def)

definition wp_inv :: "'j json_lib \<Rightarrow> 'j writer_process \<Rightarrow> bool" where
  "wp_inv J s \<longleftrightarrow>
     aq_inv J (wp_queue s) \<and> aq_config (wp_queue s) = writer_config
     \<and> bw_inv (wp_writer s) \<and> bw_max_queue_size (wp_writer s) = aq_max_queue_size writer_config
     \<and> list_all (\<lambda>e. decoded J e \<noteq> None) (wp_accepted s)
     \<and> (\<forall>r. in_region J r (wp_accepted s)
          = in_region J r (map fst (wp_handed s)) @ in_region J r (main_holds (wp_main s))
            @ queue_of (aq_queues (wp_queue s)) r)
     \<and> entered (wp_handed s) = wp_flushed s @ batch_holds (wp_batch s) @ bw_pending (wp_writer s)
     \<and> fates (wp_queue s) = (of_nat (length (taken_up (wp_handed s))), of_nat (length (rejected (wp_handed s))))
     \<and> (wp_main s = M_done \<longrightarrow> wp_batch s = B_done)"

lemma wp_inv_start: "wp_inv J (process_start m sk)"
  by (simp add: wp_inv_def process_start_def writer_start_def aq_inv_new bw_inv_new)
    (simp add: async_queue_new_def batch_writer_new_def writer_config_def queue_of_def fates_def)

lemma aq_submit_keeps:
  assumes "aq_inv J a" "aq_submit J e a = (ok, a')"
  shows "aq_inv J a'" "aq_config a' = aq_config a" "fates a' = fates a"
    "queue_of (aq_queues a') r = queue_of (aq_queues a) r
       @ (if ok then in_region J r [e] else [])"
proof -
  have "aq_inv J a' \<and> aq_config a' = aq_config a \<and> queue_of (aq_queues a') r = queue_of (aq_queues a) r
       @ (if ok then in_region J r [e] else [])"
  proof (cases "total_queue_size (aq_queues a) < aq_max_queue_size (aq_config a)")
    case True
    from aq_submit_step [OF assms(1) True, of e] assms(2) show ?thesis by auto
  next
    case False
    then have "aq_max_queue_size (aq_config a) \<le> total_queue_size (aq_queues a)" by simp
    from aq_submit_full [OF assms(1) this, of e] assms(2) show ?thesis by auto
  qed
  then show "aq_inv J a'" "aq_config a' = aq_config a" "queue_of (aq_queues a') r = queue_of (aq_queues a) r
       @ (if ok then in_region J r [e] else [])" by simp_all
  show "fates a' = fates a" using fates_frame(1) [of J e a] assms(2) by simp
qed

lemma inv_message:
  assumes "wp_inv J s"
  shows "wp_inv J (message_step J env message s)"
proof (cases "parse_envelope J message")
  case None
  then show ?thesis using assms by (simp add: message_step_def)
next
  case (Some e)
  obtain r pl where c: "consume J env e (wp_pipeline s) = (r, pl)" by fastforce
  show ?thesis
  proof (cases "r = Consumed True")
    case True
    have "decoded J e \<noteq> None" using consume_rejects [of J e env "wp_pipeline s"] c True by auto
    moreover obtain ok a where sub: "aq_submit J e (wp_queue s) = (ok, a)" by fastforce
    moreover have "aq_inv J (wp_queue s)" using assms by (simp add: wp_inv_def)
    note aq_submit_keeps [OF this sub]
    ultimately show ?thesis
      using assms True by (auto simp: message_step_def Some c wp_inv_def)
  next
    case False
    then show ?thesis using assms by (simp add: message_step_def Some c wp_inv_def)
  qed
qed

lemma inv_main_dequeue:
  assumes "wp_inv J s" "wp_main s = M_dequeue"
  shows "\<exists>s'. main_step J s = Next s' \<and> wp_inv J s'"
proof -
  from assms(1) have "aq_inv J (wp_queue s)" by (simp add: wp_inv_def)
  from aq_dequeue_step [OF this] obtain b a where d: "aq_dequeue_batch (wp_queue s) = Some (b, a)"
    "aq_inv J a" "aq_config a = aq_config (wp_queue s)"
    "\<forall>r. in_region J r b @ queue_of (aq_queues a) r = queue_of (aq_queues (wp_queue s)) r"
    unfolding in_region_def by blast
  note fates_dequeue [OF d(1)]
  then show ?thesis using assms d
    by (cases b) (simp_all add: main_step_def wp_inv_def d(4) [rule_format, symmetric])
qed

lemma inv_main_submit:
  assumes "wp_inv J s" "wp_main s = M_submit final (e # es)"
  shows "\<exists>s'. main_step J s = Next s' \<and> wp_inv J s'"
proof -
  obtain ok w where sub: "bw_submit J e (wp_writer s) = (ok, w)" by fastforce
  have "bw_inv (wp_writer s)" using assms(1) by (simp add: wp_inv_def)
  then have "bw_inv w" using bw_submit_inv [of "wp_writer s" J e] sub by simp
  then show ?thesis using assms bw_submit_fate [OF sub]
    by (simp add: main_step_def sub wp_inv_def)
qed

lemma inv_main_drain:
  assumes "wp_inv J s" "wp_main s = M_drain"
  shows "\<exists>s'. main_step J s = Next s' \<and> wp_inv J s'"
proof -
  have "aq_inv J (wp_queue s)" using assms(1) by (simp add: wp_inv_def)
  note d = aq_inv_drained [OF this]
  show ?thesis
  proof (cases "concat (map snd (aq_queues (wp_queue s))) = []")
    case True
    with d(1) have "queue_of (aq_queues (wp_queue s)) r = []" for r by (metis in_region_append(1))
    then show ?thesis using assms d(2) True by (simp add: main_step_def wp_inv_def)
  next
    case False
    then show ?thesis using assms d by (simp add: main_step_def wp_inv_def Let_def del: concat_eq_Nil_conv)
  qed
qed

lemma inv_main:
  assumes "wp_inv J s"
  shows "main_step J s \<noteq> Fault" "main_step J s = Next s' \<Longrightarrow> wp_inv J s'"
proof -
  have "main_step J s = Blocked \<or> (\<exists>s'. main_step J s = Next s' \<and> wp_inv J s')"
  proof (cases "wp_main s")
    case M_head
    then show ?thesis using assms by (simp add: main_step_def wp_inv_def)
  next
    case (M_submit final es)
    then show ?thesis using assms inv_main_submit [OF assms]
      by (cases es) (simp_all add: main_step_def wp_inv_def)
  qed (use assms inv_main_dequeue [OF assms] inv_main_drain [OF assms] in
      \<open>simp_all add: main_step_def wp_inv_def\<close>)
  then show "main_step J s \<noteq> Fault" "main_step J s = Next s' \<Longrightarrow> wp_inv J s'" by auto
qed

text \<open>Envelopes the pipeline accepted have a tile key, so no flush of them is undefined.\<close>

lemma flush_defined:
  assumes "\<forall>e\<in>set batch. decoded J e \<noteq> None"
  shows "\<exists>sk'. flush_batch J head now db_ok open_ok batch sk = Some sk'"
proof -
  have "bw_tile_id_from_packet p \<noteq> None" if "(e, p) \<in> set (valid_packets J batch)" for e p
  proof -
    have "e \<in> set batch" "weather_packet_from_envelope J e = Some p"
      using that by (auto simp: valid_packets_def List.map_filter_def split: option.splits)
    then have "acceptable p" using assms by (auto simp: decoded_def split: if_splits)
    from validated_tile [OF this] show ?thesis by (simp add: bw_copies(4))
  qed
  then have "flush_loop J head batch flush_init \<noteq> None" by (auto simp: flush_loop_accumulates)
  then show ?thesis by (auto simp: flush_batch_def case_prod_beta Let_def)
qed

lemma wp_inv_batch_decoded:
  assumes "wp_inv J s"
  shows "\<forall>e\<in>set (batch_holds (wp_batch s)). decoded J e \<noteq> None"
proof
  fix e
  assume "e \<in> set (batch_holds (wp_batch s))"
  then have "e \<in> fst ` set (wp_handed s)"
    using assms entered_subset [of "wp_handed s"] by (auto simp: wp_inv_def)
  then have "e \<in> set (in_region J (extract_region J e) (map fst (wp_handed s)))"
    by (simp add: in_region_def)
  moreover have "in_region J (extract_region J e) (wp_accepted s)
      = in_region J (extract_region J e) (map fst (wp_handed s))
        @ in_region J (extract_region J e) (main_holds (wp_main s))
        @ queue_of (aq_queues (wp_queue s)) (extract_region J e)"
    using assms by (simp add: wp_inv_def)
  ultimately have "e \<in> set (in_region J (extract_region J e) (wp_accepted s))" by simp
  then have "e \<in> set (wp_accepted s)" by (simp add: in_region_def)
  then show "decoded J e \<noteq> None" using assms by (simp add: wp_inv_def list_all_iff)
qed

lemma take_keeps:
  "bw_inv w \<Longrightarrow> bw_inv (snd (bw_take_batch w))" "bw_inv w \<Longrightarrow> bw_inv (snd (bw_take_all w))"
  "bw_max_queue_size (snd (bw_take_batch w)) = bw_max_queue_size w"
  "bw_max_queue_size (snd (bw_take_all w)) = bw_max_queue_size w"
  "fst (bw_take_batch w) @ bw_pending (snd (bw_take_batch w)) = bw_pending w"
  "fst (bw_take_all w) @ bw_pending (snd (bw_take_all w)) = bw_pending w"
  by (auto simp: bw_inv_def bw_take_batch_def bw_take_all_def)

lemma inv_batch_flush:
  assumes "wp_inv J s" "wp_batch s = B_flush final batch"
  shows "\<exists>s'. batch_step J head g s = Next s' \<and> wp_inv J s'"
proof -
  have "\<forall>e\<in>set batch. decoded J e \<noteq> None" using wp_inv_batch_decoded [OF assms(1)] assms(2) by simp
  from flush_defined [OF this] obtain sk' where "flush_batch J head (sg_now g) (sg_db_ok g) (sg_open_ok g) batch
      ((wp_sink s)\<lparr>sk_metrics := aq_global (wp_queue s)\<rparr>) = Some sk'" by blast
  then show ?thesis using assms by (simp add: batch_step_def flush_shared_def wp_inv_def)
qed

lemma inv_batch_take:
  assumes "wp_inv J s" "wp_batch s = B_take \<or> wp_batch s = B_drain"
  shows "\<exists>s'. batch_step J head g s = Next s' \<and> wp_inv J s'"
proof -
  define batch w where "batch = fst (if wp_batch s = B_take then bw_take_batch (wp_writer s) else bw_take_all (wp_writer s))"
    and "w = snd (if wp_batch s = B_take then bw_take_batch (wp_writer s) else bw_take_all (wp_writer s))"
  have "bw_inv (wp_writer s)" using assms(1) by (simp add: wp_inv_def)
  then have w: "bw_inv w" "bw_max_queue_size w = bw_max_queue_size (wp_writer s)"
    "batch @ bw_pending w = bw_pending (wp_writer s)"
    using assms(2) by (auto simp: batch_def w_def take_keeps)
  have "batch_step J head g s = Next (s\<lparr>wp_writer := w, wp_batch :=
      if batch = [] then (if wp_batch s = B_take then B_head else B_done)
      else B_flush (wp_batch s \<noteq> B_take) batch\<rparr>)"
    using assms(2) by (auto simp: batch_step_def batch_def w_def case_prod_beta)
  then show ?thesis using assms w by (cases batch) (auto simp: wp_inv_def)
qed

lemma inv_batch:
  assumes "wp_inv J s"
  shows "batch_step J head g s \<noteq> Fault" "batch_step J head g s = Next s' \<Longrightarrow> wp_inv J s'"
proof -
  have "batch_step J head g s = Blocked \<or> (\<exists>s'. batch_step J head g s = Next s' \<and> wp_inv J s')"
  proof (cases "wp_batch s")
    case (B_flush final batch)
    then show ?thesis using inv_batch_flush [OF assms] by blast
  qed (use assms inv_batch_take [OF assms] in \<open>auto simp: batch_step_def wp_inv_def\<close>)
  then show "batch_step J head g s \<noteq> Fault" "batch_step J head g s = Next s' \<Longrightarrow> wp_inv J s'" by auto
qed

lemma inv_step:
  assumes "wp_inv J s"
  shows "writer_step J head act s \<noteq> Fault" "writer_step J head act s = Next s' \<Longrightarrow> wp_inv J s'"
  using inv_message [OF assms] inv_main [OF assms] inv_batch [OF assms] assms
  by (cases act; auto simp: wp_inv_def)+

interpretation writer: preserved "writer_step J head" "wp_inv J" for J :: "'j json_lib" and head
  by unfold_locales (rule inv_step(2))

text \<open>
  C33: the writer process.  In every state its three threads can reach together, nothing is
  undefined and every dequeue returns; both queues respect their bound; for each region the
  envelopes the asynchronous queue accepted are, in order, those handed to the batch writer, those in
  the main thread's hands and those queued; the envelopes that entered the batch writer are, in
  order, those flushed, those in the batch thread's hands and those pending; the counters
  tell how many were taken up and how many rejected; and when both threads have ended nothing is
  in their hands, so what is lost then is what the two queues still hold.
\<close>

theorem writer_process_accounts:
  assumes "writer_reaches J head (process_start m sk) s"
  shows "writer_step J head act s \<noteq> Fault
    \<and> total_queue_size (aq_queues (wp_queue s)) \<le> 4096 \<and> length (bw_pending (wp_writer s)) \<le> 4096
    \<and> in_region J r (wp_accepted s) = in_region J r (map fst (wp_handed s))
        @ in_region J r (main_holds (wp_main s)) @ queue_of (aq_queues (wp_queue s)) r
    \<and> entered (wp_handed s) = wp_flushed s @ batch_holds (wp_batch s) @ bw_pending (wp_writer s)
    \<and> aqm_messages_processed (aq_metrics (wp_queue s)) = of_nat (length (taken_up (wp_handed s)))
    \<and> aqm_write_errors (aq_metrics (wp_queue s)) = of_nat (length (rejected (wp_handed s)))
    \<and> (wp_main s = M_done \<longrightarrow> main_holds (wp_main s) = [] \<and> batch_holds (wp_batch s) = [])"
proof -
  have inv: "wp_inv J s" using writer.reaches_good [OF assms wp_inv_start] .
  have "aq_max_queue_size writer_config = 4096" by (simp add: writer_config_def)
  then have "total_queue_size (aq_queues (wp_queue s)) \<le> 4096" "length (bw_pending (wp_writer s)) \<le> 4096"
    using inv by (auto simp: wp_inv_def aq_inv_def bw_inv_def)
  then show ?thesis using inv_step(1) [OF inv] inv by (simp add: wp_inv_def fates_def)
qed

text \<open>A run that ends with an envelope in the batch writer's queue: the batch thread has drained and
  ended before the main thread hands it the envelope.\<close>

definition calm :: storage where
  "calm = \<lparr>sg_backend = True, sg_now = 7, sg_db_ok = True, sg_present = False, sg_open_ok = True,
     sg_truncate_ok = True\<rparr>"

definition shutdown_race :: "writer_action list" where
  "shutdown_race = [Message quiet ''x'', Stop, Batch calm, Batch calm, Batch calm, Main, Main, Main, Main, Main]"

lemma demo_consumed:
  obtains pl where "consume one_line quiet demo_envelope (pipeline_new name True) = (Consumed True, pl)"
proof -
  obtain r pl where c: "consume one_line quiet demo_envelope (pipeline_new name True) = (r, pl)" by fastforce
  have "r = Consumed True"
    using consume_accepts(2) [OF demo_decoded pl_inv_new c] by (simp add: quiet_def)
  with c that show thesis by simp
qed

lemma demo_parsed: "parse_envelope one_line ''x'' = Some demo_envelope"
  using one_line_ok by (simp add: line_ok_def)

lemma demo_readable: "weather_packet_from_envelope one_line demo_envelope \<noteq> None"
  using demo_decoded by (auto simp: decoded_def split: option.splits)

lemma shutdown_race_runs:
  "\<exists>s. run_steps (writer_step one_line head) shutdown_race (process_start m sk) = Next s \<and> wp_main s = M_done
     \<and> wp_batch s = B_done \<and> wp_accepted s = [demo_envelope] \<and> wp_flushed s = []
     \<and> bw_pending (wp_writer s) = [demo_envelope]"
proof -
  obtain pl where c: "consume one_line quiet demo_envelope (pipeline_new ''timescale_writer'' True) = (Consumed True, pl)"
    by (rule demo_consumed)
  show ?thesis
    using demo_parsed demo_readable
    by (simp add: shutdown_race_def process_start_def writer_start_def message_step_def c batch_step_def
      main_step_def calm_def aq_submit_def publish_depth_def async_queue_new_def writer_config_def
      total_queue_size_def smap_modify_def smap_lookup_def bw_take_all_def batch_writer_new_def
      replay_outbox_def bw_submit_def bw_remember_def seen_capacity_def Let_def)
qed

theorem writer_process_accounts_witness:
  "\<forall>head m sk. \<exists>s. writer_reaches one_line head (process_start m sk) s \<and> wp_main s = M_done
     \<and> wp_accepted s = [demo_envelope] \<and> wp_flushed s = [] \<and> entered (wp_handed s) = [demo_envelope]
     \<and> aqm_messages_processed (aq_metrics (wp_queue s)) = of_nat (length (taken_up (wp_handed s)))"
proof (intro allI)
  fix head m sk
  obtain s where s: "run_steps (writer_step one_line head) shutdown_race (process_start m sk) = Next s"
    "wp_main s = M_done" "wp_batch s = B_done" "wp_accepted s = [demo_envelope]" "wp_flushed s = []"
    "bw_pending (wp_writer s) = [demo_envelope]" using shutdown_race_runs by blast
  have r: "writer_reaches one_line head (process_start m sk) s"
    by (rule run_steps_reaches [OF s(1) reaches.Here])
  from writer_process_accounts [OF r] s r show "\<exists>s. writer_reaches one_line head (process_start m sk) s \<and> wp_main s = M_done
     \<and> wp_accepted s = [demo_envelope] \<and> wp_flushed s = [] \<and> entered (wp_handed s) = [demo_envelope]
     \<and> aqm_messages_processed (aq_metrics (wp_queue s)) = of_nat (length (taken_up (wp_handed s)))" by auto
qed

end
