(* ===== verification/Writer_Shutdown.thy ===== *)
theory Writer_Shutdown
  imports Writer_Process
begin

text \<open>
  The end of the process of \<open>timescale_writer/main.cpp\<close>: once the \<open>running\<close> flag is cleared, the
  main thread and the batch thread run to their ends, however they interleave; what order of
  the two drains loses nothing.
\<close>

section \<open>The two threads\<close>

text \<open>None: a step of the main thread; Some: a step of the batch thread with its answers.\<close>

fun writer_thread :: "'j json_lib \<Rightarrow> ('j envelope \<Rightarrow> weather_packet \<Rightarrow> raw_head) \<Rightarrow> storage option \<Rightarrow>
    'j writer_process \<Rightarrow> 'j writer_process outcome" where
  "writer_thread J head None s = main_step J s"
| "writer_thread J head (Some g) s = batch_step J head g s"

lemma writer_thread_step:
  "writer_thread J head a s = writer_step J head (case a of None \<Rightarrow> Main | Some g \<Rightarrow> Batch g) s"
  by (cases a) simp_all

text \<open>No list in the main thread's hands is longer than a batch, or than the queue it drained.\<close>

fun sized :: "'j main_pc \<Rightarrow> bool" where
  "sized (M_submit final es) \<longleftrightarrow> length es \<le> (if final then 4096 else 250)"
| "sized _ \<longleftrightarrow> True"

lemma total_is_length: "total_queue_size qs = length (concat (map snd qs))"
  by (induction qs) (auto simp: total_queue_size_def)

lemma dequeue_total:
  assumes "aq_inv J a" "aq_dequeue_batch a = Some (b, a')"
  shows "length b = min (aq_batch_size (aq_config a)) (total_queue_size (aq_queues a))"
    "total_queue_size (aq_queues a') = total_queue_size (aq_queues a) - length b"
proof -
  have inv: "queues_inv (aq_queues a)" "\<forall>(r, q)\<in>set (aq_queues a). \<forall>e\<in>set q. extract_region J e = r"
    using assms(1) by (simp_all add: aq_inv_def)
  from dequeue_loop_correct [OF inv(1) _ inv(2), of "[]" "aq_batch_size (aq_config a)"]
  obtain qs t where "dequeue_loop (aq_batch_size (aq_config a)) (aq_queues a) [] = Some (qs, t)"
    "length t = min (aq_batch_size (aq_config a)) (total_queue_size (aq_queues a))"
    "total_queue_size qs = total_queue_size (aq_queues a) - length t"
    by auto
  then show "length b = min (aq_batch_size (aq_config a)) (total_queue_size (aq_queues a))"
    "total_queue_size (aq_queues a') = total_queue_size (aq_queues a) - length b"
    using assms(2) by (auto simp: aq_dequeue_batch_def Let_def)
qed

definition wp_sized :: "'j json_lib \<Rightarrow> 'j writer_process \<Rightarrow> bool" where
  "wp_sized J s \<longleftrightarrow> wp_inv J s \<and> sized (wp_main s)"

lemma wp_inv_queue:
  assumes "wp_inv J s"
  shows "aq_inv J (wp_queue s)" "aq_batch_size (aq_config (wp_queue s)) = 250"
    "total_queue_size (aq_queues (wp_queue s)) \<le> 4096"
  using assms by (auto simp: wp_inv_def aq_inv_def writer_config_def)

lemma sized_main:
  assumes "wp_sized J s" "main_step J s = Next s'"
  shows "sized (wp_main s')"
proof (cases "wp_main s")
  case M_dequeue
  then obtain b a where d: "aq_dequeue_batch (wp_queue s) = Some (b, a)"
    "s' = s\<lparr>wp_queue := a, wp_main := if b = [] then M_head else M_submit False b\<rparr>"
    using assms(2) by (auto simp: main_step_def split: option.splits)
  have "wp_inv J s" using assms(1) by (simp add: wp_sized_def)
  from dequeue_total(1) [OF wp_inv_queue(1) [OF this] d(1)] wp_inv_queue(2) [OF this]
  show ?thesis by (simp add: d(2))
next
  case (M_submit final es)
  then show ?thesis using assms by (cases es) (auto simp: main_step_def wp_sized_def Let_def split: prod.splits)
next
  case M_drain
  then show ?thesis using assms(2) wp_inv_queue(3) [of J s] assms(1)
    by (auto simp: main_step_def wp_sized_def Let_def total_is_length)
qed (use assms(2) in \<open>auto simp: main_step_def split: if_splits\<close>)

lemma main_unmoved: "wp_main (message_step J env message s) = wp_main s"
  "batch_step J head g s = Next s' \<Longrightarrow> wp_main s' = wp_main s"
  by (simp_all add: message_step_def case_prod_beta split: option.splits)
    (auto simp: batch_step_def flush_shared_def Let_def split: batch_pc.splits option.splits prod.splits)

lemma sized_step:
  assumes "wp_sized J s" "writer_step J head act s = Next s'"
  shows "wp_sized J s'"
proof -
  have "wp_inv J s'" using assms inv_step(2) by (auto simp: wp_sized_def)
  moreover have "sized (wp_main s')"
    using assms sized_main [OF assms(1)]
    by (cases act) (auto simp: wp_sized_def main_unmoved(1) dest!: main_unmoved(2))
  ultimately show ?thesis by (simp add: wp_sized_def)
qed

interpretation writer_sized: preserved "writer_step J head" "wp_sized J" for J :: "'j json_lib" and head
  by unfold_locales (rule sized_step)

lemma process_start_main [simp]: "wp_main (process_start m sk) = M_head"
  by (simp add: process_start_def writer_start_def)

lemma wp_sized_start: "wp_sized J (process_start m sk)"
  by (simp add: wp_sized_def wp_inv_start)

section \<open>The ranks\<close>

fun main_rank :: "nat \<Rightarrow> 'j main_pc \<Rightarrow> nat" where
  "main_rank q M_done = 0"
| "main_rank q M_join = 1"
| "main_rank q (M_submit True es) = length es + 2"
| "main_rank q M_drain = q + 3"
| "main_rank q M_head = q + 4"
| "main_rank q (M_submit False es) = length es + 5 + q"
| "main_rank q M_dequeue = q + 6"

fun batch_rank :: "'j batch_pc \<Rightarrow> nat" where
  "batch_rank B_done = 0"
| "batch_rank (B_flush True es) = 1"
| "batch_rank B_drain = 2"
| "batch_rank B_head = 3"
| "batch_rank (B_flush False es) = 4"
| "batch_rank B_start = 4"
| "batch_rank B_take = 5"

definition writer_rank :: "'j writer_process \<Rightarrow> nat" where
  "writer_rank s = main_rank (total_queue_size (aq_queues (wp_queue s))) (wp_main s) + batch_rank (wp_batch s)"

definition closing :: "'j json_lib \<Rightarrow> 'j writer_process \<Rightarrow> bool" where
  "closing J s \<longleftrightarrow> wp_sized J s \<and> \<not> wp_running s"

lemma closing_rank: "closing J s \<Longrightarrow> writer_rank s \<le> 4356"
proof -
  assume "closing J s"
  then have "total_queue_size (aq_queues (wp_queue s)) \<le> 4096" "sized (wp_main s)"
    using wp_inv_queue(3) by (auto simp: closing_def wp_sized_def)
  then have "main_rank (total_queue_size (aq_queues (wp_queue s))) (wp_main s) \<le> 4351"
    by (cases "(total_queue_size (aq_queues (wp_queue s)), wp_main s)" rule: main_rank.cases) simp_all
  moreover have "batch_rank (wp_batch s) \<le> 5" by (cases "wp_batch s" rule: batch_rank.cases) simp_all
  ultimately show ?thesis by (simp add: writer_rank_def)
qed

lemma main_step_rank:
  assumes "closing J s" "main_step J s = Next s'"
  shows "main_rank (total_queue_size (aq_queues (wp_queue s'))) (wp_main s')
      < main_rank (total_queue_size (aq_queues (wp_queue s))) (wp_main s)"
    "wp_batch s' = wp_batch s" "\<not> wp_running s'"
proof -
  have inv: "aq_inv J (wp_queue s)" "\<not> wp_running s"
    using assms(1) wp_inv_queue(1) by (auto simp: closing_def wp_sized_def)
  show "main_rank (total_queue_size (aq_queues (wp_queue s'))) (wp_main s')
      < main_rank (total_queue_size (aq_queues (wp_queue s))) (wp_main s)"
  proof (cases "wp_main s")
    case M_dequeue
    then obtain b a where d: "aq_dequeue_batch (wp_queue s) = Some (b, a)"
      "s' = s\<lparr>wp_queue := a, wp_main := if b = [] then M_head else M_submit False b\<rparr>"
      using assms(2) by (auto simp: main_step_def split: option.splits)
    have "length b \<le> total_queue_size (aq_queues (wp_queue s))"
      using dequeue_total(1) [OF inv(1) d(1)] by simp
    then show ?thesis using M_dequeue d(2) dequeue_total(2) [OF inv(1) d(1)] by auto
  next
    case (M_submit final es)
    then show ?thesis using assms(2)
      by (cases es; cases final) (auto simp: main_step_def Let_def split: prod.splits)
  next
    case M_drain
    then show ?thesis using assms(2) by (auto simp: main_step_def Let_def total_is_length)
  qed (use assms(2) inv(2) in \<open>auto simp: main_step_def split: if_splits\<close>)
  show "wp_batch s' = wp_batch s" "\<not> wp_running s'"
    using assms(2) inv(2)
    by (auto simp: main_step_def Let_def split: main_pc.splits option.splits list.splits prod.splits if_splits)
qed

lemma batch_step_rank:
  assumes "\<not> wp_running s" "batch_step J head g s = Next s'"
  shows "batch_rank (wp_batch s') < batch_rank (wp_batch s)"
    "aq_queues (wp_queue s') = aq_queues (wp_queue s)" "\<not> wp_running s'"
  using assms
  by (cases "wp_batch s" rule: batch_rank.cases;
      auto simp: batch_step_def flush_shared_def Let_def split: option.splits prod.splits)+

interpretation writer_closing: ranked "writer_thread J head" "closing J" writer_rank
  for J :: "'j json_lib" and head
proof
  fix s a and s' :: "'j writer_process"
  assume c: "closing J s" and st: "writer_thread J head a s = Next s'"
  have "\<not> wp_running s" "wp_sized J s" using c by (simp_all add: closing_def)
  moreover have "wp_sized J s'"
    using sized_step [OF calculation(2)] st by (simp add: writer_thread_step)
  ultimately show "closing J s'"
    using main_step_rank(3) [OF c] batch_step_rank(3) [of s] st by (cases a) (auto simp: closing_def)
  show "writer_rank s' < writer_rank s"
  proof (cases a)
    case None
    then show ?thesis using st main_step_rank(1,2) [OF c, of s'] by (simp add: writer_rank_def)
  next
    case (Some g)
    then have b: "batch_step J head g s = Next s'" using st by simp
    from batch_step_rank(1,2) [OF \<open>\<not> wp_running s\<close> b] main_unmoved(2) [OF b]
    show ?thesis by (simp add: writer_rank_def)
  qed
qed

lemma closing_no_fault: "closing J s \<Longrightarrow> writer_thread J head a s \<noteq> Fault"
  using inv_step(1) by (auto simp: writer_thread_step closing_def wp_sized_def)

section \<open>How it ends\<close>

text \<open>Has the main thread emptied the queues for good; is the final drain of the batch thread to come.\<close>

fun has_drained :: "'j main_pc \<Rightarrow> bool" where
  "has_drained (M_submit final es) \<longleftrightarrow> final"
| "has_drained pc \<longleftrightarrow> pc = M_join \<or> pc = M_done"

fun drains_later :: "'j batch_pc \<Rightarrow> bool" where
  "drains_later (B_flush final es) \<longleftrightarrow> \<not> final"
| "drains_later pc \<longleftrightarrow> pc \<noteq> B_done"

lemma closing_blocked:
  assumes "closing J s"
  shows "all_blocked (writer_thread J head) s \<longleftrightarrow> wp_main s = M_done \<and> wp_batch s = B_done"
proof -
  have "batch_step J head g s = Blocked \<longleftrightarrow> wp_batch s = B_done" for g
    using closing_no_fault [OF assms, of head "Some g"]
    by (auto simp: batch_step_def Let_def split: batch_pc.splits option.splits prod.splits)
  moreover have "main_step J s = Blocked \<longleftrightarrow> wp_main s = M_done \<or> wp_main s = M_join \<and> wp_batch s \<noteq> B_done"
    using closing_no_fault [OF assms, of head None]
    by (auto simp: main_step_def Let_def split: main_pc.splits option.splits prod.splits list.splits)
  ultimately have "writer_thread J head a s = Blocked \<longleftrightarrow> (case a of
      None \<Rightarrow> wp_main s = M_done \<or> wp_main s = M_join \<and> wp_batch s \<noteq> B_done
    | Some g \<Rightarrow> wp_batch s = B_done)" for a by (cases a) simp_all
  then show ?thesis by (auto simp: all_blocked_def split: option.splits)
qed

text \<open>Preserved by the two threads: queues once drained stay empty; when the main thread has nothing
  left to hand on, the final drain of the batch thread leaves nothing pending.\<close>

lemma drained_main: "(has_drained (wp_main s) \<longrightarrow> aq_queues (wp_queue s) = []) \<Longrightarrow>
  main_step J s = Next s' \<Longrightarrow> has_drained (wp_main s') \<longrightarrow> aq_queues (wp_queue s') = []"
  by (auto simp: main_step_def Let_def split: main_pc.splits option.splits prod.splits list.splits if_splits)

lemma drained_batch: "batch_step J head g s = Next s' \<Longrightarrow> aq_queues (wp_queue s') = aq_queues (wp_queue s)"
  by (auto simp: batch_step_def flush_shared_def Let_def split: batch_pc.splits option.splits prod.splits)

interpretation drained: preserved "writer_thread J head"
  "\<lambda>s. has_drained (wp_main s) \<longrightarrow> aq_queues (wp_queue s) = []" for J :: "'j json_lib" and head
proof
  fix s a and s' :: "'j writer_process"
  assume "has_drained (wp_main s) \<longrightarrow> aq_queues (wp_queue s) = []" "writer_thread J head a s = Next s'"
  then show "has_drained (wp_main s') \<longrightarrow> aq_queues (wp_queue s') = []"
  proof (cases a)
    case None
    then show ?thesis using \<open>writer_thread J head a s = Next s'\<close> drained_main [of s J s']
        \<open>has_drained (wp_main s) \<longrightarrow> aq_queues (wp_queue s) = []\<close> by simp
  next
    case (Some g)
    then have "batch_step J head g s = Next s'" using \<open>writer_thread J head a s = Next s'\<close> by simp
    from drained_batch [OF this] main_unmoved(2) [OF this] show ?thesis
      using \<open>has_drained (wp_main s) \<longrightarrow> aq_queues (wp_queue s) = []\<close> by simp
  qed
qed

text \<open>What the process prints at its end.\<close>

definition get_queue_depth :: "'j async_queue \<Rightarrow> nat" where
  "get_queue_depth a = total_queue_size (aq_queues a)"

definition stopped_text :: "aq_metrics \<Rightarrow> string" where
  "stopped_text m = ''[AsyncQueueWriter] Stopped (processed='' @ u64_text (aqm_messages_processed m)
     @ '', flushed='' @ u64_text (aqm_batches_flushed m) @ '', errors='' @ u64_text (aqm_write_errors m)
     @ '', backpressure_events='' @ u64_text (aqm_backpressure_events m) @ '')'' @ nl"

definition final_statistics :: "'j async_queue \<Rightarrow> string" where
  "final_statistics a = nl @ ''=== Final Statistics ==='' @ nl
     @ ''Messages processed: '' @ u64_text (aqm_messages_processed (aq_metrics a)) @ nl
     @ ''Batches flushed: '' @ u64_text (aqm_batches_flushed (aq_metrics a)) @ nl
     @ ''Write errors: '' @ u64_text (aqm_write_errors (aq_metrics a)) @ nl
     @ ''Backpressure events: '' @ u64_text (aqm_backpressure_events (aq_metrics a)) @ nl
     @ ''Final queue depth: '' @ to_string (int (get_queue_depth a)) @ nl"

text \<open>When no message comes after the drain the depth reported is 0.\<close>

lemma reported_depth:
  assumes "closing J s" "\<not> has_drained (wp_main s)" "run_steps (writer_thread J head) as s = Next s'"
    "all_blocked (writer_thread J head) s'"
  shows "get_queue_depth (wp_queue s') = 0"
proof -
  have "has_drained (wp_main s') \<longrightarrow> aq_queues (wp_queue s') = []"
    by (rule drained.run_good [OF assms(3)]) (use assms(2) in simp)
  moreover have "wp_main s' = M_done"
    using closing_blocked [OF writer_closing.run_good [OF assms(3,1)]] assms(4) by blast
  ultimately show ?thesis by (simp add: get_queue_depth_def total_queue_size_def)
qed

definition ordered :: "'j writer_process \<Rightarrow> bool" where
  "ordered s \<longleftrightarrow> (wp_main s = M_join \<or> wp_main s = M_done)
     \<and> (drains_later (wp_batch s) \<or> bw_pending (wp_writer s) = [])"

interpretation ordered: preserved "writer_thread J head" ordered for J :: "'j json_lib" and head
proof
  fix s a and s' :: "'j writer_process"
  assume o: "ordered s" and st: "writer_thread J head a s = Next s'"
  show "ordered s'"
  proof (cases a)
    case None
    then show ?thesis using o st by (auto simp: ordered_def main_step_def split: if_splits)
  next
    case (Some g)
    then have "batch_step J head g s = Next s'" using st by simp
    from this main_unmoved(2) [OF this] show ?thesis using o
      by (cases "wp_batch s" rule: drains_later.cases)
        (auto simp: ordered_def batch_step_def flush_shared_def bw_take_all_def Let_def
          split: option.splits prod.splits)
  qed
qed

text \<open>
  C36: the writer shuts down.  From any state its threads can reach in which \<open>running\<close> is false
  and no more messages come, the main and the batch thread take at most 4356 steps together,
  none of which is undefined; they cannot stop before both have ended, and some run gets
  there.  Then the region queues are empty unless messages came after the main thread's drain;
  and if the main thread was waiting for the batch thread before the final drain of the latter,
  every envelope that entered the batch writer has been flushed.
\<close>

theorem writer_shutdown:
  assumes "writer_reaches J head (process_start m sk) s" "\<not> wp_running s"
  shows "(\<forall>as s'. run_steps (writer_thread J head) as s = Next s' \<longrightarrow> length as \<le> 4356)
    \<and> (\<forall>as. run_steps (writer_thread J head) as s \<noteq> Fault)
    \<and> (\<exists>as s'. run_steps (writer_thread J head) as s = Next s' \<and> all_blocked (writer_thread J head) s')
    \<and> (\<forall>as s'. run_steps (writer_thread J head) as s = Next s' \<and> all_blocked (writer_thread J head) s' \<longrightarrow>
         wp_main s' = M_done \<and> wp_batch s' = B_done
         \<and> (has_drained (wp_main s) \<or> aq_queues (wp_queue s') = [])
         \<and> (wp_main s = M_join \<and> drains_later (wp_batch s) \<longrightarrow> entered (wp_handed s') = wp_flushed s'))"
proof -
  have c: "closing J s"
    using writer_sized.reaches_good [OF assms(1) wp_sized_start] assms(2) by (simp add: closing_def)
  have "length as \<le> 4356" if "run_steps (writer_thread J head) as s = Next s'" for as s'
    using writer_closing.run_length [OF that c] closing_rank [OF c] by simp
  moreover have "run_steps (writer_thread J head) as s \<noteq> Fault" for as
    using writer_closing.run_no_fault [OF closing_no_fault c] .
  moreover have "\<exists>as s'. run_steps (writer_thread J head) as s = Next s' \<and> all_blocked (writer_thread J head) s'"
    by (rule writer_closing.run_settles [OF closing_no_fault c])
  moreover have "wp_main s' = M_done \<and> wp_batch s' = B_done
         \<and> (has_drained (wp_main s) \<or> aq_queues (wp_queue s') = [])
         \<and> (wp_main s = M_join \<and> drains_later (wp_batch s) \<longrightarrow> entered (wp_handed s') = wp_flushed s')"
    if run: "run_steps (writer_thread J head) as s = Next s'" and b: "all_blocked (writer_thread J head) s'" for as s'
  proof -
    have c': "closing J s'" by (rule writer_closing.run_good [OF run c])
    then have ends: "wp_main s' = M_done" "wp_batch s' = B_done" using b closing_blocked by blast+
    have "has_drained (wp_main s) \<or> aq_queues (wp_queue s') = []"
      using drained.run_good [OF run] ends by auto
    moreover have "entered (wp_handed s') = wp_flushed s'" if "wp_main s = M_join" "drains_later (wp_batch s)"
    proof -
      have "ordered s'" using ordered.run_good [OF run] that by (simp add: ordered_def)
      then have "bw_pending (wp_writer s') = []" using ends by (simp add: ordered_def)
      then show ?thesis using c' ends by (simp add: closing_def wp_sized_def wp_inv_def)
    qed
    ultimately show ?thesis using ends by blast
  qed
  ultimately show ?thesis by blast
qed

text \<open>The other order of the two drains: the main thread hands its last envelope on and waits.\<close>

definition orderly_shutdown :: "writer_action list" where
  "orderly_shutdown = [Message quiet ''x'', Stop, Main, Main, Main, Main]"

lemma orderly_shutdown_runs:
  "\<exists>s. run_steps (writer_step one_line head) orderly_shutdown (process_start m sk) = Next s \<and> wp_main s = M_join
     \<and> wp_batch s = B_start \<and> \<not> wp_running s \<and> bw_pending (wp_writer s) = [demo_envelope]"
proof -
  obtain pl where c: "consume one_line quiet demo_envelope (pipeline_new ''timescale_writer'' True) = (Consumed True, pl)"
    by (rule demo_consumed)
  show ?thesis
    using demo_parsed demo_readable
    by (simp add: orderly_shutdown_def process_start_def writer_start_def message_step_def c
      main_step_def aq_submit_def publish_depth_def async_queue_new_def writer_config_def
      total_queue_size_def smap_modify_def smap_lookup_def batch_writer_new_def
      bw_submit_def bw_remember_def seen_capacity_def Let_def)
qed

theorem writer_shutdown_witness:
  "\<forall>head m sk. \<exists>s as s'. writer_reaches one_line head (process_start m sk) s
     \<and> wp_main s = M_join \<and> bw_pending (wp_writer s) = [demo_envelope]
     \<and> run_steps (writer_thread one_line head) as s = Next s'
     \<and> wp_main s' = M_done \<and> wp_batch s' = B_done \<and> entered (wp_handed s') = wp_flushed s'"
proof (intro allI)
  fix head m sk
  obtain s where s: "run_steps (writer_step one_line head) orderly_shutdown (process_start m sk) = Next s"
    "wp_main s = M_join" "wp_batch s = B_start" "\<not> wp_running s" "bw_pending (wp_writer s) = [demo_envelope]"
    using orderly_shutdown_runs by blast
  have r: "writer_reaches one_line head (process_start m sk) s"
    by (rule run_steps_reaches [OF s(1) reaches.Here])
  note sd = writer_shutdown [OF r s(4)]
  from sd obtain as s' where run: "run_steps (writer_thread one_line head) as s = Next s'"
    "all_blocked (writer_thread one_line head) s'" by blast
  have "drains_later (wp_batch s)" using s(3) by simp
  with sd run s(2) have "wp_main s' = M_done \<and> wp_batch s' = B_done \<and> entered (wp_handed s') = wp_flushed s'"
    by blast
  with r s run show "\<exists>s as s'. writer_reaches one_line head (process_start m sk) s
     \<and> wp_main s = M_join \<and> bw_pending (wp_writer s) = [demo_envelope]
     \<and> run_steps (writer_thread one_line head) as s = Next s'
     \<and> wp_main s' = M_done \<and> wp_batch s' = B_done \<and> entered (wp_handed s') = wp_flushed s'" by blast
qed

end
