(* ===== verification/Comparator_Process.thy ===== *)
theory Comparator_Process
  imports Comparator Transitions
begin

text \<open>
  The life of the process of \<open>services/personal_comparator/main.cpp\<close>: start-up, the telemetry
  server with its accept loop, the real-time and the database thread with their readings of the
  \<open>running\<close> flag, and the main thread that joins them.  The steps on the rings are those of
  \<open>Comparator\<close>.  Memory locking and scheduling calls only print and are left out.
\<close>

section \<open>Start-up\<close>

datatype comparator_start = Main_throws parse_error | Main_exits int | Main_runs baseline_profile int

text \<open>The text of a file, or None when it does not open.\<close>

definition comparator_main :: "'j json_lib \<Rightarrow> string list \<Rightarrow> (string \<Rightarrow> string option) \<Rightarrow> comparator_start" where
  "comparator_main J args file = (case comparator_args args comparator_defaults of
      Inl err \<Rightarrow> Main_throws err
    | Inr (path, port) \<Rightarrow>
        (case load_baseline_file J (file path \<noteq> None) (Option.bind (file path) (j_parse J)) of
           None \<Rightarrow> Main_exits 1
         | Some profile \<Rightarrow> Main_runs profile port))"

lemma comparator_main_hours:
  "comparator_main J args file = Main_runs profile port \<Longrightarrow> length (bp_baselines profile) = 24"
  by (auto simp: comparator_main_def load_baseline_file_def split: sum.splits option.splits if_splits bind_splits)

definition comparator_dsn :: "string option \<Rightarrow> string" where
  "comparator_dsn env = (case env of
     None \<Rightarrow> ''host=127.0.0.1 port=5432 dbname=weather_rtos user=weather_rtos password=weather_secret''
   | Some dsn \<Rightarrow> dsn)"

text \<open>\<open>opens\<close> says for a connection string whether the library connects.\<close>

definition sync_connected :: "bool \<Rightarrow> (string \<Rightarrow> bool) \<Rightarrow> string option \<Rightarrow> bool" where
  "sync_connected libpq opens env = (libpq \<and> opens (comparator_dsn env))"

definition actuator_text :: "int \<Rightarrow> comparison_record \<Rightarrow> string" where
  "actuator_text now r = ''[RT-ACTUATOR] ['' @ to_string now @ ''] !! EXCEEDED !! Profile: '' @ cr_profile_id r
     @ '' | Live: '' @ ostream_double (cr_live_value r) @ '' | Baseline: '' @ ostream_double (cr_baseline_value r)
     @ '' | Variance: '' @ ostream_double (cr_variance r) @ '' | TRIGGER ACTIVE'' @ nl"

section \<open>State and steps\<close>

text \<open>Where the threads are.  The server holds the buffer of its client, and the lines cut from it
  that it has yet to handle.\<close>

datatype server_pc = V_setup | V_head | V_wait | V_client string | V_recv string
  | V_lines "string list" string | V_over

datatype rt_pc = R_head | R_pop | R_push | R_over

datatype db_pc = D_start | D_head | D_pop | D_over

datatype joiner_pc = N_serve | N_stop | N_join_rt | N_join_db | N_exit

record comparator_process =
  kp_running :: bool
  kp_comparator :: comparator
  kp_linked :: bool
  kp_server :: server_pc
  kp_rt :: rt_pc
  kp_db :: db_pc
  kp_main :: joiner_pc
  kp_console :: "string list"

definition kp_start :: "telemetry_event \<Rightarrow> comparison_record \<Rightarrow> comparator_process option" where
  "kp_start e0 r0 = map_option (\<lambda>c. \<lparr>kp_running = True, kp_comparator = c, kp_linked = False,
     kp_server = V_setup, kp_rt = R_head, kp_db = D_start, kp_main = N_serve, kp_console = []\<rparr>)
     (comparator_new e0 r0)"

text \<open>What the socket calls answer; \<open>recv\<close> may keep the thread waiting.\<close>

record server_answers =
  va_socket :: int
  va_bind :: int
  va_listen :: int
  va_poll :: int
  va_accept :: int
  va_recv :: "recv_result option"

definition server_thread :: "'j json_lib \<Rightarrow> baseline_profile \<Rightarrow> server_answers \<Rightarrow> comparator_process \<Rightarrow>
    comparator_process outcome" where
  "server_thread J profile ans s = (case kp_server s of
      V_setup \<Rightarrow> Next (s\<lparr>kp_server :=
        if fst (telemetry_server_setup (va_socket ans) (va_bind ans) (va_listen ans)) then V_head else V_over\<rparr>)
    | V_head \<Rightarrow> Next (s\<lparr>kp_server := if kp_running s then V_wait else V_over\<rparr>)
    | V_wait \<Rightarrow> Next (s\<lparr>kp_server := if va_poll ans \<le> 0 \<or> va_accept ans < 0 then V_head else V_client []\<rparr>)
    | V_client buffer \<Rightarrow> Next (s\<lparr>kp_server := if kp_running s then V_recv buffer else V_head\<rparr>)
    | V_recv buffer \<Rightarrow> (case va_recv ans of
          None \<Rightarrow> Blocked
        | Some (Received chunk) \<Rightarrow>
            (let (ls, rest) = cut_lines (buffer @ chunk) in Next (s\<lparr>kp_server := V_lines ls rest\<rparr>))
        | Some _ \<Rightarrow> Next (s\<lparr>kp_server := V_head\<rparr>))
    | V_lines ls buffer \<Rightarrow> (case ls of
          [] \<Rightarrow> Next (s\<lparr>kp_server := V_client buffer\<rparr>)
        | line # ls \<Rightarrow> (case server_step J profile line (kp_comparator s) of
              None \<Rightarrow> Fault
            | Some c \<Rightarrow> Next (s\<lparr>kp_comparator := c, kp_server := V_lines ls buffer\<rparr>)))
    | V_over \<Rightarrow> Blocked)"

text \<open>\<open>now\<close> is the reading of the clock printed with a trigger.  When a push fails and the flag is
  cleared the record is dropped.\<close>

definition rt_thread :: "(int \<Rightarrow> nat) \<Rightarrow> baseline_profile \<Rightarrow> int \<Rightarrow> comparator_process \<Rightarrow>
    comparator_process outcome" where
  "rt_thread hour_of profile now s = (case kp_rt s of
      R_head \<Rightarrow> Next (s\<lparr>kp_rt := if kp_running s then R_pop else R_over\<rparr>)
    | R_pop \<Rightarrow> (case rt_step hour_of profile (kp_comparator s) of
          None \<Rightarrow> Fault
        | Some c \<Rightarrow> Next (s\<lparr>kp_comparator := c, kp_rt := if co_pending c = None then R_head else R_push,
            kp_console := kp_console s @ map (actuator_text now)
              (drop (length (co_actuated (kp_comparator s))) (co_actuated c))\<rparr>))
    | R_push \<Rightarrow> (case rt_step hour_of profile (kp_comparator s) of
          None \<Rightarrow> Fault
        | Some c \<Rightarrow>
            (if co_pending c = None then Next (s\<lparr>kp_comparator := c, kp_rt := R_head\<rparr>)
             else if kp_running s then Next (s\<lparr>kp_comparator := c\<rparr>)
             else Next (s\<lparr>kp_comparator := c\<lparr>co_pending := None\<rparr>, kp_rt := R_head\<rparr>)))
    | R_over \<Rightarrow> Blocked)"

definition db_thread :: "bool \<Rightarrow> (string \<Rightarrow> bool) \<Rightarrow> string option \<Rightarrow> comparator_process \<Rightarrow>
    comparator_process outcome" where
  "db_thread libpq opens env s = (case kp_db s of
      D_start \<Rightarrow> Next (s\<lparr>kp_linked := sync_connected libpq opens env, kp_db := D_head\<rparr>)
    | D_head \<Rightarrow> Next (s\<lparr>kp_db := if kp_running s then D_pop else D_over\<rparr>)
    | D_pop \<Rightarrow> (case db_step (kp_linked s) (kp_comparator s) of
          None \<Rightarrow> Fault
        | Some c \<Rightarrow> Next (s\<lparr>kp_comparator := c, kp_db := D_head\<rparr>))
    | D_over \<Rightarrow> Blocked)"

definition join_thread :: "comparator_process \<Rightarrow> comparator_process outcome" where
  "join_thread s = (case kp_main s of
      N_serve \<Rightarrow> (if kp_server s = V_over then Next (s\<lparr>kp_main := N_stop\<rparr>) else Blocked)
    | N_stop \<Rightarrow> Next (s\<lparr>kp_running := False, kp_main := N_join_rt\<rparr>)
    | N_join_rt \<Rightarrow> (if kp_rt s = R_over then Next (s\<lparr>kp_main := N_join_db\<rparr>) else Blocked)
    | N_join_db \<Rightarrow> (if kp_db s = D_over then Next (s\<lparr>kp_main := N_exit\<rparr>) else Blocked)
    | N_exit \<Rightarrow> Blocked)"

datatype comparator_move = Serve server_answers | Compare int | Sync bool "string \<Rightarrow> bool" "string option" | Join

fun comparator_moves :: "'j json_lib \<Rightarrow> (int \<Rightarrow> nat) \<Rightarrow> baseline_profile \<Rightarrow> comparator_move \<Rightarrow>
    comparator_process \<Rightarrow> comparator_process outcome" where
  "comparator_moves J hour_of profile (Serve ans) s = server_thread J profile ans s"
| "comparator_moves J hour_of profile (Compare now) s = rt_thread hour_of profile now s"
| "comparator_moves J hour_of profile (Sync libpq opens env) s = db_thread libpq opens env s"
| "comparator_moves J hour_of profile Join s = join_thread s"

section \<open>What the threads preserve\<close>

text \<open>What a step on the rings leaves alone.\<close>

lemma server_step_keeps:
  "server_step J profile line c = Some c' \<Longrightarrow>
   co_pending c' = co_pending c \<and> co_taken c' = co_taken c \<and> co_actuated c' = co_actuated c"
  by (auto simp: server_step_def split: option.splits)

lemma rt_step_keeps:
  "rt_step hour_of profile c = Some c' \<Longrightarrow>
   co_accepted c' = co_accepted c \<and> co_taken c' = co_taken c
   \<and> (\<exists>rs. co_actuated c' = co_actuated c @ rs) \<and> (co_pending c \<noteq> None \<longrightarrow> co_actuated c' = co_actuated c)"
  by (auto simp: rt_step_def split: option.splits)

lemma db_step_keeps:
  "db_step linked c = Some c' \<Longrightarrow>
   co_pending c' = co_pending c \<and> co_accepted c' = co_accepted c \<and> co_actuated c' = co_actuated c"
  by (auto simp: db_step_def split: option.splits)

text \<open>Nothing accepted, nothing made.\<close>

lemma idle:
  "co_inv hour_of profile linked c \<Longrightarrow> co_accepted c = [] \<Longrightarrow>
   made c = [] \<and> rb_items (co_ingest c) = [] \<and> co_pending c = None \<and> co_taken c = [] \<and> rb_items (co_sync c) = []"
  by (auto simp: co_inv_def made_def pending_list_def split: option.splits)

definition kp_inv :: "(int \<Rightarrow> nat) \<Rightarrow> baseline_profile \<Rightarrow> comparator_process \<Rightarrow> bool" where
  "kp_inv hour_of profile s \<longleftrightarrow> (let c = kp_comparator s in
     co_inv hour_of profile (kp_linked s) c
     \<and> (kp_db s = D_start \<longrightarrow> co_taken c = [])
     \<and> (co_pending c \<noteq> None \<longleftrightarrow> kp_rt s = R_push)
     \<and> (kp_server s = V_setup \<or> kp_server s = V_over \<longrightarrow> co_accepted c = [])
     \<and> (kp_running s \<longleftrightarrow> kp_main s = N_serve \<or> kp_main s = N_stop)
     \<and> (kp_main s \<noteq> N_serve \<longrightarrow> kp_server s = V_over)
     \<and> list_all2 (\<lambda>r t. \<exists>now. t = actuator_text now r) (co_actuated c) (kp_console s))"

lemma kp_inv_start: "kp_start e0 r0 = Some s \<Longrightarrow> kp_inv hour_of profile s"
  using comparator_new_inv [of e0 r0 "kp_comparator s" hour_of profile False]
  by (auto simp: kp_start_def kp_inv_def comparator_new_def split: bind_splits)

lemma kp_inv_server:
  assumes "kp_inv hour_of profile s" "server_thread J profile ans s = Next s'"
  shows "kp_inv hour_of profile s'"
proof (cases "\<exists>line ls buffer. kp_server s = V_lines (line # ls) buffer")
  case True
  then obtain line ls buffer c where c: "kp_server s = V_lines (line # ls) buffer"
    "server_step J profile line (kp_comparator s) = Some c"
    "s' = s\<lparr>kp_comparator := c, kp_server := V_lines ls buffer\<rparr>"
    using assms(2) by (auto simp: server_thread_def split: option.splits)
  have "co_inv hour_of profile (kp_linked s) c"
    using server_step_inv [of hour_of profile "kp_linked s" "kp_comparator s" J line] assms(1) c(2)
    by (auto simp: kp_inv_def Let_def)
  then show ?thesis using assms(1) c server_step_keeps [OF c(2)] by (simp add: kp_inv_def Let_def)
next
  case False
  then show ?thesis using assms
    by (auto simp: kp_inv_def server_thread_def Let_def
        split: server_pc.splits list.splits option.splits recv_result.splits prod.splits if_splits)
qed

lemma kp_inv_rt:
  assumes "kp_inv hour_of profile s" "\<And>t. hour_of t < length (bp_baselines profile)"
    "rt_thread hour_of profile now s = Next s'"
  shows "kp_inv hour_of profile s'"
proof (cases "kp_rt s = R_pop \<or> kp_rt s = R_push")
  case True
  have "co_inv hour_of profile (kp_linked s) (kp_comparator s)" using assms(1) by (simp add: kp_inv_def Let_def)
  from rt_step_inv [where hour_of = hour_of, OF this assms(2)] obtain c where
    c: "rt_step hour_of profile (kp_comparator s) = Some c" "co_inv hour_of profile (kp_linked s) c" by blast
  have running: "kp_running s" if "kp_rt s = R_push"
    using idle [of hour_of profile "kp_linked s" "kp_comparator s"] assms(1) that by (auto simp: kp_inv_def Let_def)
  obtain rs where rs: "co_actuated c = co_actuated (kp_comparator s) @ rs" using rt_step_keeps [OF c(1)] by blast
  have console: "list_all2 (\<lambda>r t. \<exists>now. t = actuator_text now r) rs (map (actuator_text now) rs)"
    by (auto simp: list_all2_conv_all_nth)
  show ?thesis
  proof (cases "kp_rt s = R_pop")
    case True
    then have s': "s' = s\<lparr>kp_comparator := c, kp_rt := if co_pending c = None then R_head else R_push,
        kp_console := kp_console s @ map (actuator_text now) rs\<rparr>"
      using assms(3) c(1) rs by (simp add: rt_thread_def)
    show ?thesis unfolding s' using assms(1) rt_step_keeps [OF c(1)] c(2) rs console True
      by (auto simp: kp_inv_def Let_def intro: list_all2_appendI)
  next
    case False
    then have p: "kp_rt s = R_push" "kp_running s" using True running by simp_all
    show ?thesis using assms(1,3) c p rt_step_keeps [OF c(1)]
      by (auto simp: kp_inv_def rt_thread_def Let_def split: if_splits)
  qed
next
  case False
  then show ?thesis using assms(1,3)
    by (auto simp: kp_inv_def rt_thread_def Let_def split: rt_pc.splits if_splits)
qed

lemma co_inv_linked: "co_inv hour_of profile linked c \<Longrightarrow> co_taken c = [] \<Longrightarrow> co_inv hour_of profile l c"
  by (simp add: co_inv_def)

lemma kp_inv_db:
  assumes "kp_inv hour_of profile s" "db_thread libpq opens env s = Next s'"
  shows "kp_inv hour_of profile s'"
proof (cases "kp_db s")
  case D_start
  have "co_inv hour_of profile l (kp_comparator s)" for l
    by (rule co_inv_linked [where linked = "kp_linked s"]) (use assms(1) D_start in \<open>simp_all add: kp_inv_def Let_def\<close>)
  moreover have "s' = s\<lparr>kp_linked := sync_connected libpq opens env, kp_db := D_head\<rparr>"
    using assms(2) D_start by (simp add: db_thread_def)
  ultimately show ?thesis using assms(1) unfolding kp_inv_def Let_def by simp
next
  case D_pop
  then obtain c where c: "db_step (kp_linked s) (kp_comparator s) = Some c" "s' = s\<lparr>kp_comparator := c, kp_db := D_head\<rparr>"
    using assms(2) by (auto simp: db_thread_def split: option.splits)
  have "co_inv hour_of profile (kp_linked s) c"
    using db_step_inv [of hour_of profile "kp_linked s" "kp_comparator s"] assms(1) c(1)
    by (auto simp: kp_inv_def Let_def)
  then show ?thesis using assms(1) c db_step_keeps [OF c(1)] by (simp add: kp_inv_def Let_def)
qed (use assms in \<open>auto simp: kp_inv_def db_thread_def Let_def\<close>)

lemma kp_inv_join: "kp_inv hour_of profile s \<Longrightarrow> join_thread s = Next s' \<Longrightarrow> kp_inv hour_of profile s'"
  by (auto simp: kp_inv_def join_thread_def Let_def split: joiner_pc.splits if_splits)

text \<open>The invariant with a profile that has all hours.\<close>

definition kp_good :: "(int \<Rightarrow> nat) \<Rightarrow> baseline_profile \<Rightarrow> comparator_process \<Rightarrow> bool" where
  "kp_good hour_of profile s \<longleftrightarrow> kp_inv hour_of profile s \<and> (\<forall>t. hour_of t < length (bp_baselines profile))"

lemma kp_good_step:
  assumes "kp_good hour_of profile s" "comparator_moves J hour_of profile a s = Next s'"
  shows "kp_good hour_of profile s'"
proof -
  have inv: "kp_inv hour_of profile s" and hours: "\<And>t. hour_of t < length (bp_baselines profile)"
    using assms(1) by (simp_all add: kp_good_def)
  have "kp_inv hour_of profile s'"
  proof (cases a)
    case (Serve ans)
    show ?thesis by (rule kp_inv_server [OF inv]) (use assms(2) Serve in simp)
  next
    case (Compare now)
    show ?thesis by (rule kp_inv_rt [OF inv hours]) (use assms(2) Compare in simp)
  next
    case (Sync libpq opens env)
    show ?thesis by (rule kp_inv_db [OF inv]) (use assms(2) Sync in simp)
  next
    case Join
    show ?thesis by (rule kp_inv_join [OF inv]) (use assms(2) Join in simp)
  qed
  then show ?thesis using hours by (simp add: kp_good_def)
qed

interpretation comparator: preserved "comparator_moves J hour_of profile" "kp_good hour_of profile"
  for J :: "'j json_lib" and hour_of profile
  by unfold_locales (rule kp_good_step)

lemma kp_no_fault:
  assumes "kp_good hour_of profile s"
  shows "comparator_moves J hour_of profile a s \<noteq> Fault"
proof -
  let ?c = "kp_comparator s"
  have inv: "co_inv hour_of profile (kp_linked s) ?c" "\<And>t. hour_of t < length (bp_baselines profile)"
    using assms by (auto simp: kp_good_def kp_inv_def Let_def)
  have defined: "server_step J profile line ?c \<noteq> None" "rt_step hour_of profile ?c \<noteq> None"
    "db_step (kp_linked s) ?c \<noteq> None" for line
    using server_step_inv [OF inv(1), of J line] rt_step_inv [where hour_of = hour_of, OF inv] db_step_inv [OF inv(1)]
    by auto
  show ?thesis
  proof (cases a)
    case (Serve ans)
    then show ?thesis
      by (auto simp: server_thread_def Let_def case_prod_beta defined(1)
          split: server_pc.split list.split option.split recv_result.split)
  next
    case (Compare now)
    then show ?thesis using defined(2) by (auto simp: rt_thread_def split: rt_pc.split if_splits)
  next
    case (Sync libpq opens env)
    then show ?thesis using defined(3) by (auto simp: db_thread_def split: db_pc.split)
  next
    case Join
    then show ?thesis by (auto simp: join_thread_def split: joiner_pc.split)
  qed
qed

section \<open>Serving and ending\<close>

text \<open>The server has been set up.\<close>

definition serving :: "comparator_process \<Rightarrow> bool" where
  "serving s \<longleftrightarrow> kp_running s \<and> kp_main s = N_serve \<and> kp_server s \<noteq> V_setup \<and> kp_server s \<noteq> V_over"

lemma serving_step: "serving s \<Longrightarrow> comparator_moves J hour_of profile a s = Next s' \<Longrightarrow> serving s'"
  by (cases a)
    (auto simp: serving_def server_thread_def rt_thread_def db_thread_def join_thread_def Let_def
      split: server_pc.splits rt_pc.splits db_pc.splits list.splits option.splits recv_result.splits
        prod.splits if_splits)

interpretation serving: preserved "comparator_moves J hour_of profile" serving
  for J :: "'j json_lib" and hour_of profile
  by unfold_locales (rule serving_step)

fun joiner_rank :: "joiner_pc \<Rightarrow> nat" where
  "joiner_rank N_serve = 4" | "joiner_rank N_stop = 3" | "joiner_rank N_join_rt = 2"
| "joiner_rank N_join_db = 1" | "joiner_rank N_exit = 0"

definition kp_rank :: "comparator_process \<Rightarrow> nat" where
  "kp_rank s = joiner_rank (kp_main s)
     + (case kp_rt s of R_head \<Rightarrow> 1 | R_over \<Rightarrow> 0 | _ \<Rightarrow> 2) + (case kp_db s of D_head \<Rightarrow> 1 | D_over \<Rightarrow> 0 | _ \<Rightarrow> 2)"

definition kp_closing :: "(int \<Rightarrow> nat) \<Rightarrow> baseline_profile \<Rightarrow> comparator_process \<Rightarrow> bool" where
  "kp_closing hour_of profile s \<longleftrightarrow> kp_good hour_of profile s \<and> \<not> kp_running s"

lemma kp_closing_facts:
  assumes "kp_closing hour_of profile s"
  shows "kp_server s = V_over" "co_accepted (kp_comparator s) = []" "kp_rt s \<noteq> R_push"
    "co_inv hour_of profile (kp_linked s) (kp_comparator s)"
    "kp_main s = N_join_rt \<or> kp_main s = N_join_db \<or> kp_main s = N_exit"
proof -
  let ?c = "kp_comparator s"
  have inv: "kp_inv hour_of profile s" "\<not> kp_running s" using assms by (simp_all add: kp_closing_def kp_good_def)
  then show over: "kp_server s = V_over" and co: "co_inv hour_of profile (kp_linked s) ?c"
    and "kp_main s = N_join_rt \<or> kp_main s = N_join_db \<or> kp_main s = N_exit"
    using joiner_pc.exhaust [of "kp_main s"] by (auto simp: kp_inv_def Let_def)
  then show acc: "co_accepted ?c = []" using inv by (simp add: kp_inv_def Let_def)
  from idle [OF co this] show "kp_rt s \<noteq> R_push" using inv by (auto simp: kp_inv_def Let_def)
qed

lemma kp_closing_step:
  assumes "kp_closing hour_of profile s" "comparator_moves J hour_of profile a s = Next s'"
  shows "kp_closing hour_of profile s'" "kp_rank s' < kp_rank s"
proof -
  note facts = kp_closing_facts [OF assms(1)]
  have stopped: "\<not> kp_running s" using assms(1) by (simp add: kp_closing_def)
  have "\<not> kp_running s'" using assms(2) stopped
    by (cases a) (auto simp: server_thread_def rt_thread_def db_thread_def join_thread_def Let_def
      split: server_pc.splits rt_pc.splits db_pc.splits joiner_pc.splits list.splits option.splits
        recv_result.splits prod.splits if_splits)
  moreover have "kp_good hour_of profile s'"
    by (rule kp_good_step [OF _ assms(2)]) (use assms(1) in \<open>simp add: kp_closing_def\<close>)
  ultimately show closing: "kp_closing hour_of profile s'" by (simp add: kp_closing_def)
  have rt: "kp_rt s' \<noteq> R_push" by (rule kp_closing_facts(3) [OF closing])
  show "kp_rank s' < kp_rank s"
  proof (cases a)
    case (Serve ans)
    then show ?thesis using assms(2) facts(1) by (simp add: server_thread_def)
  next
    case (Compare now)
    then show ?thesis using assms(2) facts(3) rt stopped
      by (auto simp: rt_thread_def kp_rank_def split: rt_pc.splits option.splits if_splits)
  next
    case (Sync libpq opens env)
    then show ?thesis using assms(2) stopped
      by (auto simp: db_thread_def kp_rank_def split: db_pc.splits option.splits)
  next
    case Join
    then show ?thesis using assms(2) facts(5)
      by (auto simp: join_thread_def kp_rank_def split: if_splits)
  qed
qed

interpretation comparator_closing: ranked "comparator_moves J hour_of profile" "kp_closing hour_of profile" kp_rank
  for J :: "'j json_lib" and hour_of profile
  by unfold_locales (fact kp_closing_step)+

lemma kp_closing_rank: "kp_closing hour_of profile s \<Longrightarrow> kp_rank s \<le> 6"
  using kp_closing_facts(5) [of hour_of profile s] by (auto simp: kp_rank_def split: rt_pc.split db_pc.split)

lemma kp_closing_no_fault: "kp_closing hour_of profile s \<Longrightarrow> comparator_moves J hour_of profile a s \<noteq> Fault"
  unfolding kp_closing_def using kp_no_fault by blast

text \<open>Stuck with the flag cleared: the process has ended.\<close>

lemma kp_closing_blocked:
  assumes "kp_closing hour_of profile s" "all_blocked (comparator_moves J hour_of profile) s"
  shows "kp_main s = N_exit" "kp_rt s = R_over" "kp_db s = D_over"
proof -
  have move: "comparator_moves J hour_of profile a s = Blocked" for a using assms(2) by (simp add: all_blocked_def)
  note facts = kp_closing_facts [OF assms(1)]
  show rt: "kp_rt s = R_over" using move [of "Compare 0"] facts(3)
    by (cases "kp_rt s") (auto simp: rt_thread_def split: option.splits)
  show db: "kp_db s = D_over" using move [of "Sync False (\<lambda>_. False) None"]
    by (cases "kp_db s") (auto simp: db_thread_def split: option.splits)
  show "kp_main s = N_exit" using move [of Join] facts(5) rt db by (auto simp: join_thread_def)
qed

text \<open>
  C40: the life of the comparator.  A process started with a valid configuration, on a clock whose
  hours are below 24, has in every reachable state no undefined step; the comparisons of the
  accepted events are in order those written, waiting, in the real-time thread's hands, and to be
  made; each trigger has printed its line.  Once the server is set up the process serves for ever:
  the flag stays set in everything that follows.  The flag is cleared only when the set-up of the
  server failed; then no event was ever accepted, so nothing is lost although the threads drop
  what they hold; at most six more steps are possible, and where none is the main
  thread has joined both others.
\<close>

theorem comparator_lifecycle:
  assumes "comparator_main J args file = Main_runs profile port" "\<And>t. hour_of t < 24"
    "kp_start e0 r0 = Some s0" "reaches (comparator_moves J hour_of profile) s0 s"
  shows "(\<forall>a. comparator_moves J hour_of profile a s \<noteq> Fault)
    \<and> (let c = kp_comparator s in
         map (comparison hour_of profile) (co_accepted c)
           = co_taken c @ rb_items (co_sync c) @ pending_list c @ map (comparison hour_of profile) (rb_items (co_ingest c))
         \<and> co_writes c = map (sync_write (kp_linked s)) (co_taken c)
         \<and> list_all2 (\<lambda>r t. \<exists>now. t = actuator_text now r) (co_actuated c) (kp_console s))
    \<and> (kp_server s \<noteq> V_setup \<and> kp_server s \<noteq> V_over \<longrightarrow>
         (\<forall>s'. reaches (comparator_moves J hour_of profile) s s' \<longrightarrow> kp_running s' \<and> kp_main s' = N_serve))
    \<and> (\<not> kp_running s \<longrightarrow> kp_server s = V_over \<and> co_accepted (kp_comparator s) = []
         \<and> (\<forall>as s'. run_steps (comparator_moves J hour_of profile) as s = Next s' \<longrightarrow> length as \<le> 6
              \<and> (all_blocked (comparator_moves J hour_of profile) s' \<longrightarrow>
                   kp_main s' = N_exit \<and> kp_rt s' = R_over \<and> kp_db s' = D_over))
         \<and> (\<exists>as s'. run_steps (comparator_moves J hour_of profile) as s = Next s'
              \<and> all_blocked (comparator_moves J hour_of profile) s'))"
proof -
  have "kp_good hour_of profile s0"
    using kp_inv_start [OF assms(3)] assms(2) comparator_main_hours [OF assms(1)] by (simp add: kp_good_def)
  with comparator.reaches_good [OF assms(4)] have good: "kp_good hour_of profile s" .
  then have inv: "kp_inv hour_of profile s" by (simp add: kp_good_def)
  have serve: "serving s'" if "kp_server s \<noteq> V_setup" "kp_server s \<noteq> V_over"
    "reaches (comparator_moves J hour_of profile) s s'" for s'
    using serving.reaches_good [OF that(3)] that(1,2) inv by (auto simp: serving_def kp_inv_def Let_def)
  have ends: "kp_server s = V_over \<and> co_accepted (kp_comparator s) = []
      \<and> (\<forall>as s'. run_steps (comparator_moves J hour_of profile) as s = Next s' \<longrightarrow> length as \<le> 6
           \<and> (all_blocked (comparator_moves J hour_of profile) s' \<longrightarrow>
                kp_main s' = N_exit \<and> kp_rt s' = R_over \<and> kp_db s' = D_over))
      \<and> (\<exists>as s'. run_steps (comparator_moves J hour_of profile) as s = Next s'
           \<and> all_blocked (comparator_moves J hour_of profile) s')" if "\<not> kp_running s"
  proof -
    have c: "kp_closing hour_of profile s" using good that by (simp add: kp_closing_def)
    have "length as \<le> 6 \<and> (all_blocked (comparator_moves J hour_of profile) s' \<longrightarrow>
        kp_main s' = N_exit \<and> kp_rt s' = R_over \<and> kp_db s' = D_over)"
      if run: "run_steps (comparator_moves J hour_of profile) as s = Next s'" for as s'
      using comparator_closing.run_length [OF run c] kp_closing_rank [OF c]
        kp_closing_blocked [OF comparator_closing.run_good [OF run c], of J] by simp
    then show ?thesis
      using kp_closing_facts(1,2) [OF c] comparator_closing.run_settles [OF kp_closing_no_fault c] by blast
  qed
  have accounts: "let c = kp_comparator s in
       map (comparison hour_of profile) (co_accepted c)
         = co_taken c @ rb_items (co_sync c) @ pending_list c @ map (comparison hour_of profile) (rb_items (co_ingest c))
       \<and> co_writes c = map (sync_write (kp_linked s)) (co_taken c)
       \<and> list_all2 (\<lambda>r t. \<exists>now. t = actuator_text now r) (co_actuated c) (kp_console s)"
    using inv unfolding kp_inv_def co_inv_def made_def Let_def append_assoc by blast
  show ?thesis
    using kp_no_fault [OF good] accounts serve ends unfolding serving_def by blast
qed

definition demo_config :: "demo json_lib" where
  "demo_config = demo_json\<lparr>j_parse := \<lambda>s. Some (DObj [(''profile_id'', DStr ''crop_moisture''),
     (''metric_name'', DStr ''soil''), (''threshold'', DInt 5), (''baselines'', DArr (replicate 24 (DInt 45))),
     (''payload'', DObj [(''humidity'', DDbl (Fin 60)), (''timestamp'', DInt 0)])])\<rparr>"

definition demo_serve :: comparator_move where
  "demo_serve = Serve \<lparr>va_socket = 3, va_bind = 0, va_listen = 0, va_poll = 1, va_accept = 4,
     va_recv = Some (Received [CHR ''x'', CHR 0x0A])\<rparr>"

definition demo_refused :: "comparator_move list" where
  "demo_refused = [Serve \<lparr>va_socket = 3, va_bind = -1, va_listen = 0, va_poll = 1, va_accept = 4, va_recv = None\<rparr>,
     Join, Join]"

definition demo_ending :: "comparator_move list" where
  "demo_ending = [Compare 0, Sync False (\<lambda>_. False) None, Sync False (\<lambda>_. False) None, Join, Join]"

abbreviation demo_soil :: baseline_profile where
  "demo_soil \<equiv> demo_profile\<lparr>bp_metric_name := ''soil''\<rparr>"

lemma demo_served:
  "comparator_main demo_config [''--port'', ''15000''] Some = Main_runs demo_soil 15000"
  by code_simp

lemma demo_event_of: "telemetry_event_of demo_config demo_soil ''x'' \<noteq> None"
proof -
  let ?payload = "DObj [(''humidity'', DDbl (Fin 60)), (''timestamp'', DInt 0)]"
  let ?line = "DObj [(''profile_id'', DStr ''crop_moisture''), (''metric_name'', DStr ''soil''), (''threshold'', DInt 5),
    (''baselines'', DArr (replicate 24 (DInt 45))), (''payload'', ?payload)]"
  have parsed: "j_parse demo_config ''x'' = Some ?line"
    and ops: "j_at demo_config = demo_at" "j_get_double demo_config (DDbl d) = Some d"
      "j_get_long demo_config (DInt n) = Some n" for d n
    by (simp_all add: demo_config_def demo_json_def)
  have members: "demo_at ?line ''payload'' = Some ?payload"
    "demo_at ?payload ''humidity'' = Some (DDbl (Fin 60))" "demo_at ?payload ''timestamp'' = Some (DInt 0)"
    and id: "bp_profile_id demo_soil = ''crop_moisture''"
    by (simp_all add: demo_profile_def)
  show ?thesis unfolding telemetry_event_of_def parsed at_get_def ops id bind.bind_lunit members
    by (simp del: demo_at.simps add: members ops)
qed

lemma demo_cut: "cut_lines [CHR ''x'', CHR 0x0A] = ([''x''], [])"
  using cut_lines_step [of "''x''" "[]"] by (simp add: cut_lines_rest)

lemma first_event:
  assumes "comparator_new e0 r0 = Some c" "telemetry_event_of J profile line = Some e"
  shows "\<exists>c'. server_step J profile line c = Some c' \<and> co_accepted c' = [e]"
proof -
  obtain a where a: "rb_new e0 2048 = Some a" "co_ingest c = a" "co_accepted c = []"
    using assms(1) by (auto simp: comparator_new_def split: bind_splits)
  note new = rb_new_inv [OF a(1), simplified]
  from new(1) show ?thesis
    by (cases rule: rb.enq_cases [of _ e]) (use assms(2) a new in \<open>simp_all add: server_step_def\<close>)
qed

lemma demo_accepted:
  assumes "kp_start e0 r0 = Some s0"
  shows "\<exists>s. run_steps (comparator_moves demo_config (\<lambda>t. 7) demo_soil) (replicate 6 demo_serve) s0 = Next s
    \<and> length (co_accepted (kp_comparator s)) = 1 \<and> kp_server s = V_lines [] []"
proof -
  obtain c where c: "comparator_new e0 r0 = Some c" "kp_comparator s0 = c" "kp_server s0 = V_setup" "kp_running s0"
    using assms by (auto simp: kp_start_def)
  obtain e where e: "telemetry_event_of demo_config demo_soil ''x'' = Some e" using demo_event_of by blast
  from first_event [OF c(1) e] obtain c' where
    "server_step demo_config demo_soil ''x'' c = Some c'" "co_accepted c' = [e]" by blast
  with c show ?thesis
    by (simp add: eval_nat_numeral server_thread_def demo_serve_def telemetry_server_setup_def demo_cut)
qed

text \<open>The address is taken: the server gives up, and the process ends with the three others.\<close>

lemma demo_refusal:
  assumes "kp_start e0 r0 = Some s0"
  shows "run_steps (comparator_moves demo_config (\<lambda>t. 7) demo_soil) demo_refused s0
    = Next (s0\<lparr>kp_running := False, kp_server := V_over, kp_main := N_join_rt\<rparr>)"
  using assms by (auto simp: kp_start_def demo_refused_def server_thread_def join_thread_def telemetry_server_setup_def)

lemma demo_ends:
  assumes "kp_start e0 r0 = Some s0"
  shows "run_steps (comparator_moves demo_config (\<lambda>t. 7) demo_soil) demo_ending
      (s0\<lparr>kp_running := False, kp_server := V_over, kp_main := N_join_rt\<rparr>)
    = Next (s0\<lparr>kp_running := False, kp_server := V_over, kp_main := N_exit, kp_rt := R_over, kp_db := D_over\<rparr>)"
  using assms by (auto simp: kp_start_def demo_ending_def rt_thread_def db_thread_def join_thread_def sync_connected_def)

theorem comparator_lifecycle_witness:
  "\<exists>s0. kp_start demo_event (comparison (\<lambda>t. 7) demo_profile demo_event) = Some s0
    \<and> (\<exists>s. reaches (comparator_moves demo_config (\<lambda>t. 7) demo_soil) s0 s
         \<and> length (co_accepted (kp_comparator s)) = 1
         \<and> (\<forall>s'. reaches (comparator_moves demo_config (\<lambda>t. 7) demo_soil) s s' \<longrightarrow> kp_running s'))
    \<and> (\<exists>s. reaches (comparator_moves demo_config (\<lambda>t. 7) demo_soil) s0 s
         \<and> \<not> kp_running s \<and> co_accepted (kp_comparator s) = [])"
proof -
  obtain s0 where s0: "kp_start demo_event (comparison (\<lambda>t. 7) demo_profile demo_event) = Some s0"
    by (simp add: kp_start_def comparator_new_def rb_new_def)
  have hours: "(7::nat) < 24" by simp
  note life = comparator_lifecycle [OF demo_served hours s0]
  obtain s where s: "run_steps (comparator_moves demo_config (\<lambda>t. 7) demo_soil) (replicate 6 demo_serve) s0 = Next s"
    "length (co_accepted (kp_comparator s)) = 1" "kp_server s = V_lines [] []"
    using demo_accepted [OF s0] by blast
  note r = run_steps_reaches [OF s(1) reaches.Here]
  have "\<forall>s'. reaches (comparator_moves demo_config (\<lambda>t. 7) demo_soil) s s' \<longrightarrow> kp_running s'"
    using life [OF r] s(3) by simp
  moreover obtain u where u: "run_steps (comparator_moves demo_config (\<lambda>t. 7) demo_soil) demo_refused s0 = Next u"
    "\<not> kp_running u" using demo_refusal [OF s0] by simp
  note q = run_steps_reaches [OF u(1) reaches.Here]
  have "co_accepted (kp_comparator u) = []" using life [OF q] u(2) by simp
  ultimately show ?thesis using s0 r q s(2) u(2) by blast
qed

end
