(* ===== verification/Benchmark.thy ===== *)
theory Benchmark
  imports Ring_Buffer Number_Format Http Transitions "HOL-Library.Multiset"
begin

text \<open>
  \<open>tools/rt_bench.cpp\<close>: the statistics of the jitter measurement, and the queue benchmark, in
  which one thread pushes numbers into a \<open>LocklessRingBuffer\<close> until each is accepted and another
  pops until it has as many.  The readings of the clock are arguments; a step of a thread is one call
  of the ring.
\<close>

section \<open>Jitter\<close>

text \<open>Nanoseconds from the time a thread asked to be woken, every 100 microseconds, to the reading
  of the clock.\<close>

fun jitter_latencies :: "int \<Rightarrow> int list \<Rightarrow> int list" where
  "jitter_latencies next_wakeup [] = []"
| "jitter_latencies next_wakeup (now # rest) = (now - next_wakeup) # jitter_latencies (next_wakeup + 100000) rest"

record jitter =
  jt_min :: int
  jt_max :: int
  jt_avg :: int
  jt_p99 :: int

text \<open>The index is computed in \<open>double\<close> and truncated.\<close>

definition p99_index :: "nat \<Rightarrow> nat" where
  "p99_index iterations = (case d_mul (of_long (int iterations)) (lit (99 / 100)) of
     Fin x \<Rightarrow> nat \<lfloor>x\<rfloor> | _ \<Rightarrow> 0)"

text \<open>None: \<open>front\<close> of an empty vector, an index out of range, or a division by zero.\<close>

definition jitter_report :: "int list \<Rightarrow> jitter option" where
  "jitter_report latencies =
     (let s = sort latencies; iterations = length latencies
      in if s = [] \<or> length s \<le> p99_index iterations then None
         else Some \<lparr>jt_min = hd s, jt_max = last s, jt_avg = trunc_div (sum_list s) (int iterations),
           jt_p99 = s ! p99_index iterations\<rparr>)"

definition jitter_text :: "int \<Rightarrow> jitter \<Rightarrow> string" where
  "jitter_text cpu r = ''--- Jitter Report (CPU '' @ to_string cpu @ '') ---'' @ nl
     @ ''Min: '' @ to_string (jt_min r) @ '' ns'' @ nl @ ''Max: '' @ to_string (jt_max r) @ '' ns'' @ nl
     @ ''Avg: '' @ to_string (jt_avg r) @ '' ns'' @ nl @ ''P99: '' @ to_string (jt_p99 r) @ '' ns'' @ nl"

lemma length_latencies [simp]: "length (jitter_latencies t nows) = length nows"
  by (induction nows arbitrary: t) auto

lemma p99_main: "p99_index 10000 = 9900"
  by code_simp

text \<open>The figures of the run \<open>main\<close> makes: the extremes bound all figures, and at least 99 of 100
  samples are at most the 99th percentile.\<close>

lemma sorted_bounds:
  assumes "sorted s" "x \<in> set (s :: int list)"
  shows "hd s \<le> x" "x \<le> last s"
proof -
  obtain i where i: "i < length s" "x = s ! i" using assms(2) by (auto simp: in_set_conv_nth)
  then have "s \<noteq> []" by auto
  with i show "hd s \<le> x" "x \<le> last s"
    using sorted_nth_mono [OF assms(1), of 0 i] sorted_nth_mono [OF assms(1), of i "length s - 1"]
    by (simp_all add: hd_conv_nth last_conv_nth)
qed

lemma sum_bounds:
  "\<forall>x\<in>set xs. lo \<le> x \<and> x \<le> hi \<Longrightarrow> int (length xs) * lo \<le> sum_list xs \<and> sum_list xs \<le> int (length xs) * (hi::int)"
  by (induction xs) (auto simp: algebra_simps)

lemma average_bounds:
  assumes "\<forall>x\<in>set xs. lo \<le> x \<and> x \<le> (hi::int)" "xs \<noteq> []"
  shows "lo \<le> trunc_div (sum_list xs) (int (length xs)) \<and> trunc_div (sum_list xs) (int (length xs)) \<le> hi"
proof -
  let ?n = "int (length xs)" and ?s = "sum_list xs"
  have n: "0 < ?n" and s: "?n * lo \<le> ?s" "?s \<le> ?n * hi" using assms sum_bounds [OF assms(1)] by simp_all
  have cancel: "(?n * k) div ?n = k" for k using n by simp
  show ?thesis
  proof (cases "0 \<le> ?s")
    case True
    have "lo \<le> ?s div ?n" "?s div ?n \<le> hi"
      using zdiv_mono1 [OF s(1) n] zdiv_mono1 [OF s(2) n] unfolding cancel .
    then show ?thesis by (simp add: trunc_div_nonneg [OF True n])
  next
    case False
    have "?n * (- hi) \<le> - ?s" "- ?s \<le> ?n * (- lo)" using s by simp_all
    from zdiv_mono1 [OF this(1) n] zdiv_mono1 [OF this(2) n]
    have "- hi \<le> (- ?s) div ?n" "(- ?s) div ?n \<le> - lo" unfolding cancel .
    then show ?thesis using False by (simp add: trunc_div_neg [OF _ n])
  qed
qed

lemma p99_covers:
  assumes "sorted (s :: int list)" "k < length s"
  shows "Suc k \<le> length (filter (\<lambda>x. x \<le> s ! k) s)"
proof -
  have "filter (\<lambda>x. x \<le> s ! k) (take (Suc k) s) = take (Suc k) s"
    using assms by (auto simp: filter_id_conv in_set_conv_nth sorted_nth_mono)
  moreover have "length (filter P (take m s)) \<le> length (filter P s)" for P and m :: nat
    by (metis append_take_drop_id filter_append length_append le_add1)
  ultimately show ?thesis using assms(2) by (metis Suc_leI length_take min.absorb2)
qed

lemma jitter_figures:
  assumes "length nows = 10000"
  shows "\<exists>r. jitter_report (jitter_latencies t nows) = Some r
    \<and> jt_min r \<le> jt_p99 r \<and> jt_p99 r \<le> jt_max r \<and> jt_min r \<le> jt_avg r \<and> jt_avg r \<le> jt_max r
    \<and> jt_min r = Min (set (jitter_latencies t nows)) \<and> jt_max r = Max (set (jitter_latencies t nows))
    \<and> 9901 \<le> length (filter (\<lambda>x. x \<le> jt_p99 r) (jitter_latencies t nows))"
proof -
  let ?l = "jitter_latencies t nows"
  define s where "s = sort ?l"
  have s: "sorted s" "set s = set ?l" "length s = 10000" "mset s = mset ?l" using assms by (simp_all add: s_def)
  have ne: "s \<noteq> []" using s(3) by auto
  have mem: "s ! 9900 \<in> set s" by (rule nth_mem) (simp add: s(3))
  note bounds = sorted_bounds [OF s(1)]
  let ?r = "\<lparr>jt_min = hd s, jt_max = last s, jt_avg = trunc_div (sum_list s) (int (length s)), jt_p99 = s ! 9900\<rparr>"
  have "jitter_report ?l = Some ?r"
    using assms ne s(3) by (simp add: jitter_report_def Let_def s_def [symmetric] p99_main)
  moreover have "hd s \<le> jt_avg ?r" "jt_avg ?r \<le> last s"
    using average_bounds [of s "hd s" "last s"] bounds ne by auto
  moreover have "hd s = Min (set s)" "last s = Max (set s)"
    using bounds ne by (auto intro!: Min_eqI [symmetric] Max_eqI [symmetric])
  moreover have "9901 \<le> length (filter (\<lambda>x. x \<le> s ! 9900) ?l)"
  proof -
    have "mset (filter (\<lambda>x. x \<le> s ! 9900) ?l) = mset (filter (\<lambda>x. x \<le> s ! 9900) s)" by (simp add: s(4))
    from mset_eq_length [OF this] p99_covers [OF s(1), of 9900] show ?thesis by (simp add: s(3))
  qed
  ultimately show ?thesis using bounds [OF mem] s(2) by (intro exI [of _ ?r]) simp
qed

section \<open>The queue\<close>

text \<open>The number pushed: an \<open>int\<close> made of the counter.\<close>

definition pushed_int :: "nat \<Rightarrow> int" where
  "pushed_int i = sint (of_nat i :: 32 word)"

text \<open>\<open>bq_next\<close> is the counter of the producer; \<open>bq_got\<close> records what the consumer popped.\<close>

record bench =
  bq_ring :: "int ring"
  bq_next :: nat
  bq_count :: u64
  bq_got :: "int list"

definition bench_start :: "bench option" where
  "bench_start = map_option (\<lambda>r. \<lparr>bq_ring = r, bq_next = 0, bq_count = 0, bq_got = []\<rparr>) (rb_new 0 (1024 * 1024))"

text \<open>The argument tells the producer from the consumer; a thread that has its number of items has
  ended.\<close>

definition bench_step :: "nat \<Rightarrow> bool \<Rightarrow> bench \<Rightarrow> bench outcome" where
  "bench_step iterations producer s =
     (if producer then
        (if iterations \<le> bq_next s then Blocked
         else (case rb_push (bq_ring s) (pushed_int (bq_next s)) of
             None \<Rightarrow> Fault
           | Some (ok, r) \<Rightarrow> Next (s\<lparr>bq_ring := r, bq_next := if ok then Suc (bq_next s) else bq_next s\<rparr>)))
      else
        (if iterations \<le> length (bq_got s) then Blocked
         else (case rb_pop (bq_ring s) of
             None \<Rightarrow> Fault
           | Some (None, r) \<Rightarrow> Next (s\<lparr>bq_ring := r\<rparr>)
           | Some (Some x, r) \<Rightarrow> Next (s\<lparr>bq_ring := r, bq_count := bq_count s + 1, bq_got := bq_got s @ [x]\<rparr>))))"

definition bench_inv :: "nat \<Rightarrow> bench \<Rightarrow> bool" where
  "bench_inv iterations s \<longleftrightarrow> rb_inv (bq_ring s) \<and> rb_room (bq_ring s) = 1048575 \<and> bq_next s \<le> iterations
     \<and> map pushed_int [0..<bq_next s] = bq_got s @ rb_items (bq_ring s)
     \<and> bq_count s = of_nat (length (bq_got s))"

lemma bench_inv_start:
  assumes "bench_start = Some s"
  shows "bench_inv iterations s"
proof -
  obtain r where r: "rb_new 0 (1024 * 1024) = Some r" "s = \<lparr>bq_ring = r, bq_next = 0, bq_count = 0, bq_got = []\<rparr>"
    using assms by (auto simp: bench_start_def)
  note new = rb_new_inv [OF r(1)]
  show ?thesis using new r(2) by (simp add: bench_inv_def)
qed

lemma bench_push:
  assumes "bench_inv iterations s" "bq_next s < iterations"
  shows "\<exists>s'. bench_step iterations True s = Next s' \<and> bench_inv iterations s'
    \<and> (length (rb_items (bq_ring s)) < 1048575 \<longrightarrow> bq_next s' = Suc (bq_next s) \<and> bq_got s' = bq_got s)"
proof -
  have inv: "rb_inv (bq_ring s)" using assms(1) by (simp add: bench_inv_def)
  then show ?thesis
    by (cases rule: rb.enq_cases [of _ "pushed_int (bq_next s)"])
      (use assms in \<open>auto simp: bench_step_def bench_inv_def\<close>)
qed

lemma bench_pop:
  assumes "bench_inv iterations s" "length (bq_got s) < iterations"
  shows "\<exists>s'. bench_step iterations False s = Next s' \<and> bench_inv iterations s'
    \<and> (rb_items (bq_ring s) \<noteq> [] \<longrightarrow> length (bq_got s') = Suc (length (bq_got s)) \<and> bq_next s' = bq_next s)"
proof -
  have inv: "rb_inv (bq_ring s)" using assms(1) by (simp add: bench_inv_def)
  then show ?thesis
    by (cases rule: rb.deq_cases) (use assms in \<open>auto simp: bench_step_def bench_inv_def\<close>)
qed

lemma bench_steps:
  assumes "bench_inv iterations s"
  shows "bench_step iterations a s \<noteq> Fault" "bench_step iterations a s = Next s' \<Longrightarrow> bench_inv iterations s'"
proof -
  have "bench_step iterations a s \<noteq> Fault \<and> (bench_step iterations a s = Next s' \<longrightarrow> bench_inv iterations s')" for s'
  proof (cases "bench_step iterations a s = Blocked")
    case False
    then have "if a then bq_next s < iterations else length (bq_got s) < iterations"
      by (auto simp: bench_step_def split: if_splits)
    then obtain u where "bench_step iterations a s = Next u" "bench_inv iterations u"
      using bench_push [OF assms] bench_pop [OF assms] by (cases a) auto
    then show ?thesis by auto
  qed simp
  then show "bench_step iterations a s \<noteq> Fault"
    "bench_step iterations a s = Next s' \<Longrightarrow> bench_inv iterations s'" by blast+
qed

interpretation bench: preserved "bench_step iterations" "bench_inv iterations" for iterations
  by unfold_locales (rule bench_steps)

text \<open>However the two threads interleave the consumer gets the numbers in order; while it has not
  got all, one of the threads can do work that counts; when none can move it has got all.\<close>

lemma bench_queue:
  assumes "bench_start = Some s0" "reaches (bench_step iterations) s0 s"
  shows "bq_got s = map pushed_int [0..<length (bq_got s)]" "bq_count s = of_nat (length (bq_got s))"
    "length (bq_got s) < iterations \<Longrightarrow> \<exists>a s'. bench_step iterations a s = Next s'
       \<and> bq_next s + length (bq_got s) < bq_next s' + length (bq_got s')"
    "all_blocked (bench_step iterations) s \<Longrightarrow> bq_got s = map pushed_int [0..<iterations]"
proof -
  have inv: "bench_inv iterations s" by (rule bench.reaches_good [OF assms(2) bench_inv_start [OF assms(1)]])
  then have made: "map pushed_int [0..<bq_next s] = bq_got s @ rb_items (bq_ring s)" by (simp add: bench_inv_def)
  have len: "bq_next s = length (bq_got s) + length (rb_items (bq_ring s))" using arg_cong [OF made, of length] by simp
  have "bq_got s = take (length (bq_got s)) (map pushed_int [0..<bq_next s])" by (simp add: made)
  then show got: "bq_got s = map pushed_int [0..<length (bq_got s)]" using len by (simp add: take_map)
  show "bq_count s = of_nat (length (bq_got s))" using inv by (simp add: bench_inv_def)
  show "\<exists>a s'. bench_step iterations a s = Next s'
      \<and> bq_next s + length (bq_got s) < bq_next s' + length (bq_got s')" if "length (bq_got s) < iterations"
  proof (cases "rb_items (bq_ring s) = []")
    case True
    then show ?thesis using bench_push [OF inv] that len by fastforce
  next
    case False
    then show ?thesis using bench_pop [OF inv that] by fastforce
  qed
  show "bq_got s = map pushed_int [0..<iterations]" if "all_blocked (bench_step iterations) s"
  proof -
    have "bench_step iterations False s = Blocked" using that by (simp add: all_blocked_def)
    then have "iterations \<le> length (bq_got s)" using bench_pop [OF inv] by fastforce
    moreover have "bq_next s \<le> iterations" using inv by (simp add: bench_inv_def)
    ultimately have "length (bq_got s) = iterations" using len by simp
    then show ?thesis using got by simp
  qed
qed

text \<open>The figure printed; a run that takes less than a millisecond divides by zero.\<close>

definition throughput :: "nat \<Rightarrow> int \<Rightarrow> double" where
  "throughput iterations duration = d_div (d_mul (of_size iterations) (lit 1)) (d_div (of_long duration) (lit 1000))"

definition throughput_text :: "nat \<Rightarrow> int \<Rightarrow> string" where
  "throughput_text iterations duration = ''--- Queue Throughput ---'' @ nl
     @ ''Processed: '' @ to_string (int iterations) @ '' items'' @ nl
     @ ''Duration: '' @ to_string duration @ '' ms'' @ nl
     @ ''Throughput: '' @ ostream_double (throughput iterations duration) @ '' ops/sec'' @ nl"

lemma throughput_instant: "throughput 10000000 0 = signed_inf False" "throughput 10000000 2000 = Fin 5000000"
proof -
  have "round64 10000000 = Fin 10000000" by code_simp
  then have size: "of_size 10000000 = Fin 10000000" by (simp add: of_size_def)
  show "throughput 10000000 0 = signed_inf False" unfolding throughput_def size by code_simp
  show "throughput 10000000 2000 = Fin 5000000" unfolding throughput_def size by code_simp
qed

end
