(* ===== verification/Log_Files.thy ===== *)
theory Log_Files
  imports Pipeline
begin

text \<open>
  Where \<open>ValidationAggregationConsumerPipeline\<close> writes its two logs: the directory of the
  environment variable \<open>LOGDIR\<close>, or \<open>logs\<close>, joined with a file name by \<open>operator/\<close> of
  \<open>std::filesystem::path\<close>.
\<close>

definition log_dir :: "string option \<Rightarrow> string" where
  "log_dir env = (case env of None \<Rightarrow> ''logs'' | Some d \<Rightarrow> if d = [] then ''logs'' else d)"

text \<open>An absolute second operand replaces the first; a separator is added unless there is one.\<close>

definition path_join :: "string \<Rightarrow> string \<Rightarrow> string" where
  "path_join a b = (if b \<noteq> [] \<and> hd b = CHR ''/'' then b
     else if a = [] \<or> last a = CHR ''/'' then a @ b else a @ ''/'' @ b)"

definition packet_log_path :: "string option \<Rightarrow> string \<Rightarrow> string" where
  "packet_log_path env consumer = path_join (log_dir env) (consumer @ ''.log'')"

definition analytics_log_path :: "string option \<Rightarrow> string \<Rightarrow> string" where
  "analytics_log_path env consumer = path_join (log_dir env) (consumer @ ''_map_analytics.log'')"

lemma path_join_inject:
  "path_join a b = path_join a c \<Longrightarrow> (b \<noteq> [] \<and> hd b = CHR ''/'') = (c \<noteq> [] \<and> hd c = CHR ''/'') \<Longrightarrow> b = c"
  by (auto simp: path_join_def split: if_splits)

text \<open>The two logs of a consumer are different files, and so are those of different consumers, unless
  one is named as the other with \<open>_map_analytics\<close> added: then both write to one file.\<close>

lemma logs_distinct: "packet_log_path env consumer \<noteq> analytics_log_path env consumer"
proof
  assume eq: "packet_log_path env consumer = analytics_log_path env consumer"
  have "consumer @ ''.log'' = consumer @ ''_map_analytics.log''"
    by (rule path_join_inject [OF eq [unfolded packet_log_path_def analytics_log_path_def]])
      (cases consumer; simp)
  then show False by simp
qed

lemma log_of_consumer:
  assumes "consumer \<noteq> []" "other \<noteq> []" "hd consumer \<noteq> CHR ''/''" "hd other \<noteq> CHR ''/''"
  shows "packet_log_path env consumer = packet_log_path env other \<longleftrightarrow> consumer = other"
    "packet_log_path env consumer = analytics_log_path env other \<longleftrightarrow> consumer = other @ ''_map_analytics''"
proof -
  have join: "path_join d (consumer @ b) = path_join d (other @ c) \<longleftrightarrow> consumer @ b = other @ c" for b c d
    using path_join_inject [of d "consumer @ b" "other @ c"] assms by auto
  have "consumer @ ''.log'' = other @ ''_map_analytics.log'' \<longleftrightarrow> consumer @ ''.log'' = (other @ ''_map_analytics'') @ ''.log''"
    by simp
  then show "packet_log_path env consumer = analytics_log_path env other \<longleftrightarrow> consumer = other @ ''_map_analytics''"
    unfolding packet_log_path_def analytics_log_path_def join by (simp only: append_same_eq)
  show "packet_log_path env consumer = packet_log_path env other \<longleftrightarrow> consumer = other"
    unfolding packet_log_path_def join by simp
qed

end
