(* ===== verification/Spec2Isabelle.thy ===== *)
theory Spec2Isabelle
  imports Batch_Sql Batch_Flush Async_Queue Ring_Spsc Flow_Controller Map_Sql Heat_Pictures Map_Server
    Broker Comparator Collectors Route_Mapper Resources Simulator Services
    Collector_Process Shared_Pipeline Writer_Shutdown Comparator_Process Benchmark Log_Files
begin

text \<open>
  A verification library for weather-rtos, a set of C++ services that collect weather
  observations, pass them from tier to tier over TCP, store them in TimescaleDB and serve maps.

  The parts and how they interact.  A collector or the simulator wraps each observation
  (\<open>common/models/WeatherPacket.hpp\<close>) in an envelope (\<open>common/protocol\<close>) and sends it as one JSON
  line with \<open>TcpBrokerPublisher\<close>.  Aggregators receive lines with \<open>TcpSubscriber\<close>, put each
  envelope through a \<open>ValidationAggregationConsumerPipeline\<close> and forward it with the pipeline's
  callback.  The timescale writer is the last consumer: its callback is \<open>AsyncQueueWriter::submit\<close>,
  a region-partitioned queue whose batches go to \<open>TimescaleBatchWriter\<close>, which builds one SQL
  text per batch and runs it through \<open>TimescaleDbClient\<close>, or appends it to an outbox file.
  \<open>services/map_query_api\<close> answers HTTP requests from the same database.

  Foundations.  \<open>Prelude\<close>: C++ integer division, decimal printing, splitting.  \<open>Binary64\<close>:
  \<open>double\<close> as NaN, infinities and rationals with round-to-nearest-even.  \<open>Json_Interface\<close>: the
  JSON package as a record of operations, its documented behaviour \<open>json_laws\<close>, and a concrete
  instance for the witnesses.  \<open>Std_Map\<close>: \<open>std::map\<close> behind the locale \<open>ordered_map\<close>.
  \<open>Transitions\<close>: threads that share a state as a step function, what can be reached, and the locales
  \<open>preserved\<close> (an invariant) and \<open>ranked\<close> (runs are bounded and settle).
  \<open>Number_Format\<close> and \<open>Text_Parse\<close>: the stream and \<open>printf\<close> formats, \<open>stoi\<close>, \<open>stod\<close>, tokens.

  Messages.  \<open>Packet\<close> and \<open>Envelope\<close> (round trips, identifiers); \<open>Map_Analytics\<close> (hazard
  scores, tile keys: \<open>common/analytics/MapAnalytics.hpp\<close>).

  Transport.  \<open>Tcp_Socket\<close> (\<open>common/socket/TCPSocket.cpp\<close>), \<open>Tcp_Session\<close>
  (\<open>BrokerPublisher.hpp\<close>, \<open>TcpSubscriber.hpp\<close>, \<open>RegionalGateway.hpp\<close>), \<open>Pipeline\<close>
  (\<open>common/pipeline\<close>), \<open>Log_Files\<close> (the paths of its logs) and \<open>Tcp_Delivery\<close>, which composes them: a hop hands every envelope on.

  Sources.  \<open>Collectors\<close> (\<open>collectors/regional\<close>, \<open>collectors/south_india\<close>, \<open>CitySampling.hpp\<close>,
  \<open>RuntimeConfig.hpp\<close>: the packet made of an answer, the queue between the threads, start-up),
  \<open>Collector_Process\<close> (the poll threads and the sender of a collector as one step function, with its
  accounts and its shutdown),
  \<open>Simulator\<close> (\<open>simulator/main.cpp\<close>), \<open>Route_Mapper\<close> (\<open>LogisticsRouteMapper.hpp\<close>, used by no service).

  Tiers.  \<open>Broker\<close> (the in-process broker of \<open>common/subscribing\<close>: its queues behind the locale
  \<open>topic_broker\<close>, its threads as lists of instructions cut at every lock and every access to the
  shared maps; \<open>BrokerAggregator.hpp\<close>, \<open>aggregator/asia\<close>), \<open>Services\<close> (the programs
  \<open>aggregator/hierarchical\<close>, \<open>aggregator/india\<close>, \<open>timescale_writer\<close>: which configuration they run
  with, what they do with a line, and bytes relayed through several tiers), \<open>Shared_Pipeline\<close> (client
  threads that share a pipeline, cut at its mutex), \<open>Writer_Process\<close> (the three threads of
  \<open>timescale_writer\<close> as a step function on their joint state; an invariant over all reachable states
  accounts for every envelope), \<open>Writer_Shutdown\<close> (its threads end, and what is flushed when).
  This file composes them:
  \<open>weather_delivery\<close> follows envelopes from a publisher to the writer's queue.

  Real-time parts.  \<open>Ring_Buffer\<close> and \<open>Ring_Spsc\<close> (\<open>LocklessRingBuffer.hpp\<close>: a bounded queue
  refining a list, then every interleaving of one producer and one consumer), \<open>Flow_Controller\<close>
  (the token bucket of \<open>FlowController.hpp\<close>), \<open>Comparator\<close> (\<open>services/personal_comparator\<close>: its three
  threads around two rings, and the framing of its telemetry), \<open>Comparator_Process\<close> (its life from
  start-up to exit, with the main thread), \<open>Resources\<close>
  (\<open>CgroupV2Manager.hpp\<close>, \<open>ZeroCopyTransfer.hpp\<close>), \<open>Benchmark\<close> (\<open>tools/rt_bench.cpp\<close>).

  Storage.  \<open>Batch_Rows\<close>, \<open>Batch_Groups\<close>, \<open>Batch_Sql\<close>, \<open>Batch_Flush\<close>, \<open>Batch_Writer\<close>
  (\<open>common/timescale/TimescaleBatchWriter.hpp\<close>: rows, hazard model, statement text, the flush loop,
  queue and outbox), \<open>Sql_Text\<close> (an SQL scanner that says when a text is a sequence of
  statements with well-formed literals), \<open>Async_Queue\<close> (\<open>AsyncQueueWriter.hpp\<close>), \<open>Metrics\<close>
  (\<open>common/metrics/Metrics.hpp\<close>), \<open>Db_Client\<close> (the two database clients in both builds).

  Map service (\<open>services/map_query_api/main.cpp\<close>).  \<open>Http\<close> and \<open>Http_Requests\<close> (parsing,
  responses), \<open>Png\<close> (encoder, with a decoder it is inverse to), \<open>Map_Store\<close>, \<open>Map_Sql\<close>,
  \<open>Map_Snapshots\<close>, \<open>Map_Results\<close> (queries and their JSON results), \<open>Heat_Tile\<close>,
  \<open>Heat_Pictures\<close> (rendered tiles), \<open>Map_Server\<close> (dispatch, connections, start-up).

  How state and effects are modelled.  A class is a record of its members and a method a
  function from the state to the state and a result; a lock region is one step.  What the
  operating system, the database, the clock, the files and the JSON package answer is an
  argument.  Exceptions and undefined behaviour (an out-of-range conversion, an access outside
  a vector, \<open>int\<close> overflow where an input can cause it) are values of an option or result type, and so
  is the end of the process by \<open>SIGPIPE\<close> when it sends to a closed connection.  Unsigned counters are words and wrap.
  Loops without a bound of their own are partial functions in the option monad, with a proof
  that they return; loops driven by the outside (accept loops, client threads, ring steps) are
  recursive over the list of answers they get, and a theorem that they do what they should asks
  for as many readings of the \<open>running\<close> flag as there are answers and one more.

  Not modelled: interleavings other than those of the ring's two ends, of the broker's clients, of
  the client threads of a pipeline and of the threads of the collectors, the comparator and the
  writer (elsewhere a thread is followed on its own); memory ordering below sequential
  consistency; scheduling priorities, sleeps, signal handlers, console output and the shutdown
  descriptor of \<open>timescale_writer/main.cpp\<close>; the pure virtual
  interfaces \<open>IBrokerPublisher.hpp\<close> and \<open>IBrokerSubscriber.hpp\<close>.  Files under \<open>build/\<close> are generated.
\<close>

section \<open>From a sender to the writer's queue\<close>

text \<open>
  C34: an observation reaches the storage queue.  A fresh publisher that connects sends the
  envelopes \<open>es\<close>; the bytes pass through any number \<open>k\<close> of hierarchical aggregators, each cut
  into reads in its own way, and reach the timescale writer.  No sender logs, every connection
  works and at most 4096 envelopes are acceptable.  Then the writer's queue holds for each region
  exactly the acceptable envelopes of that region in the order they were sent, and its pipeline
  has counted them all.
\<close>

theorem weather_delivery:
  assumes "fst (connect_to_server os tcp_socket_new)" "list_all (line_ok J) es"
    "relayed J os k (snd (snd (tcp_publish_all J (whole_sends J os es) tcp_publisher_new))) w"
    "arrives client 1000 wake True steps w" "0 \<le> client" "length steps < n" "\<not> le_enabled env"
    "length (accepted J es) \<le> 4096"
  shows "\<exists>pl a. client_session client wake (surely (writer_message J env)) (replicate n True) steps (writer_start m)
      = (Still_waiting, pl, a)
    \<and> (\<forall>r. queue_of (aq_queues a) r = filter (\<lambda>e. extract_region J e = r) (accepted J es))
    \<and> pl_total_packets pl = of_nat (length (accepted J es))"
proof -
  have "snd (snd (tcp_publish_all J (whole_sends J os es) tcp_publisher_new))
      = lines_text (map (envelope_text J) es)"
    using tcp_publish_all_fresh [OF assms(1,2)] by simp
  from relayed_lines [OF assms(3) this assms(2,1)] obtain fs where fs:
    "w = lines_text (map (envelope_text J) fs)" "list_all (line_ok J) fs" "accepted J fs = accepted J es"
    by blast
  note session = session_lines [OF fs(2) assms(5,6) assms(4) [unfolded fs(1)]]
  show ?thesis
    using writer_submits [OF assms(7) fs(2) pl_inv_new] writer_fresh_queue [OF assms(8)]
    by (simp add: session writer_start_def fs(3) accepted_total)
qed

lemma demo_relayed: "relayed one_line fine_setup 1 [CHR ''x'', CHR 0x0A] [CHR ''x'', CHR 0x0A]"
proof -
  obtain ended pl pub w where run: "client_session 5 (-1) (aggregator_message one_line quiet fine_setup whole)
      (replicate 4 True) one_line_read (pipeline_new ''asia'' True, tcp_publisher_new, []) = (ended, pl, pub, w)"
    by (metis prod_cases4)
  have arrives: "arrives 5 1000 (-1) True one_line_read (lines_text (map (envelope_text one_line) [demo_envelope]))"
    using one_line_arrives by (simp add: one_line_ok(2))
  have "length one_line_read < 4" "\<not> le_enabled quiet" by (simp_all add: one_line_read_def quiet_def)
  note plain = this
  from tier_output [OF one_line_ok(1) arrives _ plain fine_connects run]
  have "w = [CHR ''x'', CHR 0x0A]" by (simp add: demo_decoded one_line_ok(2))
  with relayed.Tier [OF relayed.Source one_line_arrives _ plain run] show ?thesis by simp
qed

theorem weather_delivery_witness:
  "\<forall>m. \<exists>pl a. client_session 5 (-1) (surely (writer_message one_line quiet)) (replicate 4 True) one_line_read (writer_start m)
      = (Still_waiting, pl, a)
    \<and> queue_of (aq_queues a) ''south_india'' = [demo_envelope]
    \<and> queue_of (aq_queues a) ''Kochi'' = [] \<and> pl_total_packets pl = 1"
proof (rule allI)
  fix m
  have region: "extract_region one_line demo_envelope = ''south_india''" by code_simp
  have plain: "length one_line_read < 4" "\<not> le_enabled quiet" "length (accepted one_line [demo_envelope]) \<le> 4096"
    by (simp_all add: one_line_read_def quiet_def demo_decoded)
  from weather_delivery [OF fine_connects one_line_ok(1) demo_relayed [folded one_line_sent]
      one_line_arrives [folded one_line_sent] _ plain, of m]
  obtain pl a where "client_session 5 (-1) (surely (writer_message one_line quiet)) (replicate 4 True) one_line_read
      (writer_start m) = (Still_waiting, pl, a)" "pl_total_packets pl = 1"
    "\<forall>r. queue_of (aq_queues a) r = filter (\<lambda>e. extract_region one_line e = r) [demo_envelope]"
    by (auto simp: demo_decoded)
  then show "\<exists>pl a. client_session 5 (-1) (surely (writer_message one_line quiet)) (replicate 4 True) one_line_read (writer_start m)
      = (Still_waiting, pl, a)
    \<and> queue_of (aq_queues a) ''south_india'' = [demo_envelope]
    \<and> queue_of (aq_queues a) ''Kochi'' = [] \<and> pl_total_packets pl = 1"
    by (simp add: region)
qed

end
